(* ===== verification/Prelude.thy ===== *)
theory Prelude
  imports Main "HOL-Library.Word"
begin

unbundle bit_operations_syntax

text \<open>
  What the component theories share: Rust's result type with its panic made a value, the
  checked, saturating and wrapping operations of \<open>usize\<close> (a 64-bit target), the bit-counting
  functions of the integer types, and the rewrite rules that turn tests of single bits and
  masked fields of machine words into statements about bits.

  Machine integers of the source are words of their width. \<open>usize\<close>, which the code uses for
  lengths, offsets and counters, is \<^typ>\<open>nat\<close> below \<open>2 ^ 64\<close>; every operation on it that can
  leave that interval is one of the functions of this theory.
\<close>

section \<open>Machine integers\<close>

type_synonym u8 = "8 word"
type_synonym u16 = "16 word"
type_synonym u32 = "32 word"
type_synonym u64 = "64 word"
type_synonym usize = nat

section \<open>Results\<close>

text \<open>
  \<open>Ok\<close> and \<open>Err\<close> are the source's; \<open>Panic\<close> is the outcome of a failed \<open>assert!\<close>, of an
  index or a slice out of bounds and of an overflow that the language traps.
\<close>

datatype ('a, 'e) res = Ok 'a | Err 'e | Panic

fun res_bind :: "('a, 'e) res \<Rightarrow> ('a \<Rightarrow> ('b, 'e) res) \<Rightarrow> ('b, 'e) res" where
  "res_bind (Ok x) f = f x"
| "res_bind (Err e) f = Err e"
| "res_bind Panic f = Panic"

fun res_map :: "('a \<Rightarrow> 'b) \<Rightarrow> ('a, 'e) res \<Rightarrow> ('b, 'e) res" where
  "res_map f (Ok x) = Ok (f x)"
| "res_map f (Err e) = Err e"
| "res_map f Panic = Panic"

fun res_map_err :: "('e \<Rightarrow> 'f) \<Rightarrow> ('a, 'e) res \<Rightarrow> ('a, 'f) res" where
  "res_map_err f (Ok x) = Ok x"
| "res_map_err f (Err e) = Err (f e)"
| "res_map_err f Panic = Panic"

fun ok_or :: "'a option \<Rightarrow> 'e \<Rightarrow> ('a, 'e) res" where
  "ok_or (Some x) e = Ok x"
| "ok_or None e = Err e"

fun res_ok :: "('a, 'e) res \<Rightarrow> 'a option" where
  "res_ok (Ok x) = Some x"
| "res_ok (Err e) = None"
| "res_ok Panic = None"

named_theorems res_iff \<open>characterisations of what a composed result returns\<close>

lemma res_bind_Ok_iff [res_iff]: "res_bind m f = Ok y \<longleftrightarrow> (\<exists>x. m = Ok x \<and> f x = Ok y)"
  by (cases m) auto

lemma res_bind_Err_iff [res_iff]:
  "res_bind m f = Err e \<longleftrightarrow> m = Err e \<or> (\<exists>x. m = Ok x \<and> f x = Err e)"
  by (cases m) auto

lemma res_bind_Panic_iff [res_iff]:
  "res_bind m f = Panic \<longleftrightarrow> m = Panic \<or> (\<exists>x. m = Ok x \<and> f x = Panic)"
  by (cases m) auto

lemma res_map_Ok_iff [res_iff]: "res_map f m = Ok y \<longleftrightarrow> (\<exists>x. m = Ok x \<and> y = f x)"
  by (cases m) auto

lemma res_map_Err_iff [res_iff]: "res_map f m = Err e \<longleftrightarrow> m = Err e"
  by (cases m) auto

lemma res_map_Panic_iff [res_iff]: "res_map f m = Panic \<longleftrightarrow> m = Panic"
  by (cases m) auto

lemma res_map_err_Ok_iff [res_iff]: "res_map_err f m = Ok y \<longleftrightarrow> m = Ok y"
  by (cases m) auto

lemma res_map_err_Err_iff [res_iff]:
  "res_map_err f m = Err e \<longleftrightarrow> (\<exists>x. m = Err x \<and> e = f x)"
  by (cases m) auto

lemma res_map_err_Panic_iff [res_iff]: "res_map_err f m = Panic \<longleftrightarrow> m = Panic"
  by (cases m) auto

lemma ok_or_Ok_iff [res_iff]: "ok_or x e = Ok y \<longleftrightarrow> x = Some y"
  by (cases x) auto

lemma ok_or_Err_iff [res_iff]: "ok_or x e = Err e' \<longleftrightarrow> x = None \<and> e' = e"
  by (cases x) auto

lemma ok_or_not_Panic [simp]: "ok_or x e \<noteq> Panic" "Panic \<noteq> ok_or x e"
  by (cases x; simp)+

lemma res_ok_Some_iff [res_iff]: "res_ok m = Some x \<longleftrightarrow> m = Ok x"
  by (cases m) auto

lemma res_bind_assoc: "res_bind (res_bind m f) g = res_bind m (\<lambda>x. res_bind (f x) g)"
  by (cases m) auto

lemma res_bind_cong [fundef_cong]:
  assumes "m = m'" and "\<And>x. m' = Ok x \<Longrightarrow> f x = g x"
  shows "res_bind m f = res_bind m' g"
  using assms by (cases m') auto

section \<open>Stateful operations\<close>

text \<open>
  An operation on a state returns a result and the state as it leaves it; an error keeps the
  changes made before it, as in the source, where nothing is rolled back.
\<close>

type_synonym ('a, 'e, 's) st = "'s \<Rightarrow> ('a, 'e) res \<times> 's"

definition st_ret :: "'a \<Rightarrow> ('a, 'e, 's) st" where
  "st_ret x s = (Ok x, s)"

definition st_err :: "'e \<Rightarrow> ('a, 'e, 's) st" where
  "st_err e s = (Err e, s)"

definition st_lift :: "('a, 'e) res \<Rightarrow> ('a, 'e, 's) st" where
  "st_lift r s = (r, s)"

definition st_gets :: "('s \<Rightarrow> 'a) \<Rightarrow> ('a, 'e, 's) st" where
  "st_gets g s = (Ok (g s), s)"

definition st_modify :: "('s \<Rightarrow> 's) \<Rightarrow> (unit, 'e, 's) st" where
  "st_modify g s = (Ok (), g s)"

definition st_bind :: "('a, 'e, 's) st \<Rightarrow> ('a \<Rightarrow> ('b, 'e, 's) st) \<Rightarrow> ('b, 'e, 's) st" where
  "st_bind m f s =
     (case m s of (Ok x, s') \<Rightarrow> f x s' | (Err e, s') \<Rightarrow> (Err e, s') | (Panic, s') \<Rightarrow> (Panic, s'))"

definition st_then :: "('a, 'e, 's) st \<Rightarrow> ('b, 'e, 's) st \<Rightarrow> ('b, 'e, 's) st" where
  "st_then m k = st_bind m (\<lambda>_. k)"

lemmas st_defs = st_ret_def st_err_def st_lift_def st_gets_def st_modify_def st_then_def

lemma st_bind_cases:
  "m s = (Ok x, s') \<Longrightarrow> st_bind m f s = f x s'"
  "m s = (Err e, s') \<Longrightarrow> st_bind m f s = (Err e, s')"
  "m s = (Panic, s') \<Longrightarrow> st_bind m f s = (Panic, s')"
  by (simp_all add: st_bind_def)

lemma st_bind_simps [simp]:
  "st_bind (st_ret x) f s = f x s"
  "st_bind (st_err e) f s = (Err e, s)"
  "st_bind (st_lift (Ok x)) f s = f x s"
  "st_bind (st_lift (Err e)) f s = (Err e, s)"
  "st_bind (st_lift Panic) f s = (Panic, s)"
  "st_bind (st_gets g) f s = f (g s) s"
  by (simp_all add: st_bind_def st_ret_def st_err_def st_lift_def st_gets_def)

lemma st_bind_modify [simp]: "st_bind (st_modify h) f s = f () (h s)"
  by (simp add: st_bind_def st_modify_def)

lemma st_simps [simp]:
  "st_ret x s = (Ok x, s)" "st_err e s = (Err e, s)" "st_lift r s = (r, s)"
  "st_gets g s = (Ok (g s), s)"
  by (simp_all add: st_defs)

lemma st_modify_simp [simp]: "st_modify h s = (Ok (), h s)"
  by (simp add: st_defs)

lemma st_bind_Ok_iff [res_iff]:
  "st_bind m f s = (Ok y, t) \<longleftrightarrow> (\<exists>x s'. m s = (Ok x, s') \<and> f x s' = (Ok y, t))"
  by (auto simp: st_bind_def split: prod.splits res.splits)

section \<open>Arrays and slices\<close>

text \<open>Indexing and slicing check their bounds and panic outside them.\<close>

definition arr_get :: "'a list \<Rightarrow> usize \<Rightarrow> ('a, 'e) res" where
  "arr_get xs i = (if i < length xs then Ok (xs ! i) else Panic)"

definition arr_set :: "'a list \<Rightarrow> usize \<Rightarrow> 'a \<Rightarrow> ('a list, 'e) res" where
  "arr_set xs i x = (if i < length xs then Ok (xs[i := x]) else Panic)"

definition slice :: "'a list \<Rightarrow> usize \<Rightarrow> usize \<Rightarrow> ('a list, 'e) res" where
  "slice xs i j = (if i \<le> j \<and> j \<le> length xs then Ok (take (j - i) (drop i xs)) else Panic)"

text \<open>The non-panicking forms \<open>get(i)\<close> and \<open>get(i..j)\<close> of slices.\<close>

definition slice_get :: "'a list \<Rightarrow> usize \<Rightarrow> 'a option" where
  "slice_get xs i = (if i < length xs then Some (xs ! i) else None)"

definition slice_get_range :: "'a list \<Rightarrow> usize \<Rightarrow> usize \<Rightarrow> 'a list option" where
  "slice_get_range xs i j =
     (if i \<le> j \<and> j \<le> length xs then Some (take (j - i) (drop i xs)) else None)"

lemma arr_get_Ok [simp]: "i < length xs \<Longrightarrow> arr_get xs i = Ok (xs ! i)"
  by (simp add: arr_get_def)

lemma arr_set_Ok [simp]: "i < length xs \<Longrightarrow> arr_set xs i x = Ok (xs[i := x])"
  by (simp add: arr_set_def)

lemma slice_Panic_iff [res_iff]: "slice xs i j = Panic \<longleftrightarrow> \<not> (i \<le> j \<and> j \<le> length xs)"
  by (simp add: slice_def)

lemma slice_not_Err [simp]: "slice xs i j \<noteq> Err e"
  by (simp add: slice_def)

section \<open>The unsigned pointer-sized integer\<close>

definition usize_bound :: nat where
  "usize_bound = 2 ^ 64"

definition checked_add_usize :: "usize \<Rightarrow> usize \<Rightarrow> usize option" where
  "checked_add_usize a b = (if a + b < usize_bound then Some (a + b) else None)"

definition checked_mul_usize :: "usize \<Rightarrow> usize \<Rightarrow> usize option" where
  "checked_mul_usize a b = (if a * b < usize_bound then Some (a * b) else None)"

definition checked_sub_usize :: "usize \<Rightarrow> usize \<Rightarrow> usize option" where
  "checked_sub_usize a b = (if b \<le> a then Some (a - b) else None)"

definition saturating_add_usize :: "usize \<Rightarrow> usize \<Rightarrow> usize" where
  "saturating_add_usize a b = (if a + b < usize_bound then a + b else usize_bound - 1)"

definition wrapping_sub_usize :: "usize \<Rightarrow> usize \<Rightarrow> usize" where
  "wrapping_sub_usize a b = (a + usize_bound - b) mod usize_bound"

text \<open>
  Rust's \<open>checked_shl\<close> checks the shift amount only: bits shifted out of the value are lost.
\<close>

definition checked_shl_usize :: "usize \<Rightarrow> nat \<Rightarrow> usize option" where
  "checked_shl_usize a k = (if k < 64 then Some (a * 2 ^ k mod usize_bound) else None)"

lemma checked_add_usize_Some [res_iff]:
  "checked_add_usize a b = Some c \<longleftrightarrow> a + b < usize_bound \<and> c = a + b"
  by (auto simp: checked_add_usize_def)

lemma checked_add_usize_None [res_iff]: "checked_add_usize a b = None \<longleftrightarrow> usize_bound \<le> a + b"
  by (auto simp: checked_add_usize_def)

lemma checked_mul_usize_Some [res_iff]:
  "checked_mul_usize a b = Some c \<longleftrightarrow> a * b < usize_bound \<and> c = a * b"
  by (auto simp: checked_mul_usize_def)

lemma checked_mul_usize_None [res_iff]: "checked_mul_usize a b = None \<longleftrightarrow> usize_bound \<le> a * b"
  by (auto simp: checked_mul_usize_def)

lemma wrapping_sub_usize_le: "b \<le> a \<Longrightarrow> a < usize_bound \<Longrightarrow> wrapping_sub_usize a b = a - b"
proof -
  assume "b \<le> a" and "a < usize_bound"
  then have "a + usize_bound - b = (a - b) + usize_bound" and "a - b < usize_bound" by simp_all
  then show ?thesis by (metis wrapping_sub_usize_def mod_add_self2 mod_less)
qed

lemma unat_u64_bound [simp]: "unat (x :: u64) < usize_bound"
  using unsigned_less [of x, where ?'a = nat] by (simp add: usize_bound_def)

lemma unat_u32_bound [simp]: "unat (x :: u32) < usize_bound"
  using unsigned_less [of x, where ?'a = nat] by (simp add: usize_bound_def)

section \<open>Counting bits\<close>

fun count_ones :: "nat \<Rightarrow> nat" where
  "count_ones n = (if n = 0 then 0 else n mod 2 + count_ones (n div 2))"

fun ctz :: "nat \<Rightarrow> nat" where
  "ctz n = (if n = 0 \<or> odd n then 0 else Suc (ctz (n div 2)))"

fun bit_len :: "nat \<Rightarrow> nat" where
  "bit_len n = (if n = 0 then 0 else Suc (bit_len (n div 2)))"

declare count_ones.simps [simp del] ctz.simps [simp del] bit_len.simps [simp del]

definition trailing_zeros64 :: "usize \<Rightarrow> nat" where
  "trailing_zeros64 n = (if n = 0 then 64 else ctz n)"

definition leading_zeros64 :: "usize \<Rightarrow> nat" where
  "leading_zeros64 n = 64 - bit_len n"

definition is_power_of_two :: "nat \<Rightarrow> bool" where
  "is_power_of_two n \<longleftrightarrow> count_ones n = 1"

lemma count_ones_0 [simp]: "count_ones 0 = 0"
  by (subst count_ones.simps) simp

lemma count_ones_1 [simp]: "count_ones 1 = 1" "count_ones (Suc 0) = 1"
  by (simp_all add: count_ones.simps [of 1] count_ones.simps [of "Suc 0"])

lemma count_ones_double [simp]: "count_ones (2 * n) = count_ones n"
  by (cases "n = 0") (simp_all add: count_ones.simps [of "2 * n"])

lemma count_ones_Suc_double [simp]: "count_ones (Suc (2 * n)) = Suc (count_ones n)"
  by (simp add: count_ones.simps [of "Suc (2 * n)"])

lemma count_ones_numeral [simp]:
  "count_ones (numeral (num.Bit0 k)) = count_ones (numeral k)"
  "count_ones (numeral (num.Bit1 k)) = Suc (count_ones (numeral k))"
proof -
  have "numeral (num.Bit0 k) = 2 * (numeral k :: nat)" "numeral (num.Bit1 k) = Suc (2 * (numeral k :: nat))"
    by simp_all
  then show "count_ones (numeral (num.Bit0 k)) = count_ones (numeral k)"
    "count_ones (numeral (num.Bit1 k)) = Suc (count_ones (numeral k))"
    by (metis count_ones_double, metis count_ones_Suc_double)
qed

lemma count_ones_eq_0_iff: "count_ones n = 0 \<longleftrightarrow> n = 0"
proof (induction n rule: count_ones.induct)
  case (1 n)
  then show ?case
    by (subst count_ones.simps) presburger
qed

lemma count_ones_power [simp]: "count_ones (2 ^ k) = 1"
  by (induction k) simp_all

lemma count_ones_eq_1_power: "count_ones n = 1 \<Longrightarrow> \<exists>k. n = 2 ^ k"
proof (induction n rule: count_ones.induct)
  case (1 n)
  show ?case
  proof (cases "even n")
    case True
    then obtain m where m: "n = 2 * m" by blast
    with "1.prems" have c: "count_ones m = 1" by simp
    have "n \<noteq> 0" using "1.prems" count_ones_0 by (metis zero_neq_one)
    with "1.IH" m c obtain k where "m = 2 ^ k" by auto
    with m have "n = 2 ^ Suc k" by simp
    then show ?thesis by blast
  next
    case False
    then obtain m where m: "n = Suc (2 * m)" by (metis oddE Suc_eq_plus1)
    with "1.prems" have "count_ones m = 0" by simp
    then have "n = 2 ^ 0" using m by (simp add: count_ones_eq_0_iff)
    then show ?thesis by blast
  qed
qed

lemma is_power_of_two_iff: "is_power_of_two n \<longleftrightarrow> (\<exists>k. n = 2 ^ k)"
  using count_ones_eq_1_power by (auto simp: is_power_of_two_def)

lemma is_power_of_two_power [simp]: "is_power_of_two (2 ^ k)"
  by (simp add: is_power_of_two_def)

lemma not_is_power_of_two_0 [simp]: "\<not> is_power_of_two 0"
  by (simp add: is_power_of_two_def)

lemma ctz_odd [simp]: "odd n \<Longrightarrow> ctz n = 0"
  by (subst ctz.simps) simp

lemma ctz_double [simp]: "0 < n \<Longrightarrow> ctz (2 * n) = Suc (ctz n)"
  by (simp add: ctz.simps [of "2 * n"])

lemma ctz_power [simp]: "ctz (2 ^ k) = k"
  by (induction k) simp_all

text \<open>The trailing zeros count the powers of two that divide the number.\<close>

lemma power_dvd_iff_le_ctz: "0 < n \<Longrightarrow> 2 ^ k dvd n \<longleftrightarrow> k \<le> ctz n"
proof (induction n arbitrary: k rule: ctz.induct)
  case (1 n)
  show ?case
  proof (cases "even n")
    case True
    then obtain m where m: "n = 2 * m" by blast
    with "1.prems" have m0: "0 < m" by simp
    show ?thesis
    proof (cases k)
      case 0
      then show ?thesis by simp
    next
      case (Suc j)
      have "2 ^ j dvd m \<longleftrightarrow> j \<le> ctz m"
        using "1.IH" [of j] "1.prems" True m m0 by simp
      then show ?thesis using Suc m m0 by simp
    qed
  next
    case False
    then show ?thesis by (cases k) auto
  qed
qed

lemma bit_len_0 [simp]: "bit_len 0 = 0"
  by (subst bit_len.simps) simp

lemma bit_len_bounds: "0 < n \<Longrightarrow> 2 ^ (bit_len n - 1) \<le> n \<and> n < 2 ^ bit_len n"
proof (induction n rule: bit_len.induct)
  case (1 n)
  show ?case
  proof (cases "n div 2 = 0")
    case True
    with "1.prems" have "n = 1" by simp
    then show ?thesis by (simp add: bit_len.simps [of "Suc 0"])
  next
    case False
    then have IH: "2 ^ (bit_len (n div 2) - 1) \<le> n div 2" "n div 2 < 2 ^ bit_len (n div 2)"
      using "1.IH" "1.prems" by auto
    obtain j where j: "bit_len (n div 2) = Suc j"
      using False bit_len.simps [of "n div 2"] by auto
    have "bit_len n = Suc (Suc j)"
      using "1.prems" j by (subst bit_len.simps) simp
    then show ?thesis using IH j by simp linarith
  qed
qed

lemma bit_len_pos: "0 < n \<Longrightarrow> 0 < bit_len n"
  by (subst bit_len.simps) simp

lemma bit_len_le: "n < 2 ^ k \<Longrightarrow> bit_len n \<le> k"
proof (cases "n = 0")
  case False
  assume "n < 2 ^ k"
  with False have "(2::nat) ^ (bit_len n - 1) < 2 ^ k"
    using bit_len_bounds [of n] by linarith
  then have "bit_len n - 1 < k" by (simp add: power_strict_increasing_iff)
  then show ?thesis using bit_len_pos [of n] False by linarith
qed simp

lemma unat_ucast_mod: "unat (ucast (x :: 'a::len word) :: 'b::len word) = unat x mod 2 ^ LENGTH('b)"
  by (simp add: unsigned_ucast_eq take_bit_eq_mod)

lemma unat_inject: "unat x = unat y \<Longrightarrow> x = (y :: 'a::len word)"
  by (simp add: word_unat_eq_iff)

section \<open>Single bits and fields of words\<close>

named_theorems field_simps_bits \<open>single-bit tests and masked fields as statements about bits\<close>

lemma and_push_bit_1_eq_0 [field_simps_bits]:
  "((w :: 'a::len word) AND push_bit k 1) = 0 \<longleftrightarrow> \<not> bit w k"
proof
  assume a: "w AND push_bit k 1 = 0"
  show "\<not> bit w k"
  proof
    assume b: "bit w k"
    then have "k < LENGTH('a)" by (rule bit_imp_le_length)
    with b have "bit (w AND push_bit k 1) k" by (simp add: bit_simps)
    with a show False by simp
  qed
next
  assume "\<not> bit w k"
  then show "w AND push_bit k 1 = 0"
    by (intro bit_word_eqI) (auto simp: bit_simps)
qed

lemma bit_push_bit_1_iff [field_simps_bits]:
  "bit (push_bit k 1 :: 'a::len word) n \<longleftrightarrow> n = k \<and> n < LENGTH('a)"
  by (auto simp: bit_simps)

text \<open>A word below a power of two has no bit from that position on.\<close>

lemma less_power_bit:
  fixes x :: "'a::len word"
  assumes "x < 2 ^ k" and "bit x n"
  shows "n < k"
proof -
  have "x AND mask k = x"
    using assms(1) by (rule less_mask_eq)
  with assms(2) have "bit (x AND mask k) n" by simp
  then show ?thesis by (simp add: bit_simps)
qed

lemma bit_beyond: "LENGTH('a) \<le> n \<Longrightarrow> bit (x :: 'a::len word) n = False"
  using bit_imp_le_length [of x n] by auto

lemma less_power_bitI:
  fixes x :: "'a::len word"
  assumes "k < LENGTH('a)" and "\<And>n. bit x n \<Longrightarrow> n < k"
  shows "x < 2 ^ k"
proof -
  have "x = x AND mask k"
    using assms(2) by (intro bit_word_eqI) (auto simp: bit_simps)
  also have "\<dots> < 2 ^ k"
    using assms(1) by (intro and_mask_less') simp
  finally show ?thesis .
qed

lemma and_mask_numerals:
  "(x :: 'a::len word) AND 1 = take_bit 1 x"
  "x AND 3 = take_bit 2 x"
  "x AND 7 = take_bit 3 x"
  "x AND 0xf = take_bit 4 x"
  "x AND 0x1f = take_bit 5 x"
  "x AND 0x3f = take_bit 6 x"
  "x AND 0xff = take_bit 8 x"
  "x AND 0x3ff = take_bit 10 x"
  "x AND 0xfff = take_bit 12 x"
  "x AND 0x7fff = take_bit 15 x"
  "x AND 0xffff = take_bit 16 x"
  by (simp_all add: take_bit_eq_mask mask_eq_exp_minus_1)

lemma and_mask_nat: "(n :: nat) AND (2 ^ k - 1) = n mod 2 ^ k"
  by (simp add: take_bit_eq_mod [symmetric] take_bit_eq_mask mask_eq_exp_minus_1)

section \<open>Page-aligned addresses in words\<close>

text \<open>The mask of the address field shared by the table formats: bits 12 to 51.\<close>

definition ADDR_FIELD :: u64 where
  "ADDR_FIELD = 0x000ffffffffff000"

lemma ADDR_FIELD_bit: "bit ADDR_FIELD n \<longleftrightarrow> 12 \<le> n \<and> n < 52"
proof -
  have eq: "ADDR_FIELD = push_bit 12 (mask 40)"
    by (simp add: ADDR_FIELD_def mask_eq_exp_minus_1 push_bit_eq_mult)
  show ?thesis unfolding eq by (auto simp: bit_simps)
qed

lemma page_addr_bits:
  assumes "4096 dvd p" and "p < 2 ^ 52"
  shows "bit (p :: nat) n \<Longrightarrow> 12 \<le> n \<and> n < 52"
proof -
  assume b: "bit p n"
  obtain q where q: "p = 2 ^ 12 * q" using assms(1) by (auto simp: dvd_def)
  then have "p = push_bit 12 q" by (simp add: push_bit_eq_mult mult.commute)
  then have "12 \<le> n" using b by (simp add: bit_simps)
  moreover have "take_bit 52 p = p" using assms(2) by (simp add: take_bit_nat_eq_self)
  then have "n < 52" using b bit_take_bit_iff [of 52 p n] by auto
  ultimately show ?thesis ..
qed

lemma page_addr_word:
  assumes "4096 dvd p" and "p < 2 ^ 52"
  shows "(word_of_nat p :: u64) AND ADDR_FIELD = word_of_nat p" and "unat (word_of_nat p :: u64) = p"
    and "bit (word_of_nat p :: u64) n \<Longrightarrow> 12 \<le> n \<and> n < 52"
proof -
  have b: "bit (word_of_nat p :: u64) n \<Longrightarrow> 12 \<le> n \<and> n < 52" for n
    using page_addr_bits [OF assms, of n] by (simp add: bit_simps)
  then show "bit (word_of_nat p :: u64) n \<Longrightarrow> 12 \<le> n \<and> n < 52" .
  show "(word_of_nat p :: u64) AND ADDR_FIELD = word_of_nat p"
    by (rule bit_word_eqI) (auto simp: bit_and_iff ADDR_FIELD_bit dest: b)
  show "unat (word_of_nat p :: u64) = p" using assms(2) by (simp add: unat_of_nat)
qed

text \<open>An address field and flags outside it do not disturb each other.\<close>

lemma addr_or_flags:
  fixes f :: u64
  assumes "4096 dvd p" and "p < 2 ^ 52" and "\<And>n. bit f n \<Longrightarrow> n < 12 \<or> 52 \<le> n"
  shows "(((word_of_nat p AND ADDR_FIELD) OR f) AND ADDR_FIELD) = word_of_nat p"
    and "n < 12 \<or> 52 \<le> n \<Longrightarrow> bit ((word_of_nat p AND ADDR_FIELD) OR f) n = bit f n"
proof -
  note w = page_addr_word [OF assms(1,2)]
  show "(((word_of_nat p AND ADDR_FIELD) OR f) AND ADDR_FIELD) = word_of_nat p"
    unfolding w(1)
    by (rule bit_word_eqI) (use assms(3) w(3) in \<open>force simp: bit_and_iff bit_or_iff ADDR_FIELD_bit\<close>)
  show "n < 12 \<or> 52 \<le> n \<Longrightarrow> bit ((word_of_nat p AND ADDR_FIELD) OR f) n = bit f n"
    unfolding bit_or_iff bit_and_iff ADDR_FIELD_bit by auto
qed

section \<open>Little-endian bytes\<close>

definition word_of_le :: "u8 list \<Rightarrow> 'a::len word" where
  "word_of_le bs = foldr (\<lambda>b acc. ucast b OR push_bit 8 acc) bs 0"

lemma word_of_le_simps [simp]:
  "word_of_le [] = 0" "word_of_le (b # bs) = ucast b OR push_bit 8 (word_of_le bs)"
  by (simp_all add: word_of_le_def)

lemma bit_word_of_le:
  "bit (word_of_le bs :: 'a::len word) n \<longleftrightarrow>
     n < LENGTH('a) \<and> n div 8 < length bs \<and> bit (bs ! (n div 8)) (n mod 8)"
proof (induction bs arbitrary: n)
  case (Cons b bs)
  show ?case
  proof (cases "n < 8")
    case True
    then show ?thesis by (auto simp: bit_or_iff bit_unsigned_iff bit_push_bit_iff)
  next
    case False
    then obtain m where m: "n = 8 + m" using le_Suc_ex not_less by blast
    then have "n div 8 = Suc (m div 8)" "n mod 8 = m mod 8" by simp_all
    then show ?thesis
      using Cons.IH [of m] m bit_imp_le_length [of b n]
      by (auto simp: bit_or_iff bit_unsigned_iff bit_push_bit_iff)
  qed
qed simp

definition le_bytes :: "u64 \<Rightarrow> u8 list" where
  "le_bytes w = map (\<lambda>i. ucast (drop_bit (8 * i) w)) [0..<8]"

lemma length_le_bytes [simp]: "length (le_bytes w) = 8"
  by (simp add: le_bytes_def)

lemma word_of_le_bytes [simp]: "word_of_le (le_bytes w) = w"
proof (rule bit_word_eqI)
  fix n
  assume "n < LENGTH(64)"
  then have n: "n div 8 < 8" by simp
  have "bit (le_bytes w ! (n div 8)) (n mod 8) \<longleftrightarrow> bit w n"
    using n by (simp add: le_bytes_def bit_unsigned_iff bit_drop_bit_eq)
  then show "bit (word_of_le (le_bytes w) :: u64) n \<longleftrightarrow> bit w n"
    using n \<open>n < LENGTH(64)\<close> by (simp add: bit_word_of_le)
qed

end
