(* ===== verification/External.thy ===== *)
theory External
  imports Prelude
begin

text \<open>
  The crates the repository builds on: \<open>memory_addr\<close> (addresses and address ranges),
  \<open>kore_memory\<close> (page sizes, paging errors, access flags) and \<open>acpi\<close> (the SDT header). Their
  code is not part of the repository, so their operations are the fields of a record that the
  definitions take as an argument. \<open>ext_ok\<close> collects the documented behaviour the code relies
  on; it is a hypothesis of the theorems that need it. \<open>std_ext\<close> is one concrete provider, at
  which the hypotheses are discharged.
\<close>

section \<open>Data of the external crates\<close>

text \<open>Addresses are newtypes over \<open>usize\<close>; a range has two public fields, its end exclusive.\<close>

type_synonym phys_addr = usize
type_synonym virt_addr = usize

record addr_range =
  r_start :: usize
  r_end :: usize

definition valid_range :: "addr_range \<Rightarrow> bool" where
  "valid_range r \<longleftrightarrow> r_start r \<le> r_end r \<and> r_end r < usize_bound"

datatype page_size =
  Size4K | Size16K | Size64K | Size2M | Size32M | Size512M | Size1G | Size64G | Size512G | Size4T
  | OtherSize nat

datatype paging_error = NotAligned | InvalidMappingShape | OtherPagingError nat

datatype acpi_error = SdtInvalidSignature string | OtherAcpiError nat

text \<open>\<open>acpi::PciAddress\<close>, built from and read as four numbers.\<close>

record pci_address =
  pa_segment :: u16
  pa_bus :: u8
  pa_device :: u8
  pa_function :: u8

section \<open>Operations of the external crates\<close>

record ext_ops =
  range_size :: "addr_range \<Rightarrow> usize"
  range_new :: "usize \<Rightarrow> usize \<Rightarrow> addr_range option"
  range_try_from_start_size :: "usize \<Rightarrow> usize \<Rightarrow> addr_range option"
  addr_checked_add :: "usize \<Rightarrow> usize \<Rightarrow> usize option"
  addr_is_aligned :: "usize \<Rightarrow> usize \<Rightarrow> bool"
  page_bytes :: "page_size \<Rightarrow> usize"
  sdt_header_size :: usize
  sdt_signature :: "u8 list \<Rightarrow> string"
  sdt_length :: "u8 list \<Rightarrow> u32"
  sdt_validate :: "u8 list \<Rightarrow> string \<Rightarrow> acpi_error option"

text \<open>
  \<open>range_new\<close> is \<open>AddrRange::new\<close>, which panics (\<open>None\<close>) on a reversed range;
  \<open>sdt_validate\<close> is \<open>SdtHeader::validate\<close>, with \<open>None\<close> for success.
\<close>

definition ext_ok :: "ext_ops \<Rightarrow> bool" where
  "ext_ok E \<longleftrightarrow>
     (\<forall>r. valid_range r \<longrightarrow> range_size E r = r_end r - r_start r) \<and>
     (\<forall>a b. range_new E a b = (if a \<le> b then Some \<lparr>r_start = a, r_end = b\<rparr> else None)) \<and>
     (\<forall>a n. range_try_from_start_size E a n =
        map_option (\<lambda>e. \<lparr>r_start = a, r_end = e\<rparr>) (checked_add_usize a n)) \<and>
     (\<forall>a n. addr_checked_add E a n = checked_add_usize a n) \<and>
     (\<forall>a k. addr_is_aligned E a (2 ^ k) \<longleftrightarrow> a mod 2 ^ k = 0) \<and>
     page_bytes E Size4K = 2 ^ 12 \<and> page_bytes E Size2M = 2 ^ 21 \<and> page_bytes E Size1G = 2 ^ 30 \<and>
     page_bytes E Size512G = 2 ^ 39 \<and> page_bytes E Size16K = 2 ^ 14 \<and> page_bytes E Size32M = 2 ^ 25 \<and>
     page_bytes E Size64G = 2 ^ 36 \<and> page_bytes E Size64K = 2 ^ 16 \<and> page_bytes E Size512M = 2 ^ 29 \<and>
     page_bytes E Size4T = 2 ^ 42 \<and>
     sdt_header_size E = 36"

lemma ext_ok_range_size:
  "ext_ok E \<Longrightarrow> valid_range r \<Longrightarrow> range_size E r = r_end r - r_start r"
  by (simp add: ext_ok_def)

lemma ext_ok_range_new:
  "ext_ok E \<Longrightarrow> range_new E a b = (if a \<le> b then Some \<lparr>r_start = a, r_end = b\<rparr> else None)"
  by (simp add: ext_ok_def)

lemma ext_ok_try_from_start_size:
  "ext_ok E \<Longrightarrow> range_try_from_start_size E a n =
     (if a + n < usize_bound then Some \<lparr>r_start = a, r_end = a + n\<rparr> else None)"
  by (simp add: ext_ok_def checked_add_usize_def)

lemma ext_ok_checked_add: "ext_ok E \<Longrightarrow> addr_checked_add E a n = checked_add_usize a n"
  by (simp add: ext_ok_def)

lemma ext_ok_aligned: "ext_ok E \<Longrightarrow> addr_is_aligned E a (2 ^ k) \<longleftrightarrow> a mod 2 ^ k = 0"
  by (simp add: ext_ok_def)

lemma ext_ok_page_bytes:
  "ext_ok E \<Longrightarrow> page_bytes E Size4K = 4096"
  "ext_ok E \<Longrightarrow> page_bytes E Size2M = 2097152"
  "ext_ok E \<Longrightarrow> page_bytes E Size1G = 1073741824"
  by (simp_all add: ext_ok_def)

lemma ext_ok_aligned_4K: "ext_ok E \<Longrightarrow> addr_is_aligned E a (page_bytes E Size4K) \<longleftrightarrow> a mod 4096 = 0"
  using ext_ok_aligned [of E a 12] by (simp add: ext_ok_page_bytes)

lemma ext_ok_sdt_header_size: "ext_ok E \<Longrightarrow> sdt_header_size E = 36"
  by (simp add: ext_ok_def)

lemmas ext_ok_simps =
  ext_ok_range_size ext_ok_range_new ext_ok_try_from_start_size ext_ok_checked_add
  ext_ok_page_bytes ext_ok_aligned_4K ext_ok_sdt_header_size

section \<open>Access flags\<close>

text \<open>
  \<open>AccessFlags\<close> is a bit-flag type of \<open>kore_memory\<close>: the code builds values from the empty set
  and four named flags, and tests for membership and emptiness.
\<close>

record 'f access_ops =
  af_empty :: 'f
  af_READ :: 'f
  af_WRITE :: 'f
  af_EXECUTE :: 'f
  af_USER :: 'f
  af_union :: "'f \<Rightarrow> 'f \<Rightarrow> 'f"
  af_contains :: "'f \<Rightarrow> 'f \<Rightarrow> bool"
  af_is_empty :: "'f \<Rightarrow> bool"

definition access_named :: "'f access_ops \<Rightarrow> 'f list" where
  "access_named A = [af_READ A, af_WRITE A, af_EXECUTE A, af_USER A]"

definition access_ok :: "'f access_ops \<Rightarrow> bool" where
  "access_ok A \<longleftrightarrow>
     distinct (access_named A) \<and>
     (\<forall>x \<in> set (access_named A). \<not> af_contains A (af_empty A) x) \<and>
     (\<forall>f. \<forall>x \<in> set (access_named A). \<forall>y \<in> set (access_named A).
        af_contains A (af_union A f x) y \<longleftrightarrow> af_contains A f y \<or> x = y) \<and>
     (\<forall>f g h. af_union A f (af_union A g h) = af_union A (af_union A f g) h) \<and>
     af_is_empty A (af_empty A) \<and>
     (\<forall>f. \<forall>x \<in> set (access_named A). \<not> af_is_empty A (af_union A f x))"

lemma access_ok_contains:
  assumes "access_ok A" and "x \<in> set (access_named A)" and "y \<in> set (access_named A)"
  shows "af_contains A (af_union A f x) y \<longleftrightarrow> af_contains A f y \<or> x = y"
    and "\<not> af_contains A (af_empty A) y"
  using assms by (auto simp: access_ok_def)

lemma access_ok_neq:
  assumes "access_ok A"
  shows "af_READ A \<noteq> af_WRITE A" "af_WRITE A \<noteq> af_READ A" "af_READ A \<noteq> af_EXECUTE A"
    "af_EXECUTE A \<noteq> af_READ A" "af_READ A \<noteq> af_USER A" "af_USER A \<noteq> af_READ A"
    "af_WRITE A \<noteq> af_EXECUTE A" "af_EXECUTE A \<noteq> af_WRITE A" "af_WRITE A \<noteq> af_USER A"
    "af_USER A \<noteq> af_WRITE A" "af_EXECUTE A \<noteq> af_USER A" "af_USER A \<noteq> af_EXECUTE A"
  using assms by (auto simp: access_ok_def access_named_def)

section \<open>A concrete provider\<close>

definition std_ext :: ext_ops where
  "std_ext =
     \<lparr>range_size = (\<lambda>r. wrapping_sub_usize (r_end r) (r_start r)),
      range_new = (\<lambda>a b. if a \<le> b then Some \<lparr>r_start = a, r_end = b\<rparr> else None),
      range_try_from_start_size =
        (\<lambda>a n. map_option (\<lambda>e. \<lparr>r_start = a, r_end = e\<rparr>) (checked_add_usize a n)),
      addr_checked_add = checked_add_usize,
      addr_is_aligned = (\<lambda>a n. a mod n = 0),
      page_bytes = (\<lambda>s. case s of
          Size4K \<Rightarrow> 4096 | Size16K \<Rightarrow> 16384 | Size64K \<Rightarrow> 65536 | Size2M \<Rightarrow> 2097152
        | Size32M \<Rightarrow> 33554432 | Size512M \<Rightarrow> 536870912 | Size1G \<Rightarrow> 1073741824
        | Size64G \<Rightarrow> 68719476736 | Size512G \<Rightarrow> 549755813888 | Size4T \<Rightarrow> 4398046511104
        | OtherSize n \<Rightarrow> n),
      sdt_header_size = 36,
      sdt_signature = (\<lambda>bs. map (\<lambda>b. char_of (unat b)) (take 4 bs)),
      sdt_length = (\<lambda>bs. word_rcat (rev (take 4 (drop 4 bs)))),
      sdt_validate = (\<lambda>bs sig. if sum_list (take (unat (word_rcat (rev (take 4 (drop 4 bs))) :: u32)) bs) = 0
        then None else Some (OtherAcpiError 0))\<rparr>"

lemma std_ext_ok: "ext_ok std_ext"
  by (auto simp: ext_ok_def std_ext_def valid_range_def wrapping_sub_usize_le)

datatype access_bit = READ_bit | WRITE_bit | EXECUTE_bit | USER_bit

definition std_access :: "access_bit set access_ops" where
  "std_access =
     \<lparr>af_empty = {}, af_READ = {READ_bit}, af_WRITE = {WRITE_bit}, af_EXECUTE = {EXECUTE_bit},
      af_USER = {USER_bit}, af_union = (\<union>), af_contains = (\<lambda>f g. g \<subseteq> f), af_is_empty = (\<lambda>f. f = {})\<rparr>"

lemma std_access_ok: "access_ok std_access"
  by (auto simp: access_ok_def std_access_def access_named_def)

end
