(* ===== verification/Pcie.thy ===== *)
theory Pcie
  imports External
begin

text \<open>
  \<open>src/firm/pcie.rs\<close>, first half: PCI requester identifiers (\<open>Bdf\<close>), segment-qualified
  requesters (\<open>PciDevice\<close>) and half-open windows of requester identifiers (\<open>BdfRange\<close>).
\<close>

section \<open>Requester identifiers\<close>

datatype bdf = Bdf (as_u16: u16)

datatype pci_device_error = DeviceOutOfRange | FunctionOutOfRange

definition bdf_new :: "u8 \<Rightarrow> u8 \<Rightarrow> u8 \<Rightarrow> (bdf, pci_device_error) res" where
  "bdf_new bus device function =
     (if 32 \<le> device then Err DeviceOutOfRange
      else if 8 \<le> function then Err FunctionOutOfRange
      else Ok (Bdf (push_bit 8 (ucast bus) OR push_bit 3 (ucast device) OR ucast function)))"

definition as_u32 :: "bdf \<Rightarrow> u32" where
  "as_u32 b = ucast (as_u16 b)"

definition bdf_bus :: "bdf \<Rightarrow> u8" where
  "bdf_bus b = ucast (drop_bit 8 (as_u16 b))"

definition bdf_device :: "bdf \<Rightarrow> u8" where
  "bdf_device b = ucast (drop_bit 3 (as_u16 b) AND 0x1f)"

definition bdf_function :: "bdf \<Rightarrow> u8" where
  "bdf_function b = ucast (as_u16 b AND 0x07)"

definition bdf_checked_add :: "bdf \<Rightarrow> u16 \<Rightarrow> bdf option" where
  "bdf_checked_add b n =
     (if unat (as_u16 b) + unat n < 2 ^ 16 then Some (Bdf (as_u16 b + n)) else None)"

definition bdf_offset_from :: "bdf \<Rightarrow> bdf \<Rightarrow> u16 option" where
  "bdf_offset_from b base = (if as_u16 base \<le> as_u16 b then Some (as_u16 b - as_u16 base) else None)"

instantiation bdf :: linorder
begin

definition less_eq_bdf :: "bdf \<Rightarrow> bdf \<Rightarrow> bool" where
  "less_eq_bdf a b \<longleftrightarrow> as_u16 a \<le> as_u16 b"

definition less_bdf :: "bdf \<Rightarrow> bdf \<Rightarrow> bool" where
  "less_bdf a b \<longleftrightarrow> as_u16 a < as_u16 b"

instance
  by intro_classes (auto simp: less_eq_bdf_def less_bdf_def bdf.expand)

end

section \<open>Segment-qualified requesters\<close>

datatype pci_device = PciDevice (pci_raw: u32)

definition pci_from_segment_bdf :: "u16 \<Rightarrow> bdf \<Rightarrow> pci_device" where
  "pci_from_segment_bdf segment b = PciDevice (push_bit 16 (ucast segment) OR ucast (as_u16 b))"

definition pci_new :: "u16 \<Rightarrow> u8 \<Rightarrow> u8 \<Rightarrow> u8 \<Rightarrow> (pci_device, pci_device_error) res" where
  "pci_new segment bus device function =
     res_bind (bdf_new bus device function) (\<lambda>b. Ok (pci_from_segment_bdf segment b))"

definition pci_bdf :: "pci_device \<Rightarrow> bdf" where
  "pci_bdf p = Bdf (ucast (pci_raw p AND 0xffff))"

definition pci_segment :: "pci_device \<Rightarrow> u16" where
  "pci_segment p = ucast (drop_bit 16 (pci_raw p))"

definition pci_bus :: "pci_device \<Rightarrow> u8" where
  "pci_bus p = ucast (drop_bit 8 (pci_raw p) AND 0xff)"

definition pci_device_number :: "pci_device \<Rightarrow> u8" where
  "pci_device_number p = ucast (drop_bit 3 (pci_raw p) AND 0x1f)"

definition pci_function :: "pci_device \<Rightarrow> u8" where
  "pci_function p = ucast (pci_raw p AND 0x07)"

definition pci_from_addr :: "pci_address \<Rightarrow> (pci_device, pci_device_error) res" where
  "pci_from_addr a = pci_new (pa_segment a) (pa_bus a) (pa_device a) (pa_function a)"

definition pci_as_addr :: "pci_device \<Rightarrow> pci_address" where
  "pci_as_addr p =
     \<lparr>pa_segment = pci_segment p, pa_bus = pci_bus p, pa_device = pci_device_number p,
      pa_function = pci_function p\<rparr>"

section \<open>Encoding lemmas\<close>

lemma bdf_new_Ok_iff: "(\<exists>b. bdf_new bus device function = Ok b) \<longleftrightarrow> device < 32 \<and> function < 8"
  by (auto simp: bdf_new_def not_le)

lemma bdf_new_fields:
  assumes "bdf_new bus device function = Ok b"
  shows "bdf_bus b = bus" and "bdf_device b = device" and "bdf_function b = function"
proof -
  have d: "device < 2 ^ 5" and f: "function < 2 ^ 3"
    and b: "b = Bdf (push_bit 8 (ucast bus) OR push_bit 3 (ucast device) OR ucast function)"
    using assms by (auto simp: bdf_new_def not_le split: if_splits)
  have db: "bit device n \<Longrightarrow> n < 5" and fb: "bit function n \<Longrightarrow> n < 3" for n
    using less_power_bit [OF d, of n] less_power_bit [OF f, of n] by simp_all
  show "bdf_bus b = bus"
    unfolding b bdf_bus_def
    by (rule bit_word_eqI) (auto simp: bit_simps bit_beyond dest: db fb)
  show "bdf_device b = device"
    unfolding b bdf_device_def and_mask_numerals
    by (rule bit_word_eqI) (auto simp: bit_simps bit_beyond dest: db fb)
  show "bdf_function b = function"
    unfolding b bdf_function_def and_mask_numerals
    by (rule bit_word_eqI) (auto simp: bit_simps bit_beyond dest: db fb)
qed

lemma bdf_new_of_fields: "bdf_new (bdf_bus b) (bdf_device b) (bdf_function b) = Ok b"
proof -
  have "bdf_device b < 2 ^ 5"
    unfolding bdf_device_def and_mask_numerals by (rule less_power_bitI) (auto simp: bit_simps)
  moreover have "bdf_function b < 2 ^ 3"
    unfolding bdf_function_def and_mask_numerals by (rule less_power_bitI) (auto simp: bit_simps)
  ultimately have "\<not> 32 \<le> bdf_device b" "\<not> 8 \<le> bdf_function b"
    by (simp_all add: not_le)
  moreover have "push_bit 8 (ucast (bdf_bus b)) OR push_bit 3 (ucast (bdf_device b))
      OR ucast (bdf_function b) = as_u16 b"
    unfolding bdf_bus_def bdf_device_def bdf_function_def and_mask_numerals
  proof (rule bit_word_eqI)
    fix n
    assume "n < LENGTH(16)"
    then show "bit (push_bit 8 (ucast (ucast (drop_bit 8 (as_u16 b)) :: u8)) OR
        push_bit 3 (ucast (ucast (take_bit 5 (drop_bit 3 (as_u16 b))) :: u8)) OR
        ucast (ucast (take_bit 3 (as_u16 b)) :: u8) :: u16) n = bit (as_u16 b) n"
      by (cases "n < 8"; cases "n < 3") (auto simp: bit_simps)
  qed
  ultimately show ?thesis
    by (simp add: bdf_new_def)
qed

lemma pci_bdf_from_segment_bdf [simp]: "pci_bdf (pci_from_segment_bdf s b) = b"
  unfolding pci_bdf_def pci_from_segment_bdf_def and_mask_numerals
  by (cases b) (auto intro!: bit_word_eqI simp: bit_simps bit_beyond)

lemma pci_segment_from_segment_bdf [simp]: "pci_segment (pci_from_segment_bdf s b) = s"
  unfolding pci_segment_def pci_from_segment_bdf_def
  by (auto intro!: bit_word_eqI simp: bit_simps bit_beyond)

lemma pci_from_segment_bdf_of_fields: "pci_from_segment_bdf (pci_segment p) (pci_bdf p) = p"
  unfolding pci_segment_def pci_from_segment_bdf_def pci_bdf_def and_mask_numerals
  by (cases p) (auto intro!: bit_word_eqI simp: bit_simps bit_beyond)

lemma pci_fields_of_bdf:
  "pci_bus p = bdf_bus (pci_bdf p)"
  "pci_device_number p = bdf_device (pci_bdf p)"
  "pci_function p = bdf_function (pci_bdf p)"
  unfolding pci_bus_def bdf_bus_def pci_bdf_def pci_device_number_def bdf_device_def
    pci_function_def bdf_function_def and_mask_numerals
  by (auto intro!: bit_word_eqI simp: bit_simps bit_beyond)

section \<open>Properties\<close>

lemma pci_new_fields:
  assumes "pci_new segment bus device function = Ok p"
  shows "pci_segment p = segment \<and> pci_bus p = bus \<and> pci_device_number p = device \<and> pci_function p = function"
proof -
  obtain b where b: "bdf_new bus device function = Ok b" "p = pci_from_segment_bdf segment b"
    using assms by (auto simp: pci_new_def res_bind_Ok_iff)
  then show ?thesis using bdf_new_fields [OF b(1)] by (simp add: pci_fields_of_bdf)
qed

text \<open>C33. Encoding a requester and reading its fields are inverse: \<open>PciDevice::new\<close> yields \<open>p\<close>
  exactly for the four fields that the accessors read from \<open>p\<close>. So every 32-bit value is the
  encoding of one address, the packed fields do not overlap, and the constructor accepts
  exactly the device numbers below 32 and the functions below 8.\<close>

theorem pci_new_iff_fields:
  "pci_new segment bus device function = Ok p \<longleftrightarrow>
     pci_segment p = segment \<and> pci_bus p = bus \<and> pci_device_number p = device \<and> pci_function p = function"
proof
  assume "pci_new segment bus device function = Ok p"
  then show "pci_segment p = segment \<and> pci_bus p = bus \<and> pci_device_number p = device \<and> pci_function p = function"
    by (rule pci_new_fields)
next
  assume "pci_segment p = segment \<and> pci_bus p = bus \<and> pci_device_number p = device \<and> pci_function p = function"
  then show "pci_new segment bus device function = Ok p"
    using bdf_new_of_fields [of "pci_bdf p"]
    by (auto simp: pci_new_def pci_fields_of_bdf pci_from_segment_bdf_of_fields)
qed

end
