(* ===== verification/Bdf_Range.thy ===== *)
theory Bdf_Range
  imports Pcie
begin

text \<open>
  \<open>BdfRange\<close> of \<open>src/firm/pcie.rs\<close>: a half-open window of requester identifiers. The exclusive
  end is a \<open>u32\<close>, so that the window up to and including \<open>0xffff\<close> is representable.
\<close>

section \<open>Windows\<close>

record bdf_range =
  br_start :: bdf
  br_end :: u32

datatype bdf_range_error = Reversed | OutOfRange

definition br_EMPTY :: bdf_range where
  "br_EMPTY = \<lparr>br_start = Bdf 0, br_end = 0\<rparr>"

definition br_single :: "bdf \<Rightarrow> bdf_range" where
  "br_single b = \<lparr>br_start = b, br_end = as_u32 b + 1\<rparr>"

definition br_inclusive :: "bdf \<Rightarrow> bdf \<Rightarrow> (bdf_range, bdf_range_error) res" where
  "br_inclusive start end' =
     (if as_u16 end' < as_u16 start then Err Reversed
      else Ok \<lparr>br_start = start, br_end = as_u32 end' + 1\<rparr>)"

definition br_is_empty :: "bdf_range \<Rightarrow> bool" where
  "br_is_empty r \<longleftrightarrow> br_end r = as_u32 (br_start r)"

definition br_end_inclusive :: "bdf_range \<Rightarrow> bdf option" where
  "br_end_inclusive r = (if br_is_empty r then None else Some (Bdf (ucast (br_end r - 1))))"

definition br_len :: "bdf_range \<Rightarrow> u32" where
  "br_len r = br_end r - as_u32 (br_start r)"

definition br_contains :: "bdf_range \<Rightarrow> bdf \<Rightarrow> bool" where
  "br_contains r b \<longleftrightarrow> as_u32 (br_start r) \<le> as_u32 b \<and> as_u32 b < br_end r"

definition br_from_bounds :: "u32 \<Rightarrow> u32 \<Rightarrow> (bdf_range, bdf_range_error) res" where
  "br_from_bounds start end_exclusive =
     (if 0xffff < start \<or> 0xffff + 1 < end_exclusive then Err OutOfRange
      else if end_exclusive < start then Err Reversed
      else Ok \<lparr>br_start = Bdf (ucast start), br_end = end_exclusive\<rparr>)"

section \<open>The bounds of a window as numbers\<close>

definition br_lo :: "bdf_range \<Rightarrow> nat" where
  "br_lo r = unat (as_u16 (br_start r))"

definition br_hi :: "bdf_range \<Rightarrow> nat" where
  "br_hi r = unat (br_end r)"

text \<open>
  A well-formed window does not end before it starts and stays in the requester space; every
  constructor of the module produces well-formed windows only.
\<close>

definition br_wf :: "bdf_range \<Rightarrow> bool" where
  "br_wf r \<longleftrightarrow> br_lo r \<le> br_hi r \<and> br_hi r \<le> 65536"

definition br_members :: "bdf_range \<Rightarrow> bdf set" where
  "br_members r = {b. br_contains r b}"

lemma unat_as_u16_bound: "unat (as_u16 b) < 65536"
  using unsigned_less [of "as_u16 b", where ?'a = nat] by simp

lemma unat_as_u32 [simp]: "unat (as_u32 b) = unat (as_u16 b)"
  using unat_as_u16_bound [of b] by (simp add: as_u32_def unat_ucast_mod)

lemma unat_as_u32_Suc: "unat (as_u32 b + 1) = Suc (unat (as_u16 b))"
proof -
  have "unat (as_u32 b) + unat (1 :: u32) < 2 ^ LENGTH(32)"
    using unat_as_u16_bound [of b] by simp
  then show ?thesis by (simp add: unat_word_ariths)
qed

lemma br_lo_bound: "br_lo r < 65536"
  by (simp add: br_lo_def unat_as_u16_bound)

lemma br_range_eqI: "br_lo r = br_lo r' \<Longrightarrow> br_hi r = br_hi r' \<Longrightarrow> r = r'"
  by (cases r; cases r') (auto simp: br_lo_def br_hi_def intro: bdf.expand unat_inject)

lemma br_contains_iff: "br_contains r b \<longleftrightarrow> br_lo r \<le> unat (as_u16 b) \<and> unat (as_u16 b) < br_hi r"
  by (simp add: br_contains_def br_lo_def br_hi_def word_le_nat_alt word_less_nat_alt)

lemma br_is_empty_iff: "br_is_empty r \<longleftrightarrow> br_hi r = br_lo r"
  by (simp add: br_is_empty_def br_lo_def br_hi_def word_unat_eq_iff)

lemma br_single_bounds [simp]:
  "br_lo (br_single b) = unat (as_u16 b)" "br_hi (br_single b) = Suc (unat (as_u16 b))"
  by (simp_all add: br_single_def br_lo_def br_hi_def unat_as_u32_Suc)

lemma br_single_wf [simp]: "br_wf (br_single b)" and br_single_not_empty [simp]: "\<not> br_is_empty (br_single b)"
  using unat_as_u16_bound [of b] by (simp_all add: br_wf_def br_is_empty_iff)

lemma br_members_single [simp]: "br_members (br_single b) = {b}"
  by (auto simp: br_members_def br_contains_iff less_Suc_eq_le word_unat_eq_iff bdf.expand
      intro: bdf.expand)

lemma br_EMPTY_bounds [simp]: "br_lo br_EMPTY = 0" "br_hi br_EMPTY = 0"
  by (simp_all add: br_EMPTY_def br_lo_def br_hi_def)

lemma br_inclusive_Ok_iff:
  "br_inclusive s e = Ok r \<longleftrightarrow>
     unat (as_u16 s) \<le> unat (as_u16 e) \<and> br_lo r = unat (as_u16 s) \<and> br_hi r = Suc (unat (as_u16 e))"
proof -
  have "br_inclusive s e = Ok r \<longleftrightarrow>
     unat (as_u16 s) \<le> unat (as_u16 e) \<and> r = \<lparr>br_start = s, br_end = as_u32 e + 1\<rparr>"
    by (auto simp: br_inclusive_def word_less_nat_alt)
  also have "r = \<lparr>br_start = s, br_end = as_u32 e + 1\<rparr> \<longleftrightarrow>
      br_lo r = unat (as_u16 s) \<and> br_hi r = Suc (unat (as_u16 e))"
    using br_range_eqI [of r "\<lparr>br_start = s, br_end = as_u32 e + 1\<rparr>"]
    by (auto simp: br_lo_def br_hi_def unat_as_u32_Suc)
  finally show ?thesis .
qed

lemma br_inclusive_wf: "br_inclusive s e = Ok r \<Longrightarrow> br_wf r \<and> \<not> br_is_empty r"
  using unat_as_u16_bound [of e] by (auto simp: br_inclusive_Ok_iff br_wf_def br_is_empty_iff)

lemma br_from_bounds_Ok:
  assumes "unat s \<le> unat e" and "unat s < 65536" and "unat e \<le> 65536"
  obtains r where "br_from_bounds s e = Ok r" and "br_lo r = unat s" and "br_hi r = unat e"
proof -
  have "unat (ucast s :: u16) = unat s"
    using assms(2) by (simp add: unat_ucast_mod)
  moreover have "\<not> (0xffff < s \<or> 0xffff + 1 < e)" "\<not> e < s"
    using assms by (auto simp: word_less_nat_alt)
  ultimately show thesis
    by (intro that [of "\<lparr>br_start = Bdf (ucast s), br_end = e\<rparr>"])
      (simp_all add: br_from_bounds_def br_lo_def br_hi_def)
qed

lemma br_len_wf: "br_wf r \<Longrightarrow> unat (br_len r) = br_hi r - br_lo r"
  by (simp add: br_wf_def br_len_def br_lo_def br_hi_def unat_sub word_le_nat_alt)

lemma br_end_inclusive_wf:
  assumes "br_wf r"
  shows "br_end_inclusive r = Some b \<Longrightarrow> br_inclusive (br_start r) b = Ok r"
proof -
  assume b: "br_end_inclusive r = Some b"
  then have ne: "br_hi r \<noteq> br_lo r" and bv: "b = Bdf (ucast (br_end r - 1))"
    by (auto simp: br_end_inclusive_def br_is_empty_iff split: if_splits)
  have lt: "br_lo r < br_hi r" and le: "br_hi r \<le> 65536"
    using assms ne by (auto simp: br_wf_def)
  have "1 \<le> br_end r" using lt by (simp add: br_hi_def word_le_nat_alt)
  then have "unat (br_end r - 1) = br_hi r - 1"
    by (simp add: br_hi_def unat_sub)
  then have "unat (as_u16 b) = br_hi r - 1"
    using le by (simp add: bv unat_ucast_mod)
  then show ?thesis
    using lt by (simp add: br_inclusive_Ok_iff br_lo_def)
qed

end
