(* ===== verification/Interfaces.thy ===== *)
theory Interfaces
  imports Prelude
begin

text \<open>
  The contracts between components. A locale fixes the operations a client calls and assumes
  the laws their provider promises; the client's lemmas are proved once inside it. Every locale
  is interpreted on the model's own definitions, in the theory of the provider.
\<close>

section \<open>Folding a fallible operation over a list\<close>

fun res_fold :: "('s \<Rightarrow> 'a \<Rightarrow> ('s, 'e) res) \<Rightarrow> 's \<Rightarrow> 'a list \<Rightarrow> ('s, 'e) res" where
  "res_fold f s [] = Ok s"
| "res_fold f s (x # xs) = res_bind (f s x) (\<lambda>s'. res_fold f s' xs)"

lemma res_fold_append:
  "res_fold f s (xs @ ys) = res_bind (res_fold f s xs) (\<lambda>s'. res_fold f s' ys)"
  by (induction xs arbitrary: s) (simp_all add: res_bind_assoc)

lemma res_fold_invariant:
  assumes step: "\<And>s x s'. P s \<Longrightarrow> x \<in> set xs \<Longrightarrow> f s x = Ok s' \<Longrightarrow> P s'"
    and "P s" and "res_fold f s xs = Ok s'"
  shows "P s'"
  using assms
proof (induction xs arbitrary: s)
  case (Cons x xs)
  obtain t where t: "f s x = Ok t" "res_fold f t xs = Ok s'"
    using Cons.prems(3) by (auto simp: res_bind_Ok_iff)
  have "P t" by (rule Cons.prems(1) [OF Cons.prems(2) _ t(1)]) simp
  then show ?case
    using Cons.IH [OF _ _ t(2)] Cons.prems(1) by (metis list.set_intros(2))
qed simp

section \<open>A set of requesters filled by insertion\<close>

text \<open>
  What the firmware-table parsers rely on when they collect requesters: insertion keeps the
  invariant, adds exactly the requesters of the inserted window and never panics.
\<close>

locale requester_set =
  fixes insert_op :: "'s \<Rightarrow> 'r \<Rightarrow> ('s, 'e) res"
    and members :: "'s \<Rightarrow> 'd set"
    and inv :: "'s \<Rightarrow> bool"
    and span :: "'r \<Rightarrow> 'd set"
    and wf :: "'r \<Rightarrow> bool"
  assumes insert_inv: "inv s \<Longrightarrow> wf r \<Longrightarrow> insert_op s r = Ok s' \<Longrightarrow> inv s'"
    and insert_members: "inv s \<Longrightarrow> wf r \<Longrightarrow> insert_op s r = Ok s' \<Longrightarrow> members s' = members s \<union> span r"
    and insert_no_panic: "inv s \<Longrightarrow> wf r \<Longrightarrow> insert_op s r \<noteq> Panic"
begin

lemma fold_inv:
  assumes "inv s" and "\<forall>r \<in> set rs. wf r" and "res_fold insert_op s rs = Ok s'"
  shows "inv s'"
proof (rule res_fold_invariant [where P = inv, OF _ assms(1) assms(3)])
  fix s r s'
  assume "inv s" and "r \<in> set rs" and "insert_op s r = Ok s'"
  then show "inv s'" using assms(2) insert_inv by blast
qed

lemma fold_members:
  assumes "inv s" and "\<forall>r \<in> set rs. wf r" and "res_fold insert_op s rs = Ok s'"
  shows "members s' = members s \<union> (\<Union>r \<in> set rs. span r)"
  using assms
proof (induction rs arbitrary: s)
  case (Cons r rs)
  then obtain t where t: "insert_op s r = Ok t" "res_fold insert_op t rs = Ok s'"
    by (auto simp: res_bind_Ok_iff)
  have "inv t" using Cons.prems t by (auto intro: insert_inv)
  then have "members s' = members t \<union> (\<Union>r \<in> set rs. span r)"
    using Cons.IH t Cons.prems by auto
  moreover have "members t = members s \<union> span r"
    using Cons.prems t by (auto dest: insert_members)
  ultimately show ?case by auto
qed simp

lemma fold_no_panic:
  assumes "inv s" and "\<forall>r \<in> set rs. wf r"
  shows "res_fold insert_op s rs \<noteq> Panic"
  using assms
proof (induction rs arbitrary: s)
  case (Cons r rs)
  then show ?case
    using insert_no_panic [of s r] by (auto simp: res_bind_Panic_iff intro: insert_inv)
qed simp

end

section \<open>A table of fixed-width slots in memory\<close>

text \<open>
  What the hardware tables and the command ring rely on when they address an entry: entry \<open>i\<close> of
  an admissible table starts \<open>i\<close> widths after the base, and all entries fit the mapped range.
\<close>

locale slot_table =
  fixes entry_addr :: "'t \<Rightarrow> usize \<Rightarrow> (usize, 'e) res"
    and base :: "'t \<Rightarrow> usize"
    and limit :: "'t \<Rightarrow> usize"
    and count :: "'t \<Rightarrow> usize"
    and width :: "'t \<Rightarrow> usize"
    and ok :: "'t \<Rightarrow> bool"
  assumes entry_addr_Ok: "ok t \<Longrightarrow> i < count t \<Longrightarrow> entry_addr t i = Ok (base t + i * width t)"
    and fits: "ok t \<Longrightarrow> base t + count t * width t \<le> limit t"
begin

definition cells :: "'t \<Rightarrow> usize \<Rightarrow> usize set" where
  "cells t i = {base t + i * width t ..< base t + i * width t + width t}"

lemma cells_in_range:
  assumes "ok t" and "i < count t"
  shows "cells t i \<subseteq> {base t ..< limit t}"
proof -
  have "Suc i * width t \<le> count t * width t"
    using assms(2) by (intro mult_right_mono) simp_all
  then show ?thesis using fits [OF assms(1)] by (auto simp: cells_def)
qed

lemma cells_disjoint:
  assumes "i \<noteq> j"
  shows "cells t i \<inter> cells t j = {}"
proof -
  have "cells t i \<inter> cells t j = {}" if "i < j" for i j
  proof -
    have "Suc i * width t \<le> j * width t"
      using that by (intro mult_right_mono) simp_all
    then show ?thesis by (auto simp: cells_def)
  qed
  from this [of i j] this [of j i] show ?thesis using assms by (cases "i < j") auto
qed

end

end
