(* ===== verification/Bdf_Range_Set.thy ===== *)
theory Bdf_Range_Set
  imports Bdf_Range Interfaces
begin

text \<open>
  \<open>BdfRangeSet\<close> of \<open>src/firm/pcie.rs\<close>: a fixed-capacity array of windows kept sorted, disjoint
  and non-adjacent. The loops of the source are recursive functions over the array and its
  counter; an error carries the set as the operation leaves it, since the caller holds it by
  reference.
\<close>

section \<open>The data structure and its operations\<close>

record bdf_range_set =
  windows :: "bdf_range list"
  ws_count :: usize

datatype bdf_range_set_error = Full | Overflow | InvalidRange bdf_range_error

type_synonym 'a set_res = "('a, bdf_range_set_error \<times> bdf_range_set) res"

definition rs_empty :: "nat \<Rightarrow> bdf_range_set" where
  "rs_empty n = \<lparr>windows = replicate n br_EMPTY, ws_count = 0\<rparr>"

definition rs_len :: "bdf_range_set \<Rightarrow> usize" where
  "rs_len s = ws_count s"

definition rs_is_empty :: "bdf_range_set \<Rightarrow> bool" where
  "rs_is_empty s \<longleftrightarrow> ws_count s = 0"

definition rs_as_slice :: "bdf_range_set \<Rightarrow> (bdf_range list, 'e) res" where
  "rs_as_slice s = slice (windows s) 0 (ws_count s)"

function remove_shift :: "bdf_range list \<Rightarrow> usize \<Rightarrow> usize \<Rightarrow> bdf_range list set_res" where
  "remove_shift w count cursor =
     (if cursor + 1 < count then
        res_bind (arr_get w (cursor + 1)) (\<lambda>x.
        res_bind (arr_set w cursor x) (\<lambda>w'. remove_shift w' count (cursor + 1)))
      else Ok w)"
  by pat_completeness auto
termination
  by (relation "measure (\<lambda>(w, count, cursor). count - cursor)") auto

declare remove_shift.simps [simp del]

definition rs_remove :: "bdf_range_set \<Rightarrow> usize \<Rightarrow> bdf_range_set set_res" where
  "rs_remove s index =
     res_bind (remove_shift (windows s) (ws_count s) index) (\<lambda>w.
     if ws_count s = 0 then Panic
     else res_bind (arr_set w (ws_count s - 1) br_EMPTY) (\<lambda>w'.
       Ok \<lparr>windows = w', ws_count = ws_count s - 1\<rparr>))"

definition merge_pair :: "bdf_range_set \<Rightarrow> usize \<Rightarrow> usize \<Rightarrow> (bool \<times> bdf_range_set) set_res" where
  "merge_pair s left right =
     res_bind (arr_get (windows s) left) (\<lambda>left_range.
     res_bind (arr_get (windows s) right) (\<lambda>right_range.
     if br_end left_range < as_u32 (br_start right_range) then Ok (False, s)
     else
       res_bind (res_map_err (\<lambda>e. (InvalidRange e, s))
         (br_from_bounds (as_u32 (br_start left_range))
           (max (br_end left_range) (br_end right_range)))) (\<lambda>merged.
       res_bind (arr_set (windows s) left merged) (\<lambda>w.
       res_bind (rs_remove (s\<lparr>windows := w\<rparr>) right) (\<lambda>s'. Ok (True, s'))))))"

fun merge_down :: "bdf_range_set \<Rightarrow> usize \<Rightarrow> (usize \<times> bdf_range_set) set_res" where
  "merge_down s 0 = Ok (0, s)"
| "merge_down s (Suc index) =
     res_bind (merge_pair s index (Suc index)) (\<lambda>(merged, s').
     if merged then merge_down s' index else Ok (Suc index, s'))"

lemma rs_remove_count: "rs_remove s index = Ok s' \<Longrightarrow> ws_count s' < ws_count s"
  by (auto simp: rs_remove_def res_bind_Ok_iff split: if_split_asm)

lemma merge_pair_count: "merge_pair s left right = Ok p \<Longrightarrow> fst p \<Longrightarrow> ws_count (snd p) < ws_count s"
  by (fastforce simp: merge_pair_def res_bind_Ok_iff split: if_split_asm dest: rs_remove_count)

function merge_up :: "bdf_range_set \<Rightarrow> usize \<Rightarrow> bdf_range_set set_res" where
  "merge_up s index =
     (if index + 1 < ws_count s then
        res_bind (merge_pair s index (index + 1)) (\<lambda>p.
        if fst p then merge_up (snd p) index else Ok (snd p))
      else Ok s)"
  by pat_completeness auto
termination
  by (relation "measure (\<lambda>(s, index). ws_count s)") (simp_all add: merge_pair_count)

declare merge_up.simps [simp del]

definition merge_around :: "bdf_range_set \<Rightarrow> usize \<Rightarrow> bdf_range_set set_res" where
  "merge_around s index = res_bind (merge_down s index) (\<lambda>(index', s'). merge_up s' index')"

function insert_shift :: "bdf_range list \<Rightarrow> usize \<Rightarrow> usize \<Rightarrow> bdf_range list set_res" where
  "insert_shift w cursor index =
     (if index < cursor then
        res_bind (arr_get w (cursor - 1)) (\<lambda>x.
        res_bind (arr_set w cursor x) (\<lambda>w'. insert_shift w' (cursor - 1) index))
      else Ok w)"
  by pat_completeness auto
termination
  by (relation "measure (\<lambda>(w, cursor, index). cursor)") auto

declare insert_shift.simps [simp del]

definition insert_at :: "bdf_range_set \<Rightarrow> usize \<Rightarrow> bdf_range \<Rightarrow> bdf_range_set set_res" where
  "insert_at s index rng =
     (if ws_count s = length (windows s) then Err (Full, s)
      else
        res_bind (insert_shift (windows s) (ws_count s) index) (\<lambda>w.
        res_bind (arr_set w index rng) (\<lambda>w'.
        merge_around \<lparr>windows = w', ws_count = ws_count s + 1\<rparr> index)))"

function insert_from :: "bdf_range_set \<Rightarrow> bdf_range \<Rightarrow> usize \<Rightarrow> bdf_range_set set_res" where
  "insert_from s rng index =
     (if index < ws_count s then
        res_bind (arr_get (windows s) index) (\<lambda>current.
        if as_u32 (br_start current) \<le> as_u32 (br_start rng) \<and> br_end rng \<le> br_end current
        then Ok s
        else if as_u32 (br_start rng) \<le> br_end current \<and> as_u32 (br_start current) \<le> br_end rng
        then
          res_bind (res_map_err (\<lambda>e. (InvalidRange e, s))
            (br_from_bounds (min (as_u32 (br_start current)) (as_u32 (br_start rng)))
              (max (br_end current) (br_end rng)))) (\<lambda>merged.
          res_bind (arr_set (windows s) index merged) (\<lambda>w.
          merge_around (s\<lparr>windows := w\<rparr>) index))
        else if as_u32 (br_start rng) < as_u32 (br_start current) then insert_at s index rng
        else insert_from s rng (index + 1))
      else insert_at s (ws_count s) rng)"
  by pat_completeness auto
termination
  by (relation "measure (\<lambda>(s, rng, index). ws_count s - index)") auto

declare insert_from.simps [simp del]

definition rs_insert :: "bdf_range_set \<Rightarrow> bdf_range \<Rightarrow> bdf_range_set set_res" where
  "rs_insert s rng = (if br_is_empty rng then Ok s else insert_from s rng 0)"

definition rs_insert_single :: "bdf_range_set \<Rightarrow> bdf \<Rightarrow> bdf_range_set set_res" where
  "rs_insert_single s b = rs_insert s (br_single b)"

section \<open>Abstraction and invariant\<close>

text \<open>The active windows, and the requesters they cover.\<close>

definition active :: "bdf_range_set \<Rightarrow> bdf_range list" where
  "active s = take (ws_count s) (windows s)"

definition br_span :: "bdf_range \<Rightarrow> nat set" where
  "br_span r = {br_lo r..<br_hi r}"

definition ids :: "bdf_range list \<Rightarrow> nat set" where
  "ids rs = (\<Union>r \<in> set rs. br_span r)"

definition rs_members :: "bdf_range_set \<Rightarrow> bdf set" where
  "rs_members s = {b. \<exists>r \<in> set (active s). br_contains r b}"

text \<open>Sorted, disjoint and separated by at least one identifier; no window is empty.\<close>

definition canonical :: "bdf_range list \<Rightarrow> bool" where
  "canonical rs \<longleftrightarrow>
     sorted_wrt (\<lambda>a b. br_hi a < br_lo b) rs \<and> (\<forall>r \<in> set rs. br_wf r \<and> br_lo r < br_hi r)"

definition rs_inv :: "bdf_range_set \<Rightarrow> bool" where
  "rs_inv s \<longleftrightarrow> ws_count s \<le> length (windows s) \<and> canonical (active s)"

lemma rs_members_iff: "b \<in> rs_members s \<longleftrightarrow> unat (as_u16 b) \<in> ids (active s)"
  by (auto simp: rs_members_def ids_def br_span_def br_contains_iff)

lemma ids_simps [simp]:
  "ids [] = {}" "ids (r # rs) = br_span r \<union> ids rs" "ids (rs @ rs') = ids rs \<union> ids rs'"
  by (auto simp: ids_def)

lemma canonical_Nil [simp]: "canonical []"
  by (simp add: canonical_def)

lemma canonical_Cons:
  "canonical (r # rs) \<longleftrightarrow>
     br_wf r \<and> br_lo r < br_hi r \<and> (\<forall>r' \<in> set rs. br_hi r < br_lo r') \<and> canonical rs"
  by (auto simp: canonical_def)

lemma canonical_append:
  "canonical (xs @ ys) \<longleftrightarrow>
     canonical xs \<and> canonical ys \<and> (\<forall>x \<in> set xs. \<forall>y \<in> set ys. br_hi x < br_lo y)"
  by (auto simp: canonical_def sorted_wrt_append)

lemma rs_inv_empty [simp]: "rs_inv (rs_empty n)" and rs_members_empty [simp]: "rs_members (rs_empty n) = {}"
  by (simp_all add: rs_inv_def rs_empty_def active_def rs_members_def)

lemma length_active: "rs_inv s \<Longrightarrow> length (active s) = ws_count s"
  by (simp add: rs_inv_def active_def)

lemma rs_as_slice_active: "rs_inv s \<Longrightarrow> rs_as_slice s = Ok (active s)"
  by (simp add: rs_as_slice_def slice_def rs_inv_def active_def)

lemma rs_is_empty_iff: "rs_inv s \<Longrightarrow> rs_is_empty s \<longleftrightarrow> rs_members s = {}"
proof -
  assume inv: "rs_inv s"
  have "active s = []" if "rs_members s = {}"
  proof (rule ccontr)
    assume "active s \<noteq> []"
    then obtain r where r: "r \<in> set (active s)" by (cases "active s") auto
    then have lt: "br_lo r < br_hi r" using inv by (auto simp: rs_inv_def canonical_def)
    then have "br_contains r (br_start r)" by (simp add: br_contains_iff) (simp add: br_lo_def)
    with r that show False by (auto simp: rs_members_def)
  qed
  with inv show ?thesis
    using length_active [OF inv] by (auto simp: rs_is_empty_def rs_members_def active_def)
qed

section \<open>The array loops as list operations\<close>

lemma insert_shift_Ok:
  "index \<le> cursor \<Longrightarrow> cursor < length w \<Longrightarrow>
     \<exists>w'. insert_shift w cursor index = Ok w' \<and> length w' = length w \<and>
       (\<forall>i < length w. w' ! i = (if index < i \<and> i \<le> cursor then w ! (i - 1) else w ! i))"
proof (induction w cursor index rule: insert_shift.induct)
  case (1 w cursor index)
  show ?case
  proof (cases "index < cursor")
    case True
    let ?w = "w[cursor := w ! (cursor - 1)]"
    have "\<exists>w'. insert_shift ?w (cursor - 1) index = Ok w' \<and> length w' = length ?w \<and>
       (\<forall>i < length ?w. w' ! i = (if index < i \<and> i \<le> cursor - 1 then ?w ! (i - 1) else ?w ! i))"
      using "1.IH" [OF True, of "w ! (cursor - 1)" ?w] "1.prems" True by simp
    then obtain w' where w': "insert_shift ?w (cursor - 1) index = Ok w'" "length w' = length w"
      and nth: "\<forall>i < length w. w' ! i = (if index < i \<and> i \<le> cursor - 1 then ?w ! (i - 1) else ?w ! i)"
      by auto
    have "insert_shift w cursor index = Ok w'"
      using True "1.prems" w' by (subst insert_shift.simps) simp
    moreover have "\<forall>i < length w. w' ! i = (if index < i \<and> i \<le> cursor then w ! (i - 1) else w ! i)"
      using nth True "1.prems" by (auto simp: nth_list_update)
    ultimately show ?thesis using w' by blast
  next
    case False
    then show ?thesis using "1.prems" by (subst insert_shift.simps) auto
  qed
qed

lemma remove_shift_Ok:
  "count \<le> length w \<Longrightarrow>
     \<exists>w'. remove_shift w count cursor = Ok w' \<and> length w' = length w \<and>
       (\<forall>i < length w. w' ! i = (if cursor \<le> i \<and> i + 1 < count then w ! (i + 1) else w ! i))"
proof (induction w count cursor rule: remove_shift.induct)
  case (1 w count cursor)
  show ?case
  proof (cases "cursor + 1 < count")
    case True
    let ?w = "w[cursor := w ! (cursor + 1)]"
    have "\<exists>w'. remove_shift ?w count (cursor + 1) = Ok w' \<and> length w' = length ?w \<and>
       (\<forall>i < length ?w. w' ! i = (if cursor + 1 \<le> i \<and> i + 1 < count then ?w ! (i + 1) else ?w ! i))"
      using "1.IH" [OF True, of "w ! (cursor + 1)" ?w] "1.prems" True by simp
    then obtain w' where w': "remove_shift ?w count (cursor + 1) = Ok w'" "length w' = length w"
      and nth: "\<forall>i < length w. w' ! i =
        (if cursor + 1 \<le> i \<and> i + 1 < count then ?w ! (i + 1) else ?w ! i)"
      by auto
    have "remove_shift w count cursor = Ok w'"
      using True "1.prems" w' by (subst remove_shift.simps) simp
    moreover have "\<forall>i < length w. w' ! i = (if cursor \<le> i \<and> i + 1 < count then w ! (i + 1) else w ! i)"
      using nth True "1.prems" by (auto simp: nth_list_update)
    ultimately show ?thesis using w' by blast
  next
    case False
    then show ?thesis using "1.prems" by (subst remove_shift.simps) auto
  qed
qed

text \<open>\<open>set_like s s'\<close>: the same array length, and a counter within it.\<close>

definition same_store :: "bdf_range_set \<Rightarrow> bdf_range_set \<Rightarrow> bool" where
  "same_store s s' \<longleftrightarrow> length (windows s') = length (windows s) \<and> ws_count s' \<le> length (windows s')"

lemma same_store_trans: "same_store s s' \<Longrightarrow> same_store s' s'' \<Longrightarrow> same_store s s''"
  by (simp add: same_store_def)

lemma rs_remove_active:
  assumes cnt: "ws_count s \<le> length (windows s)" and act: "active s = xs @ x # ys"
    and idx: "index = length xs"
  shows "\<exists>s'. rs_remove s index = Ok s' \<and> active s' = xs @ ys \<and> same_store s s'"
proof -
  let ?n = "ws_count s" and ?w = "windows s"
  have n: "?n = length xs + Suc (length ys)"
    using arg_cong [OF act, of length] cnt by (simp add: active_def)
  obtain w where w: "remove_shift ?w ?n index = Ok w" "length w = length ?w"
    and nth: "\<forall>i < length ?w. w ! i = (if index \<le> i \<and> i + 1 < ?n then ?w ! (i + 1) else ?w ! i)"
    using remove_shift_Ok [OF cnt, of index] by blast
  let ?s = "\<lparr>windows = w[?n - 1 := br_EMPTY], ws_count = ?n - 1\<rparr>"
  have at: "?w ! i = (xs @ x # ys) ! i" if "i < ?n" for i
    using act that by (metis active_def nth_take)
  have "rs_remove s index = Ok ?s"
    using w n cnt by (simp add: rs_remove_def)
  moreover have "active ?s = xs @ ys"
  proof (rule nth_equalityI)
    show "length (active ?s) = length (xs @ ys)"
      using w n cnt by (simp add: active_def)
  next
    fix i
    assume "i < length (active ?s)"
    then have i: "i < length xs + length ys" using w n cnt by (simp add: active_def)
    then have "active ?s ! i = (if index \<le> i then ?w ! (i + 1) else ?w ! i)"
      using n cnt nth by (auto simp: active_def)
    also have "\<dots> = (xs @ ys) ! i"
      using i n at [of i] at [of "i + 1"] idx by (auto simp: nth_append Suc_diff_le)
    finally show "active ?s ! i = (xs @ ys) ! i" .
  qed
  ultimately show ?thesis using w n cnt by (auto simp: same_store_def)
qed

lemma active_update:
  assumes "active s = xs @ x # ys" and "ws_count s \<le> length (windows s)"
  shows "length xs < length (windows s)"
    and "windows s ! length xs = x"
    and "active (s\<lparr>windows := (windows s)[length xs := y]\<rparr>) = xs @ y # ys"
proof -
  have n: "ws_count s = length xs + Suc (length ys)"
    using arg_cong [OF assms(1), of length] assms(2) by (simp add: active_def)
  then show "length xs < length (windows s)" using assms(2) by simp
  have "active s ! length xs = x" using assms(1) by simp
  then show "windows s ! length xs = x" using n by (simp add: active_def)
  show "active (s\<lparr>windows := (windows s)[length xs := y]\<rparr>) = xs @ y # ys"
    using assms(1) by (simp add: active_def take_update_swap)
qed

text \<open>One merge step: nothing across a gap, otherwise the union of two neighbours.\<close>

lemma merge_pair_gap:
  assumes "ws_count s \<le> length (windows s)" and "active s = xs @ l # r # ys" and "br_hi l < br_lo r"
  shows "merge_pair s (length xs) (Suc (length xs)) = Ok (False, s)"
proof -
  have l: "length xs < length (windows s)" "windows s ! length xs = l"
    using active_update(1,2) [OF assms(2,1)] by simp_all
  have r: "Suc (length xs) < length (windows s)" "windows s ! Suc (length xs) = r"
    using active_update(1,2) [of s "xs @ [l]" r ys] assms(1,2) by simp_all
  have "br_end l < as_u32 (br_start r)"
    using assms(3) by (simp add: br_hi_def br_lo_def word_less_nat_alt)
  with l r show ?thesis by (simp add: merge_pair_def)
qed

lemma merge_pair_join:
  assumes cnt: "ws_count s \<le> length (windows s)" and act: "active s = xs @ l # r # ys"
    and touch: "br_lo r \<le> br_hi l" and wf: "br_wf l" "br_wf r"
  shows "\<exists>m s'. merge_pair s (length xs) (Suc (length xs)) = Ok (True, s') \<and>
    active s' = xs @ m # ys \<and> same_store s s' \<and> br_lo m = br_lo l \<and> br_hi m = max (br_hi l) (br_hi r)"
proof -
  have l: "length xs < length (windows s)" "windows s ! length xs = l"
    using active_update(1,2) [OF act cnt] by simp_all
  have r: "Suc (length xs) < length (windows s)" "windows s ! Suc (length xs) = r"
    using active_update(1,2) [of s "xs @ [l]" r ys] cnt act by simp_all
  have hi: "unat (max (br_end l) (br_end r)) = max (br_hi l) (br_hi r)"
    by (auto simp: br_hi_def max_def word_le_nat_alt)
  have "unat (as_u32 (br_start l)) = br_lo l" by (simp add: br_lo_def)
  moreover have "br_lo l \<le> max (br_hi l) (br_hi r)" "br_lo l < 65536" "max (br_hi l) (br_hi r) \<le> 65536"
    using wf br_lo_bound [of l] by (auto simp: br_wf_def)
  ultimately obtain m where m: "br_from_bounds (as_u32 (br_start l)) (max (br_end l) (br_end r)) = Ok m"
      "br_lo m = br_lo l" "br_hi m = max (br_hi l) (br_hi r)"
    using br_from_bounds_Ok [of "as_u32 (br_start l)" "max (br_end l) (br_end r)"] by (metis hi)
  let ?s = "s\<lparr>windows := (windows s)[length xs := m]\<rparr>"
  have "active ?s = (xs @ [m]) @ r # ys"
    using active_update(3) [OF act cnt] by simp
  then obtain s' where s': "rs_remove ?s (Suc (length xs)) = Ok s'" "active s' = xs @ m # ys"
      "same_store ?s s'"
    using rs_remove_active [of ?s "xs @ [m]" r ys "Suc (length xs)"] cnt by auto
  have "\<not> br_end l < as_u32 (br_start r)"
    using touch by (simp add: br_hi_def br_lo_def word_less_nat_alt)
  then have "merge_pair s (length xs) (Suc (length xs)) = Ok (True, s')"
    using l r m s'(1) by (simp add: merge_pair_def)
  with s' m show ?thesis by (auto simp: same_store_def)
qed

lemma br_span_join:
  "br_lo m = br_lo l \<Longrightarrow> br_hi m = max (br_hi l) (br_hi r) \<Longrightarrow> br_lo l \<le> br_lo r \<Longrightarrow> br_lo r \<le> br_hi l
   \<Longrightarrow> br_span m = br_span l \<union> br_span r"
  by (auto simp: br_span_def)

lemma active_Cons_index:
  assumes "ws_count s \<le> length (windows s)" and "active s = xs @ m # ys"
  shows "Suc (length xs) < ws_count s \<longleftrightarrow> ys \<noteq> []"
  using arg_cong [OF assms(2), of length] assms(1) by (cases ys) (simp_all add: active_def)

lemma merge_up_Ok:
  assumes "ws_count s \<le> length (windows s)" and "active s = xs @ m # ys"
    and "canonical (xs @ [m])" and "canonical ys"
    and "\<forall>x \<in> set xs. \<forall>y \<in> set ys. br_hi x < br_lo y" and "\<forall>y \<in> set ys. br_lo m \<le> br_lo y"
  shows "\<exists>s'. merge_up s (length xs) = Ok s' \<and> canonical (active s') \<and>
    ids (active s') = ids (active s) \<and> same_store s s'"
  using assms
proof (induction ys arbitrary: s m)
  case Nil
  then have "merge_up s (length xs) = Ok s"
    using active_Cons_index [of s xs m "[]"] by (subst merge_up.simps) simp
  then show ?case using Nil.prems by (simp add: same_store_def)
next
  case (Cons y ys)
  have more: "length xs + 1 < ws_count s"
    using active_Cons_index [OF Cons.prems(1,2)] by simp
  have y: "br_wf y" "br_lo y < br_hi y" "canonical ys" "\<forall>z \<in> set ys. br_hi y < br_lo z"
    using Cons.prems(4) by (simp_all add: canonical_Cons)
  have m: "br_wf m" "br_lo m < br_hi m" "canonical xs" "\<forall>x \<in> set xs. br_hi x < br_lo m"
    using Cons.prems(3) by (auto simp: canonical_Cons canonical_append)
  show ?case
  proof (cases "br_hi m < br_lo y")
    case True
    have "merge_up s (length xs) = Ok s"
      using more merge_pair_gap [OF Cons.prems(1,2) True] by (subst merge_up.simps) simp
    moreover have "canonical (active s)"
      using Cons.prems True m y by (fastforce simp: canonical_append canonical_Cons)
    ultimately show ?thesis using Cons.prems(1) by (simp add: same_store_def)
  next
    case False
    then obtain m' s' where s': "merge_pair s (length xs) (Suc (length xs)) = Ok (True, s')"
        "active s' = xs @ m' # ys" "same_store s s'"
      and m': "br_lo m' = br_lo m" "br_hi m' = max (br_hi m) (br_hi y)"
      using merge_pair_join [OF Cons.prems(1,2) _ m(1) y(1)] by (auto simp: not_less)
    have "br_wf m'" using m' m(1) y(1) by (auto simp: br_wf_def)
    then have "canonical (xs @ [m'])"
      using m m' by (auto simp: canonical_append canonical_Cons)
    then obtain s'' where s'': "merge_up s' (length xs) = Ok s''" "canonical (active s'')"
        "ids (active s'') = ids (active s')" "same_store s' s''"
      using Cons.IH [of s' m'] s' Cons.prems(5,6) m'(1) y(3) by (auto simp: same_store_def)
    have "merge_up s (length xs) = Ok s''"
      using more s' s'' by (subst merge_up.simps) simp
    moreover have "ids (active s') = ids (active s)"
      using s'(2) Cons.prems(2,6) br_span_join [OF m'] False by (auto simp: not_less)
    ultimately show ?thesis using s'' s'(3) same_store_trans by metis
  qed
qed

lemma merge_down_gap:
  assumes "ws_count s \<le> length (windows s)" and "active s = xs @ m # ys"
    and "\<forall>x \<in> set xs. br_hi x < br_lo m"
  shows "merge_down s (length xs) = Ok (length xs, s)"
proof (cases xs rule: rev_cases)
  case (snoc xs' x)
  then have "merge_pair s (length xs') (Suc (length xs')) = Ok (False, s)"
    using merge_pair_gap [of s xs' x m ys] assms by simp
  then show ?thesis using snoc by simp
qed simp

text \<open>
  \<open>merge_around\<close> restores the canonical form around a window that was placed in order on its
  left and may reach over its right neighbours, and covers the same identifiers.
\<close>

lemma merge_around_Ok:
  assumes "ws_count s \<le> length (windows s)" and "active s = xs @ m # ys"
    and "canonical (xs @ [m])" and "canonical ys"
    and "\<forall>x \<in> set xs. \<forall>y \<in> set ys. br_hi x < br_lo y" and "\<forall>y \<in> set ys. br_lo m \<le> br_lo y"
  shows "\<exists>s'. merge_around s (length xs) = Ok s' \<and> canonical (active s') \<and>
    ids (active s') = ids (active s) \<and> same_store s s'"
proof -
  have "merge_down s (length xs) = Ok (length xs, s)"
    using assms by (intro merge_down_gap) (auto simp: canonical_append)
  then show ?thesis using merge_up_Ok [OF assms] by (simp add: merge_around_def)
qed

section \<open>Insertion\<close>

lemma insert_at_active:
  assumes cnt: "ws_count s < length (windows s)" and act: "active s = xs @ ys"
  shows "\<exists>s'. insert_at s (length xs) rng = merge_around s' (length xs) \<and>
    active s' = xs @ rng # ys \<and> same_store s s'"
proof -
  let ?n = "ws_count s" and ?w = "windows s" and ?i = "length xs"
  have n: "?n = ?i + length ys"
    using arg_cong [OF act, of length] cnt by (simp add: active_def)
  obtain w where w: "insert_shift ?w ?n ?i = Ok w" "length w = length ?w"
    and nth: "\<forall>j < length ?w. w ! j = (if ?i < j \<and> j \<le> ?n then ?w ! (j - 1) else ?w ! j)"
    using insert_shift_Ok [of ?i ?n ?w] n cnt by auto
  let ?s = "\<lparr>windows = w[?i := rng], ws_count = ?n + 1\<rparr>"
  have at: "?w ! j = (xs @ ys) ! j" if "j < ?n" for j
    using act that by (metis active_def nth_take)
  have "insert_at s ?i rng = merge_around ?s ?i"
    using w n cnt by (simp add: insert_at_def)
  moreover have "active ?s = xs @ rng # ys"
  proof (rule nth_equalityI)
    show "length (active ?s) = length (xs @ rng # ys)"
      using w n cnt by (simp add: active_def)
  next
    fix j
    assume "j < length (active ?s)"
    then have j: "j < Suc ?n" "j < length ?w" using w cnt by (simp_all add: active_def)
    then have "active ?s ! j = (if j = ?i then rng else if ?i < j then ?w ! (j - 1) else ?w ! j)"
      using w nth n by (auto simp: active_def nth_list_update)
    also have "\<dots> = (xs @ rng # ys) ! j"
      using j n at [of j] at [of "j - 1"] by (auto simp: nth_append nth_Cons' Suc_diff_le)
    finally show "active ?s ! j = (xs @ rng # ys) ! j" .
  qed
  ultimately show ?thesis using w cnt by (auto simp: same_store_def)
qed

text \<open>A window is isolated from a set when it neither overlaps nor touches one of its windows.\<close>

definition isolated :: "bdf_range_set \<Rightarrow> bdf_range \<Rightarrow> bool" where
  "isolated s rng \<longleftrightarrow> (\<forall>x \<in> set (active s). br_hi x < br_lo rng \<or> br_hi rng < br_lo x)"

text \<open>What a successful insertion of a window promises.\<close>

definition inserted :: "bdf_range_set \<Rightarrow> bdf_range \<Rightarrow> bdf_range_set \<Rightarrow> bool" where
  "inserted s rng s' \<longleftrightarrow>
     rs_inv s' \<and> ids (active s') = ids (active s) \<union> br_span rng \<and> length (windows s') = length (windows s)"

lemma insertedI:
  "canonical (active s') \<Longrightarrow> ids (active s') = ids (active s) \<union> br_span rng \<Longrightarrow> same_store s s' \<Longrightarrow>
   inserted s rng s'"
  by (simp add: inserted_def rs_inv_def same_store_def)

lemma insert_at_Ok:
  assumes inv: "rs_inv s" and cnt: "ws_count s < length (windows s)" and act: "active s = xs @ ys"
    and rng: "br_wf rng" "br_lo rng < br_hi rng"
    and left: "\<forall>x \<in> set xs. br_hi x < br_lo rng" and right: "\<forall>y \<in> set ys. br_hi rng < br_lo y"
  shows "\<exists>s'. insert_at s (length xs) rng = Ok s' \<and> inserted s rng s'"
proof -
  obtain t where t: "insert_at s (length xs) rng = merge_around t (length xs)"
      "active t = xs @ rng # ys" "same_store s t"
    using insert_at_active [OF cnt act] by blast
  have can: "canonical xs" "canonical ys" "\<forall>x \<in> set xs. \<forall>y \<in> set ys. br_hi x < br_lo y"
    using inv act by (simp_all add: rs_inv_def canonical_append)
  obtain s' where s': "merge_around t (length xs) = Ok s'" "canonical (active s')"
      "ids (active s') = ids (active t)" "same_store t s'"
    using merge_around_Ok [of t xs rng ys] t can rng left right
    by (force simp: same_store_def canonical_append canonical_Cons)
  then have "inserted s rng s'"
    using t act same_store_trans by (intro insertedI) auto
  with t s' show ?thesis by auto
qed

lemma insert_widen_Ok:
  assumes inv: "rs_inv s" and act: "active s = xs @ cur # ys"
    and rng: "br_wf rng" "br_lo rng < br_hi rng"
    and left: "\<forall>x \<in> set xs. br_hi x < br_lo rng"
    and touch: "br_lo rng \<le> br_hi cur" "br_lo cur \<le> br_hi rng"
    and m: "br_lo m = min (br_lo cur) (br_lo rng)" "br_hi m = max (br_hi cur) (br_hi rng)"
  shows "\<exists>s'. merge_around (s\<lparr>windows := (windows s)[length xs := m]\<rparr>) (length xs) = Ok s' \<and>
    inserted s rng s'"
proof -
  let ?t = "s\<lparr>windows := (windows s)[length xs := m]\<rparr>"
  have cnt: "ws_count s \<le> length (windows s)" using inv by (simp add: rs_inv_def)
  have t: "active ?t = xs @ m # ys" "same_store s ?t"
    using active_update(3) [OF act cnt] cnt by (simp_all add: same_store_def)
  have can: "canonical xs" "canonical ys" "\<forall>x \<in> set xs. \<forall>y \<in> set ys. br_hi x < br_lo y"
      "br_wf cur" "br_lo cur < br_hi cur" "\<forall>x \<in> set xs. br_hi x < br_lo cur"
      "\<forall>y \<in> set ys. br_hi cur < br_lo y"
    using inv act by (auto simp: rs_inv_def canonical_append canonical_Cons)
  have cm: "canonical (xs @ [m])"
    using can rng left m by (auto simp: canonical_append canonical_Cons br_wf_def)
  have right: "\<forall>y \<in> set ys. br_lo m \<le> br_lo y"
    using can m by fastforce
  obtain s' where s': "merge_around ?t (length xs) = Ok s'" "canonical (active s')"
      "ids (active s') = ids (active ?t)" "same_store ?t s'"
    using merge_around_Ok [OF _ t(1) cm can(2,3) right] cnt by auto
  have "br_span m = br_span cur \<union> br_span rng"
    using m touch can(5) rng(2) by (auto simp: br_span_def)
  then have "inserted s rng s'"
    using s' t act same_store_trans by (intro insertedI) auto
  with s' show ?thesis by auto
qed

lemma insert_at_full: "ws_count s = length (windows s) \<Longrightarrow> insert_at s index rng = Err (Full, s)"
  by (simp add: insert_at_def)

text \<open>
  The scan, with the windows before its index known to end before the new one starts: a full
  array and an isolated window give the error, everything else succeeds.
\<close>

lemma insert_from_cases:
  assumes "rs_inv s" and "br_wf rng" and "br_lo rng < br_hi rng" and "index \<le> ws_count s"
    and "\<forall>x \<in> set (take index (active s)). br_hi x < br_lo rng"
  shows "if ws_count s = length (windows s) \<and> isolated s rng
    then insert_from s rng index = Err (Full, s)
    else \<exists>s'. insert_from s rng index = Ok s' \<and> inserted s rng s'"
  using assms
proof (induction s rng index rule: insert_from.induct)
  case (1 s rng index)
  note inv = "1.prems"(1) and rng = "1.prems"(2,3) and left = "1.prems"(5)
  have len: "length (active s) = ws_count s" using length_active [OF inv] .
  show ?case
  proof (cases "index < ws_count s")
    case False
    then have i: "index = ws_count s" using "1.prems"(4) by simp
    then have all: "\<forall>x \<in> set (active s). br_hi x < br_lo rng" using left len by simp
    have step: "insert_from s rng index = insert_at s (ws_count s) rng"
      using False by (subst insert_from.simps) simp
    show ?thesis
    proof (cases "ws_count s = length (windows s)")
      case True
      then show ?thesis using step all by (simp add: insert_at_full isolated_def)
    next
      case False
      then have "ws_count s < length (windows s)" using inv by (simp add: rs_inv_def)
      then show ?thesis
        using insert_at_Ok [OF inv _ _ rng, of "active s" "[]"] all step False len by simp
    qed
  next
    case True
    let ?cur = "active s ! index" and ?xs = "take index (active s)" and ?ys = "drop (Suc index) (active s)"
    have act: "active s = ?xs @ ?cur # ?ys" using True len by (simp add: id_take_nth_drop)
    have lxs: "length ?xs = index" using True len by simp
    have get: "arr_get (windows s) index = (Ok ?cur :: bdf_range set_res)"
      using True inv by (simp add: rs_inv_def active_def)
    have can: "\<forall>y \<in> set ?ys. br_hi ?cur < br_lo y" "br_wf ?cur" "br_lo ?cur < br_hi ?cur"
      using inv act canonical_append canonical_Cons unfolding rs_inv_def by metis+
    have cmp: "as_u32 (br_start a) \<le> as_u32 (br_start b) \<longleftrightarrow> br_lo a \<le> br_lo b"
      "br_end a \<le> br_end b \<longleftrightarrow> br_hi a \<le> br_hi b"
      "as_u32 (br_start a) \<le> br_end b \<longleftrightarrow> br_lo a \<le> br_hi b"
      "as_u32 (br_start a) < as_u32 (br_start b) \<longleftrightarrow> br_lo a < br_lo b" for a b
      by (simp_all add: br_lo_def br_hi_def word_le_nat_alt word_less_nat_alt)
    have cur_in: "?cur \<in> set (active s)" using True len by simp
    consider (covered) "br_lo ?cur \<le> br_lo rng \<and> br_hi rng \<le> br_hi ?cur"
      | (touch) "\<not> (br_lo ?cur \<le> br_lo rng \<and> br_hi rng \<le> br_hi ?cur)"
          "br_lo rng \<le> br_hi ?cur" "br_lo ?cur \<le> br_hi rng"
      | (before) "br_hi rng < br_lo ?cur" | (after) "br_hi ?cur < br_lo rng"
      by linarith
    then show ?thesis
    proof cases
      case covered
      then have "insert_from s rng index = Ok s"
        using True get by (subst insert_from.simps) (simp add: cmp)
      moreover have "br_span rng \<subseteq> ids (active s)"
        unfolding ids_def br_span_def
        by (rule subsetI, rule UN_I [OF cur_in]) (use covered in auto)
      then have "inserted s rng s" using inv by (auto simp: inserted_def)
      moreover have "\<not> isolated s rng"
        using cur_in covered rng unfolding isolated_def by fastforce
      ultimately show ?thesis by auto
    next
      case touch
      have "unat (min (as_u32 (br_start ?cur)) (as_u32 (br_start rng))) = min (br_lo ?cur) (br_lo rng)"
        "unat (max (br_end ?cur) (br_end rng)) = max (br_hi ?cur) (br_hi rng)"
        by (auto simp: br_lo_def br_hi_def min_def max_def word_le_nat_alt)
      moreover have "min (br_lo ?cur) (br_lo rng) \<le> max (br_hi ?cur) (br_hi rng)"
        "min (br_lo ?cur) (br_lo rng) < 65536" "max (br_hi ?cur) (br_hi rng) \<le> 65536"
        using rng can br_lo_bound [of rng] by (auto simp: br_wf_def)
      ultimately obtain m where m: "br_from_bounds (min (as_u32 (br_start ?cur)) (as_u32 (br_start rng)))
            (max (br_end ?cur) (br_end rng)) = Ok m"
          "br_lo m = min (br_lo ?cur) (br_lo rng)" "br_hi m = max (br_hi ?cur) (br_hi rng)"
        using br_from_bounds_Ok [of "min (as_u32 (br_start ?cur)) (as_u32 (br_start rng))"
            "max (br_end ?cur) (br_end rng)"] by metis
      have "index < length (windows s)" using True inv by (simp add: rs_inv_def)
      then have "insert_from s rng index = merge_around (s\<lparr>windows := (windows s)[index := m]\<rparr>) index"
        using True get touch m(1) by (subst insert_from.simps) (simp add: cmp del: not_le; blast)
      moreover have "\<not> isolated s rng"
        using cur_in touch unfolding isolated_def by fastforce
      ultimately show ?thesis
        using insert_widen_Ok [OF inv act rng left touch(2,3) m(2,3)] lxs by auto
    next
      case before
      have step: "insert_from s rng index = insert_at s index rng"
        using True get before rng can by (subst insert_from.simps) (simp add: cmp)
      have right: "\<forall>y \<in> set (?cur # ?ys). br_hi rng < br_lo y"
        using before can by fastforce
      have iso: "isolated s rng"
        unfolding isolated_def by (subst act) (use left right in auto)
      show ?thesis
      proof (cases "ws_count s = length (windows s)")
        case True
        then show ?thesis using step iso by (simp add: insert_at_full)
      next
        case False
        then have "ws_count s < length (windows s)" using inv by (simp add: rs_inv_def)
        then show ?thesis
          using insert_at_Ok [OF inv _ act rng left right] step lxs False by simp
      qed
    next
      case after
      have step: "insert_from s rng index = insert_from s rng (index + 1)"
        using True get after rng can by (subst insert_from.simps) (simp add: cmp)
      have "\<forall>x \<in> set (take (index + 1) (active s)). br_hi x < br_lo rng"
        using left after True len by (auto simp: take_Suc_conv_app_nth)
      then have "if ws_count s = length (windows s) \<and> isolated s rng
        then insert_from s rng (index + 1) = Err (Full, s)
        else \<exists>s'. insert_from s rng (index + 1) = Ok s' \<and> inserted s rng s'"
        using after rng can inv True by (intro "1.IH" [OF True get]) (simp_all add: cmp not_le)
      then show ?thesis by (simp only: step)
    qed
  qed
qed

lemma rs_insert_cases:
  assumes "rs_inv s" and "br_wf rng"
  shows "if ws_count s = length (windows s) \<and> \<not> br_is_empty rng \<and> isolated s rng
    then rs_insert s rng = Err (Full, s)
    else \<exists>s'. rs_insert s rng = Ok s' \<and> inserted s rng s'"
proof (cases "br_is_empty rng")
  case True
  then show ?thesis
    using assms by (auto simp: rs_insert_def inserted_def br_is_empty_iff br_span_def)
next
  case False
  then have "br_lo rng < br_hi rng" using assms by (auto simp: br_is_empty_iff br_wf_def)
  then show ?thesis
    using insert_from_cases [OF assms, of 0] False by (simp add: rs_insert_def)
qed

lemma rs_members_inserted: "inserted s rng s' \<Longrightarrow> rs_members s' = rs_members s \<union> br_members rng"
  by (auto simp: inserted_def rs_members_iff br_members_def br_contains_iff br_span_def)

section \<open>The contract the table parsers use\<close>

interpretation requesters: requester_set rs_insert rs_members rs_inv br_members br_wf
proof unfold_locales
  fix s s' :: bdf_range_set and r :: bdf_range
  assume "rs_inv s" and "br_wf r"
  note cases = rs_insert_cases [OF this]
  show "rs_insert s r \<noteq> Panic" using cases by (auto split: if_splits)
  assume "rs_insert s r = Ok s'"
  then have "inserted s r s'" using cases by (auto split: if_splits)
  then show "rs_inv s'" and "rs_members s' = rs_members s \<union> br_members r"
    by (simp add: inserted_def, rule rs_members_inserted)
qed

section \<open>Canonical form\<close>

lemma ids_lower: "canonical (r # rs) \<Longrightarrow> n \<in> ids (r # rs) \<Longrightarrow> br_lo r \<le> n"
  by (fastforce simp: canonical_Cons ids_def br_span_def)

lemma hi_not_in_ids: "canonical (r # rs) \<Longrightarrow> br_hi r \<notin> ids (r # rs)"
  by (fastforce simp: canonical_Cons ids_def br_span_def)

lemma span_disjoint_ids: "canonical (r # rs) \<Longrightarrow> ids rs = ids (r # rs) - br_span r"
  by (fastforce simp: canonical_Cons ids_def br_span_def)

lemma canonical_head_le:
  assumes "canonical (r # rs)" and "canonical (r' # rs')" and "ids (r # rs) = ids (r' # rs')"
  shows "br_lo r' \<le> br_lo r" and "br_lo r = br_lo r' \<Longrightarrow> br_hi r' \<le> br_hi r"
proof -
  have "br_lo r \<in> ids (r # rs)"
    using assms(1) by (auto simp: canonical_Cons br_span_def)
  then show "br_lo r' \<le> br_lo r" unfolding assms(3) by (rule ids_lower [OF assms(2)])
  assume lo: "br_lo r = br_lo r'"
  show "br_hi r' \<le> br_hi r"
  proof (rule ccontr)
    assume "\<not> br_hi r' \<le> br_hi r"
    then have "br_hi r \<in> ids (r' # rs')"
      using assms(1) lo by (auto simp: canonical_Cons br_span_def)
    then show False using hi_not_in_ids [OF assms(1)] unfolding assms(3) by contradiction
  qed
qed

text \<open>A canonical list of windows is determined by the identifiers it covers.\<close>

lemma canonical_unique: "canonical rs \<Longrightarrow> canonical rs' \<Longrightarrow> ids rs = ids rs' \<Longrightarrow> rs = rs'"
proof (induction rs arbitrary: rs')
  case Nil
  then show ?case by (cases rs') (auto simp: canonical_Cons br_span_def)
next
  case (Cons r rs)
  then obtain q qs where rs': "rs' = q # qs"
    by (cases rs') (auto simp: canonical_Cons br_span_def)
  note can = Cons.prems(1) Cons.prems(2) [unfolded rs'] and eq = Cons.prems(3) [unfolded rs']
  have lo: "br_lo r = br_lo q"
    using canonical_head_le(1) [OF can eq] canonical_head_le(1) [OF can(2,1) eq [symmetric]] by simp
  moreover have "br_hi r = br_hi q"
    using canonical_head_le(2) [OF can eq] canonical_head_le(2) [OF can(2,1) eq [symmetric]] lo by simp
  ultimately have "r = q" by (rule br_range_eqI)
  moreover have "ids rs = ids qs"
    using span_disjoint_ids [OF can(1)] span_disjoint_ids [OF can(2)] eq \<open>r = q\<close> by simp
  then have "rs = qs" using Cons.IH can by (simp add: canonical_Cons)
  ultimately show ?case using rs' by simp
qed

lemma ids_of_members:
  assumes "rs_inv s"
  shows "ids (active s) = (unat \<circ> as_u16) ` rs_members s"
proof -
  have "n \<in> (unat \<circ> as_u16) ` rs_members s" if n: "n \<in> ids (active s)" for n
  proof -
    have "n < 65536"
      using n assms by (fastforce simp: rs_inv_def canonical_def ids_def br_span_def br_wf_def)
    then have u: "unat (as_u16 (Bdf (word_of_nat n))) = n"
      by (simp add: unat_of_nat)
    then have "Bdf (word_of_nat n) \<in> rs_members s" using n by (simp only: rs_members_iff)
    then show ?thesis using u by (metis comp_apply imageI)
  qed
  then show ?thesis by (auto simp: rs_members_iff)
qed

lemma same_members_active:
  "rs_inv s \<Longrightarrow> rs_inv s' \<Longrightarrow> rs_members s = rs_members s' \<Longrightarrow> active s = active s'"
  by (rule canonical_unique) (simp_all add: rs_inv_def ids_of_members)

section \<open>Properties\<close>

text \<open>C1. Inserting a well-formed window into a set that satisfies the invariant fails exactly when
  the array is full and the window neither overlaps nor touches a stored one, and then leaves
  the set as it was; otherwise the result satisfies the invariant (sorted, disjoint,
  non-adjacent, within capacity), keeps the capacity and covers exactly the old requesters and
  those of the window. No array access of the loops is out of bounds.\<close>

theorem rs_insert_correct:
  assumes "rs_inv s" and "br_wf rng"
  shows "if ws_count s = length (windows s) \<and> \<not> br_is_empty rng \<and> isolated s rng
    then rs_insert s rng = Err (Full, s)
    else \<exists>s'. rs_insert s rng = Ok s' \<and> rs_inv s' \<and> length (windows s') = length (windows s) \<and>
      rs_members s' = rs_members s \<union> br_members rng"
  using rs_insert_cases [OF assms] rs_members_inserted [of s rng] by (auto simp: inserted_def)

definition wit_range :: "u16 \<Rightarrow> u32 \<Rightarrow> bdf_range" where
  "wit_range s e = \<lparr>br_start = Bdf s, br_end = e\<rparr>"

definition wit_set :: bdf_range_set where
  "wit_set = \<lparr>windows = [wit_range 8 16, wit_range 32 40], ws_count = 2\<rparr>"

lemma wit_set_inv: "rs_inv wit_set"
  by (simp add: rs_inv_def wit_set_def active_def canonical_def wit_range_def br_wf_def br_lo_def br_hi_def)

lemma rs_insert_correct_witness:
  "rs_insert wit_set (wit_range 64 72) = Err (Full, wit_set) \<and>
   rs_insert wit_set (wit_range 16 32) = Ok \<lparr>windows = [wit_range 8 40, br_EMPTY], ws_count = 1\<rparr>"
proof -
  have wf: "br_wf (wit_range 64 72)" "br_wf (wit_range 16 32)"
    by (simp_all add: wit_range_def br_wf_def br_lo_def br_hi_def)
  have full: "rs_insert wit_set (wit_range 64 72) = Err (Full, wit_set)"
    using rs_insert_correct [OF wit_set_inv wf(1)]
    by (simp add: wit_set_def isolated_def active_def wit_range_def br_is_empty_iff br_lo_def br_hi_def)
  have "\<exists>s'. rs_insert wit_set (wit_range 16 32) = Ok s' \<and> rs_inv s' \<and>
      length (windows s') = length (windows wit_set) \<and>
      rs_members s' = rs_members wit_set \<union> br_members (wit_range 16 32)"
    using rs_insert_correct [OF wit_set_inv wf(2)]
    by (simp add: wit_set_def isolated_def active_def wit_range_def br_is_empty_iff br_lo_def br_hi_def)
  moreover have "rs_insert wit_set (wit_range 16 32) = Ok \<lparr>windows = [wit_range 8 40, br_EMPTY], ws_count = 1\<rparr>"
    by code_simp
  ultimately show ?thesis using full by blast
qed

text \<open>C17. The stored windows depend on the requesters only: two sequences of insertions into empty
  sets, of any capacities, that both succeed and cover the same requesters end in the same
  \<open>as_slice\<close>, whatever the order, the overlaps and the splitting of the windows.\<close>

theorem rs_insert_canonical:
  assumes "\<forall>r \<in> set xs \<union> set ys. br_wf r"
    and "(\<Union>r \<in> set xs. br_members r) = (\<Union>r \<in> set ys. br_members r)"
    and "res_fold rs_insert (rs_empty n) xs = Ok s" and "res_fold rs_insert (rs_empty m) ys = Ok t"
  shows "rs_as_slice s = rs_as_slice t"
proof -
  have wf: "\<forall>r \<in> set xs. br_wf r" "\<forall>r \<in> set ys. br_wf r" using assms(1) by auto
  have inv: "rs_inv s" "rs_inv t"
    using requesters.fold_inv [OF rs_inv_empty wf(1) assms(3)]
      requesters.fold_inv [OF rs_inv_empty wf(2) assms(4)] by simp_all
  have "rs_members s = rs_members t"
    using requesters.fold_members [OF rs_inv_empty wf(1) assms(3)]
      requesters.fold_members [OF rs_inv_empty wf(2) assms(4)] assms(2) by simp
  then show ?thesis
    using same_members_active [OF inv] inv by (simp add: rs_as_slice_active)
qed

lemma rs_insert_canonical_witness:
  "\<exists>s t. res_fold rs_insert (rs_empty 4) [wit_range 8 16, wit_range 32 40, wit_range 12 32] = Ok s \<and>
     res_fold rs_insert (rs_empty 1) [wit_range 8 40] = Ok t \<and>
     (rs_as_slice s :: (bdf_range list, unit) res) = rs_as_slice t"
proof -
  obtain s where s: "res_fold rs_insert (rs_empty 4) [wit_range 8 16, wit_range 32 40, wit_range 12 32] = Ok s"
    by (rule that [of "\<lparr>windows = [wit_range 8 40, br_EMPTY, br_EMPTY, br_EMPTY], ws_count = 1\<rparr>"]) code_simp
  obtain t where t: "res_fold rs_insert (rs_empty 1) [wit_range 8 40] = Ok t"
    by (rule that [of "\<lparr>windows = [wit_range 8 40], ws_count = 1\<rparr>"]) code_simp
  have "(rs_as_slice s :: (bdf_range list, unit) res) = rs_as_slice t"
    by (rule rs_insert_canonical [OF _ _ s t])
      (auto simp: wit_range_def br_wf_def br_lo_def br_hi_def br_members_def br_contains_iff)
  with s t show ?thesis by blast
qed

end
