(* ===== verification/Errors.thy ===== *)
theory Errors
  imports Bdf_Range_Set
begin

text \<open>
  The error types: the firmware parsers' (one shape, used by the DMAR, IVRS and IORT modules) and
  the crate's public \<open>Error\<close> of \<open>src/error.rs\<close>, with the conversions between them.
\<close>

datatype firm_error =
    FirmAcpi acpi_error
  | FirmBdfRanges bdf_range_set_error
  | FirmMapping paging_error
  | FirmMalformed string

datatype error =
    Unsupported | ControllerUnavailable | InvalidController | InvalidAddressSpace | InvalidClient
  | InvalidBinding | InvalidAddress | ErrInvalidRange | InvalidGranule | InvalidWidth
  | AlreadyMapped | NotMapped | FeatureUnavailable | AddressOverflow | PageTable paging_error

type_synonym 'a result = "('a, error) res"

definition error_from_paging :: "paging_error \<Rightarrow> error" where
  "error_from_paging e = PageTable e"

fun error_from_firm :: "firm_error \<Rightarrow> error" where
  "error_from_firm (FirmAcpi e) = InvalidController"
| "error_from_firm (FirmMapping e) = PageTable e"
| "error_from_firm (FirmBdfRanges e) = ErrInvalidRange"
| "error_from_firm (FirmMalformed m) = ErrInvalidRange"

text \<open>Collecting a window: the set's error becomes the parser's, and the set is dropped.\<close>

definition firm_insert :: "bdf_range_set \<Rightarrow> bdf_range \<Rightarrow> (bdf_range_set, firm_error) res" where
  "firm_insert s r = res_map_err (\<lambda>(e, s'). FirmBdfRanges e) (rs_insert s r)"

definition firm_insert_single :: "bdf_range_set \<Rightarrow> bdf \<Rightarrow> (bdf_range_set, firm_error) res" where
  "firm_insert_single s b = res_map_err (\<lambda>(e, s'). FirmBdfRanges e) (rs_insert_single s b)"

lemma firm_insert_single_eq: "firm_insert_single s b = firm_insert s (br_single b)"
  by (simp add: firm_insert_single_def firm_insert_def rs_insert_single_def)

interpretation firm_set: requester_set firm_insert rs_members rs_inv br_members br_wf
  by unfold_locales
    (auto simp: firm_insert_def res_map_err_Ok_iff res_map_err_Panic_iff requesters.insert_no_panic
      dest: requesters.insert_inv requesters.insert_members)

end
