(* ===== verification/Addr.thy ===== *)
theory Addr
  imports External
begin

text \<open>
  \<open>src/addr.rs\<close>: typed addresses over an unsigned integer type, register windows of an MMIO
  range, and x86 I/O ports. An address over the type \<open>T\<close> is its numeric value, at most
  \<open>ut_MAX T\<close>.
\<close>

section \<open>Integer types behind an address\<close>

datatype unsigned_ty = U32 | U64 | Usize

fun ut_MAX :: "unsigned_ty \<Rightarrow> usize" where
  "ut_MAX U32 = 2 ^ 32 - 1"
| "ut_MAX U64 = 2 ^ 64 - 1"
| "ut_MAX Usize = 2 ^ 64 - 1"

fun ut_size_of :: "unsigned_ty \<Rightarrow> usize" where
  "ut_size_of U32 = 4"
| "ut_size_of U64 = 8"
| "ut_size_of Usize = 8"

fun ut_checked_add :: "unsigned_ty \<Rightarrow> nat \<Rightarrow> usize \<Rightarrow> nat option" where
  "ut_checked_add U32 v offset =
     (if v + offset mod 2 ^ 32 < 2 ^ 32 then Some (v + offset mod 2 ^ 32) else None)"
| "ut_checked_add U64 v offset =
     (if v + offset mod 2 ^ 64 < 2 ^ 64 then Some (v + offset mod 2 ^ 64) else None)"
| "ut_checked_add Usize v offset = checked_add_usize v offset"

definition into_usize :: "unsigned_ty \<Rightarrow> nat \<Rightarrow> usize" where
  "into_usize T v = (if ut_size_of T = 4 then v mod 2 ^ 32 else v mod 2 ^ 64)"

definition from_usize :: "unsigned_ty \<Rightarrow> usize \<Rightarrow> (nat, 'e) res" where
  "from_usize T v =
     (if v \<le> ut_MAX T then Ok (if ut_size_of T = 4 then v mod 2 ^ 32 else v mod 2 ^ 64) else Panic)"

definition io_checked_mul :: "unsigned_ty \<Rightarrow> nat \<Rightarrow> usize \<Rightarrow> (nat option, 'e) res" where
  "io_checked_mul T a factor =
     (case checked_mul_usize (into_usize T a) factor of
        None \<Rightarrow> Ok None
      | Some v \<Rightarrow> res_map Some (from_usize T v))"

definition mmio_from_phys :: "unsigned_ty \<Rightarrow> phys_addr \<Rightarrow> (nat, 'e) res" where
  "mmio_from_phys T a = from_usize T a"

definition mmio_as_phys :: "unsigned_ty \<Rightarrow> nat \<Rightarrow> phys_addr" where
  "mmio_as_phys T a = into_usize T a"

section \<open>Register windows\<close>

text \<open>The range operations at the default representation, \<open>usize\<close>.\<close>

definition mmio_from_start_size :: "ext_ops \<Rightarrow> usize \<Rightarrow> usize \<Rightarrow> addr_range option" where
  "mmio_from_start_size E start len = range_try_from_start_size E start len"

definition mmio_from_phys_range :: "addr_range \<Rightarrow> (addr_range, 'e) res" where
  "mmio_from_phys_range r =
     res_bind (mmio_from_phys Usize (r_start r)) (\<lambda>a.
     res_bind (mmio_from_phys Usize (r_end r)) (\<lambda>b. Ok \<lparr>r_start = a, r_end = b\<rparr>))"

definition mmio_from_phys_start_size :: "ext_ops \<Rightarrow> phys_addr \<Rightarrow> usize \<Rightarrow> (addr_range option, 'e) res" where
  "mmio_from_phys_start_size E start len =
     res_bind (mmio_from_phys Usize start) (\<lambda>a. Ok (mmio_from_start_size E a len))"

definition mmio_to_phys_range :: "addr_range \<Rightarrow> addr_range" where
  "mmio_to_phys_range r = \<lparr>r_start = mmio_as_phys Usize (r_start r), r_end = mmio_as_phys Usize (r_end r)\<rparr>"

definition reg :: "ext_ops \<Rightarrow> usize \<Rightarrow> addr_range \<Rightarrow> usize \<Rightarrow> usize option" where
  "reg E W r offset =
     (case addr_checked_add E (r_start r) offset of
        None \<Rightarrow> None
      | Some addr \<Rightarrow>
          (case addr_checked_add E addr W of
             None \<Rightarrow> None
           | Some end' \<Rightarrow> if r_end r < end' then None else Some addr))"

definition reg8 :: "ext_ops \<Rightarrow> addr_range \<Rightarrow> usize \<Rightarrow> usize option" where
  "reg8 E = reg E 1"

definition reg16 :: "ext_ops \<Rightarrow> addr_range \<Rightarrow> usize \<Rightarrow> usize option" where
  "reg16 E = reg E 2"

definition reg32 :: "ext_ops \<Rightarrow> addr_range \<Rightarrow> usize \<Rightarrow> usize option" where
  "reg32 E = reg E 4"

definition reg64 :: "ext_ops \<Rightarrow> addr_range \<Rightarrow> usize \<Rightarrow> usize option" where
  "reg64 E = reg E 8"

definition then_aligned :: "ext_ops \<Rightarrow> usize \<Rightarrow> usize option \<Rightarrow> usize option" where
  "then_aligned E align r =
     (case r of None \<Rightarrow> None | Some addr \<Rightarrow> if addr_is_aligned E addr align then Some addr else None)"

definition reg16_aligned :: "ext_ops \<Rightarrow> addr_range \<Rightarrow> usize \<Rightarrow> usize option" where
  "reg16_aligned E r offset = then_aligned E 2 (reg16 E r offset)"

definition reg32_aligned :: "ext_ops \<Rightarrow> addr_range \<Rightarrow> usize \<Rightarrow> usize option" where
  "reg32_aligned E r offset = then_aligned E 4 (reg32 E r offset)"

definition reg64_aligned :: "ext_ops \<Rightarrow> addr_range \<Rightarrow> usize \<Rightarrow> usize option" where
  "reg64_aligned E r offset = then_aligned E 8 (reg64 E r offset)"

lemma reg_Some_iff:
  assumes "ext_ok E" and "valid_range r"
  shows "reg E W r offset = Some a \<longleftrightarrow> a = r_start r + offset \<and> r_start r + offset + W \<le> r_end r"
  using assms
  by (auto simp: reg_def ext_ok_checked_add valid_range_def checked_add_usize_def split: option.splits if_splits)

lemma then_aligned_Some_iff:
  assumes "ext_ok E"
  shows "then_aligned E (2 ^ k) m = Some a \<longleftrightarrow> m = Some a \<and> 2 ^ k dvd a"
  using ext_ok_aligned [OF assms, of _ k]
  by (auto simp: then_aligned_def dvd_eq_mod_eq_0 split: option.splits)

section \<open>I/O ports\<close>

type_synonym io_port = u16

record io_port_range =
  pr_start :: io_port
  pr_end :: io_port

definition port_checked_add :: "io_port \<Rightarrow> u16 \<Rightarrow> io_port option" where
  "port_checked_add p n = (if unat p + unat n < 2 ^ 16 then Some (p + n) else None)"

definition port_checked_sub :: "io_port \<Rightarrow> u16 \<Rightarrow> io_port option" where
  "port_checked_sub p n = (if n \<le> p then Some (p - n) else None)"

definition port_checked_mul :: "io_port \<Rightarrow> u16 \<Rightarrow> io_port option" where
  "port_checked_mul p n = (if unat p * unat n < 2 ^ 16 then Some (p * n) else None)"

definition port_checked_div :: "io_port \<Rightarrow> u16 \<Rightarrow> io_port option" where
  "port_checked_div p n = (if n = 0 then None else Some (p div n))"

definition port_from_start_size :: "io_port \<Rightarrow> u16 \<Rightarrow> io_port_range option" where
  "port_from_start_size start len =
     (case port_checked_add start len of
        None \<Rightarrow> None
      | Some end' \<Rightarrow> Some \<lparr>pr_start = start, pr_end = end'\<rparr>)"

definition port_size :: "io_port_range \<Rightarrow> (u16, 'e) res" where
  "port_size r = (if pr_end r < pr_start r then Panic else Ok (pr_end r - pr_start r))"

definition port_is_empty :: "io_port_range \<Rightarrow> bool" where
  "port_is_empty r \<longleftrightarrow> pr_end r \<le> pr_start r"

definition port_contains :: "io_port_range \<Rightarrow> io_port \<Rightarrow> bool" where
  "port_contains r p \<longleftrightarrow> pr_start r \<le> p \<and> p < pr_end r"

section \<open>Properties\<close>

text \<open>C34. A register accessor of a valid MMIO range returns an address exactly when the whole
  register lies in the range, and then the address is the base plus the offset; no access of
  the returned width leaves the range. The aligned forms return it exactly when it is also a
  multiple of the width.\<close>

theorem reg_within_range:
  assumes "ext_ok E" and "valid_range r"
  shows "(reg32 E r offset = Some a \<longleftrightarrow> a = r_start r + offset \<and> a + 4 \<le> r_end r) \<and>
    (reg64 E r offset = Some a \<longleftrightarrow> a = r_start r + offset \<and> a + 8 \<le> r_end r) \<and>
    (reg32_aligned E r offset = Some a \<longleftrightarrow> a = r_start r + offset \<and> a + 4 \<le> r_end r \<and> 4 dvd a) \<and>
    (reg64_aligned E r offset = Some a \<longleftrightarrow> a = r_start r + offset \<and> a + 8 \<le> r_end r \<and> 8 dvd a)"
  using then_aligned_Some_iff [OF assms(1), of 2] then_aligned_Some_iff [OF assms(1), of 3]
  by (auto simp: reg32_def reg64_def reg32_aligned_def reg64_aligned_def reg_Some_iff [OF assms])

lemma reg_within_range_witness:
  "reg64_aligned std_ext \<lparr>r_start = 4096, r_end = 8192\<rparr> 4088 = Some 8184 \<and>
   reg64_aligned std_ext \<lparr>r_start = 4096, r_end = 8192\<rparr> 4089 \<noteq> Some 8185"
  using reg_within_range [OF std_ext_ok, of "\<lparr>r_start = 4096, r_end = 8192\<rparr>" 4088 8184]
    reg_within_range [OF std_ext_ok, of "\<lparr>r_start = 4096, r_end = 8192\<rparr>" 4089 8185]
  by (simp add: valid_range_def usize_bound_def)

text \<open>The operations named \<open>checked_\<close> of 32-bit addresses do not report every overflow:
  \<open>Unsigned::checked_add\<close> casts the offset to 32 bits first, so adding \<open>2 ^ 32 * k + n\<close> behaves
  as adding \<open>n\<close>, and \<open>IoAddr::checked_mul\<close> panics, instead of returning \<open>None\<close>, exactly when the
  product fits the pointer size but not 32 bits.\<close>

theorem checked_ops_u32:
  assumes "v < 2 ^ 32"
  shows "ut_checked_add U32 v (2 ^ 32 * k + n) = ut_checked_add U32 v n \<and>
    (io_checked_mul U32 v f = (Panic :: (nat option, 'e) res) \<longleftrightarrow> 2 ^ 32 \<le> v * f \<and> v * f < 2 ^ 64) \<and>
    (io_checked_mul U32 v f = (Ok None :: (nat option, 'e) res) \<longleftrightarrow> 2 ^ 64 \<le> v * f)"
proof -
  have "into_usize U32 v = v" using assms by (simp add: into_usize_def)
  then show ?thesis
    by (auto simp: io_checked_mul_def from_usize_def checked_mul_usize_def usize_bound_def
        res_map_Panic_iff res_map_Ok_iff)
qed

lemma checked_ops_u32_witness:
  "ut_checked_add U32 7 (2 ^ 32) = Some 7 \<and>
   io_checked_mul U32 0x10000 0x10000 = (Panic :: (nat option, unit) res)"
  using checked_ops_u32 [of 7 1 0, where ?'e = unit] checked_ops_u32 [of "0x10000" 0 0 "0x10000", where ?'e = unit]
  by simp

end
