(* ===== verification/Caps_Info.thy ===== *)
theory Caps_Info
  imports Errors
begin

text \<open>
  \<open>src/caps.rs\<close> and \<open>src/info.rs\<close>: the target-neutral vocabulary of bindings and capability flags,
  the descriptor of a discovered unit, and the packed domain identifier \<open>IoDomain\<close>. Memory
  attributes and access flags are external types, hence type variables.
\<close>

section \<open>Bindings and capabilities\<close>

record ('f, 'm) dma_attrs =
  da_access :: 'f
  da_memory :: 'm

datatype translation_stage = Stage1 | Stage2 | Nested

datatype binding_selector = Default | AddrSpace u32 | Substream u32

datatype 'd binding_target = Abort | PassThrough | ToDomain 'd

record ('c, 'd) binding =
  b_client :: 'c
  b_selector :: binding_selector
  b_target :: "'d binding_target"

type_synonym capability_flags = u64

definition CF_TRANSLATION :: capability_flags where "CF_TRANSLATION = push_bit 0 1"
definition CF_PASID :: capability_flags where "CF_PASID = push_bit 1 1"
definition CF_ATS :: capability_flags where "CF_ATS = push_bit 2 1"
definition CF_DEVICE_TLB :: capability_flags where "CF_DEVICE_TLB = push_bit 3 1"
definition CF_INTERRUPT_REMAPPING :: capability_flags where "CF_INTERRUPT_REMAPPING = push_bit 4 1"
definition CF_NESTED_TRANSLATION :: capability_flags where "CF_NESTED_TRANSLATION = push_bit 5 1"
definition CF_PAGE_REQUESTS :: capability_flags where "CF_PAGE_REQUESTS = push_bit 6 1"
definition CF_DIRTY_TRACKING :: capability_flags where "CF_DIRTY_TRACKING = push_bit 7 1"

lemmas CF_defs = CF_TRANSLATION_def CF_PASID_def CF_ATS_def CF_DEVICE_TLB_def
  CF_INTERRUPT_REMAPPING_def CF_NESTED_TRANSLATION_def CF_PAGE_REQUESTS_def CF_DIRTY_TRACKING_def

definition cf_empty :: capability_flags where "cf_empty = 0"

definition cf_contains :: "capability_flags \<Rightarrow> capability_flags \<Rightarrow> bool" where
  "cf_contains f g \<longleftrightarrow> f AND g = g"

definition cf_or :: "capability_flags \<Rightarrow> capability_flags \<Rightarrow> capability_flags" where
  "cf_or f g = f OR g"

definition cf_and :: "capability_flags \<Rightarrow> capability_flags \<Rightarrow> capability_flags" where
  "cf_and f g = f AND g"

lemma cf_contains_iff: "cf_contains f g \<longleftrightarrow> (\<forall>n. bit g n \<longrightarrow> bit f n)"
proof
  assume a: "cf_contains f g"
  show "\<forall>n. bit g n \<longrightarrow> bit f n"
  proof (intro allI impI)
    fix n assume "bit g n"
    then have "bit (f AND g) n" using a by (simp add: cf_contains_def)
    then show "bit f n" by (simp add: bit_simps)
  qed
next
  assume "\<forall>n. bit g n \<longrightarrow> bit f n"
  then show "cf_contains f g"
    unfolding cf_contains_def by (intro bit_word_eqI) (auto simp: bit_simps)
qed

section \<open>Unit descriptors\<close>

datatype controller_kind = IntelVtd | AmdVi | ArmSmmuV2 | ArmSmmuV3 | RiscvIommu | UnknownKind u16

record iommu_info =
  ii_kind :: controller_kind
  ii_segment :: "u16 option"
  ii_mmio :: addr_range
  ii_caps :: capability_flags
  ii_stage :: translation_stage

record 'c reserved_region =
  rr_range :: addr_range
  rr_client :: "'c option"

section \<open>Domain identifiers\<close>

type_synonym io_domain = u32

definition dom_ID_BITS :: "u32 \<Rightarrow> nat" where
  "dom_ID_BITS MASK = count_ones (unat MASK)"

definition dom_GENERATION_MASK :: "u32 \<Rightarrow> u32" where
  "dom_GENERATION_MASK MASK = (if 32 \<le> dom_ID_BITS MASK then 0 else drop_bit (dom_ID_BITS MASK) (- 1))"

definition dom_from_parts_trusted :: "u32 \<Rightarrow> u32 \<Rightarrow> u32 \<Rightarrow> io_domain" where
  "dom_from_parts_trusted MASK id' generation =
     (let gen_bits = if 32 \<le> dom_ID_BITS MASK then 0
        else push_bit (dom_ID_BITS MASK) (generation AND dom_GENERATION_MASK MASK)
      in (id' AND MASK) OR gen_bits)"

definition dom_new :: "u32 \<Rightarrow> u32 \<Rightarrow> u32 \<Rightarrow> io_domain option" where
  "dom_new MASK id' generation =
     (if id' AND NOT MASK = 0 then Some (dom_from_parts_trusted MASK id' generation) else None)"

definition dom_from_asid :: "u32 \<Rightarrow> u32 \<Rightarrow> io_domain option" where
  "dom_from_asid MASK asid = dom_new MASK asid 0"

definition dom_capacity :: "u32 \<Rightarrow> u32" where
  "dom_capacity MASK = (if 32 \<le> dom_ID_BITS MASK then - 1 else push_bit (dom_ID_BITS MASK) 1)"

definition dom_id :: "u32 \<Rightarrow> io_domain \<Rightarrow> u32" where
  "dom_id MASK d = d AND MASK"

definition dom_generation :: "u32 \<Rightarrow> io_domain \<Rightarrow> u32" where
  "dom_generation MASK d = (if 32 \<le> dom_ID_BITS MASK then 0 else drop_bit (dom_ID_BITS MASK) d)"

lemma unat_mask_word: "k \<le> LENGTH('a) \<Longrightarrow> unat (mask k :: 'a::len word) = 2 ^ k - 1"
proof -
  assume k: "k \<le> LENGTH('a)"
  have "unat (mask k :: 'a word) = unat (take_bit k (- 1) :: 'a word)"
    by simp
  also have "\<dots> = take_bit k (mask LENGTH('a))"
    by (simp only: unsigned_take_bit_eq unsigned_minus_1_eq_mask)
  also have "\<dots> = mask (min k LENGTH('a))"
    by (rule bit_eqI) (auto simp: bit_simps)
  also have "\<dots> = 2 ^ k - 1"
    using k by (simp add: mask_eq_exp_minus_1)
  finally show ?thesis .
qed

lemma count_ones_mask: "count_ones (2 ^ k - 1) = k"
proof (induction k)
  case (Suc k)
  have "(0::nat) < 2 ^ k" by simp
  then have "(2::nat) ^ Suc k - 1 = Suc (2 * (2 ^ k - 1))"
    unfolding power_Suc by linarith
  then show ?case using Suc.IH by (simp only: count_ones_Suc_double)
qed simp

lemma dom_ID_BITS_mask: "k \<le> 32 \<Longrightarrow> dom_ID_BITS (mask k) = k"
proof -
  assume k: "k \<le> 32"
  have "unat (mask k :: u32) = 2 ^ k - 1"
    using k by (simp add: unat_mask_word)
  then show ?thesis using count_ones_mask by (simp add: dom_ID_BITS_def)
qed

section \<open>Properties\<close>

text \<open>With a mask of \<open>k\<close> low bits, the identifier and the generation of an \<open>IoDomain\<close> are
  independent: construction fails exactly for identifiers outside the mask, the accessors read
  back the identifier and the generation (cut to the bits that are left), and every 32-bit value
  is what its own two fields construct.\<close>

theorem io_domain_roundtrip:
  assumes "k \<le> 32" and "MASK = mask k"
  shows "(dom_new MASK i g = None \<longleftrightarrow> i \<noteq> take_bit k i) \<and>
    (case dom_new MASK i g of None \<Rightarrow> True
      | Some d \<Rightarrow> dom_id MASK d = i \<and> dom_generation MASK d = take_bit (32 - k) g) \<and>
    dom_new MASK (dom_id MASK d) (dom_generation MASK d) = Some d"
proof -
  note k = dom_ID_BITS_mask [OF assms(1)]
  have none: "i AND NOT (mask k) = 0 \<longleftrightarrow> i = take_bit k i" for i :: u32
    by (simp add: bit_eq_iff [where ?'a = "32 word"] bit_simps) (metis bit_imp_le_length)
  have gen: "dom_GENERATION_MASK MASK = mask (32 - k)"
    using assms k
    by (auto simp: dom_GENERATION_MASK_def intro!: bit_word_eqI simp: bit_simps)
  have new: "dom_from_parts_trusted MASK i g = take_bit k i OR push_bit k (take_bit (32 - k) g)" for i g
    using assms k gen
    by (auto simp: dom_from_parts_trusted_def take_bit_eq_mask Let_def)
  have acc: "dom_id MASK d = take_bit k d" "dom_generation MASK d = drop_bit k d" for d
    using assms k by (auto simp: dom_id_def dom_generation_def take_bit_eq_mask
        intro!: bit_word_eqI simp: bit_simps bit_beyond)
  have "take_bit k (take_bit k i OR push_bit k (take_bit (32 - k) g)) = take_bit k i"
    "drop_bit k (take_bit k i OR push_bit k (take_bit (32 - k) g)) = take_bit (32 - k) g"
    using assms by (auto intro!: bit_word_eqI simp: bit_simps bit_beyond)
  moreover have "take_bit k d OR push_bit k (take_bit (32 - k) (drop_bit k d)) = d"
    by (rule bit_word_eqI) (auto simp: bit_simps bit_beyond)
  ultimately show ?thesis
    using none [of i] none [of "take_bit k d"]
    by (cases "i = take_bit k i") (simp_all add: dom_new_def new acc assms(2) [symmetric] del: take_bit_or)
qed

lemma io_domain_roundtrip_witness:
  "dom_new (mask 16) 0x1234 0xabcd = Some 0xabcd1234 \<and> dom_new (mask 16) 0x10000 0 = None \<and>
   dom_generation (mask 16) 0xabcd1234 = 0xabcd"
proof -
  have "dom_new (mask 16) 0x10000 0 = None"
    using io_domain_roundtrip [of 16 "mask 16" "0x10000" 0] by simp
  moreover have "dom_generation (mask 16) 0xabcd1234 = 0xabcd"
    by (simp add: dom_generation_def dom_ID_BITS_mask)
  moreover have "dom_id (mask 16) 0xabcd1234 = 0x1234"
    by (simp add: dom_id_def mask_eq_exp_minus_1)
  ultimately show ?thesis
    using io_domain_roundtrip [of 16 "mask 16" 0 0 "0xabcd1234"] by simp
qed

end
