(* ===== verification/Backing.thy ===== *)
theory Backing
  imports Caps_Info
begin

text \<open>
  \<open>src/ctrl.rs\<close>, the caller-provided memory behind hardware structures: \<open>CommandQueueBacking\<close> for
  a command ring and \<open>DescriptorTableBacking\<close> for a table of fixed-width descriptors. Both check
  at construction that the entries fit the two ranges; an entry address is computed with checked
  arithmetic. \<open>MsiMessage\<close> and \<open>InterruptRoute\<close> are the plain data of the same file.
\<close>

section \<open>Interrupt delivery\<close>

record msi_message =
  msi_address :: u64
  msi_data :: u32

datatype interrupt_route = RouteDisabled | RouteMsi msi_message

definition route_is_enabled :: "interrupt_route \<Rightarrow> bool" where
  "route_is_enabled r \<longleftrightarrow> (case r of RouteDisabled \<Rightarrow> False | RouteMsi _ \<Rightarrow> True)"

definition mul_usize :: "usize \<Rightarrow> usize \<Rightarrow> (usize, 'e) res" where
  "mul_usize a b = (if a * b < usize_bound then Ok (a * b) else Panic)"

section \<open>Command queue memory\<close>

record command_queue_backing =
  cqb_phys :: addr_range
  cqb_virt :: addr_range
  cqb_entry_count :: usize
  cqb_entry_bytes :: usize

definition cqb_new :: "ext_ops \<Rightarrow> addr_range \<Rightarrow> addr_range \<Rightarrow> usize \<Rightarrow> usize \<Rightarrow> command_queue_backing result" where
  "cqb_new E phys virt entry_count entry_bytes =
     (if entry_count = 0 \<or> \<not> is_power_of_two entry_count then Err ErrInvalidRange
      else if entry_bytes = 0 \<or> \<not> is_power_of_two entry_bytes \<or> entry_bytes < 8 then Err InvalidGranule
      else
        res_bind (ok_or (checked_mul_usize entry_count entry_bytes) AddressOverflow) (\<lambda>bytes.
        if range_size E phys < bytes \<or> range_size E virt < bytes then Err ErrInvalidRange
        else if r_start phys mod entry_bytes \<noteq> 0 \<or> r_start virt mod entry_bytes \<noteq> 0
        then Err InvalidAddress
        else Ok \<lparr>cqb_phys = phys, cqb_virt = virt, cqb_entry_count = entry_count,
                 cqb_entry_bytes = entry_bytes\<rparr>))"

definition cqb_byte_len :: "command_queue_backing \<Rightarrow> (usize, 'e) res" where
  "cqb_byte_len b = mul_usize (cqb_entry_count b) (cqb_entry_bytes b)"

definition cqb_entry_vaddr :: "ext_ops \<Rightarrow> command_queue_backing \<Rightarrow> usize \<Rightarrow> virt_addr result" where
  "cqb_entry_vaddr E b slot =
     res_bind (ok_or (checked_mul_usize slot (cqb_entry_bytes b)) AddressOverflow) (\<lambda>offset.
     ok_or (addr_checked_add E (r_start (cqb_virt b)) offset) AddressOverflow)"

text \<open>What construction establishes.\<close>

definition cqb_ok :: "ext_ops \<Rightarrow> command_queue_backing \<Rightarrow> bool" where
  "cqb_ok E b \<longleftrightarrow>
     ext_ok E \<and> valid_range (cqb_virt b) \<and> valid_range (cqb_phys b) \<and>
     is_power_of_two (cqb_entry_count b) \<and> is_power_of_two (cqb_entry_bytes b) \<and> 8 \<le> cqb_entry_bytes b \<and>
     r_start (cqb_virt b) + cqb_entry_count b * cqb_entry_bytes b \<le> r_end (cqb_virt b) \<and>
     r_start (cqb_phys b) + cqb_entry_count b * cqb_entry_bytes b \<le> r_end (cqb_phys b) \<and>
     cqb_entry_bytes b dvd r_start (cqb_virt b) \<and> cqb_entry_bytes b dvd r_start (cqb_phys b)"

lemma cqb_new_Ok_iff:
  assumes "ext_ok E" and "valid_range phys" and "valid_range virt"
  shows "cqb_new E phys virt n w = Ok b \<longleftrightarrow>
    b = \<lparr>cqb_phys = phys, cqb_virt = virt, cqb_entry_count = n, cqb_entry_bytes = w\<rparr> \<and> cqb_ok E b"
  using assms
  by (auto simp: cqb_new_def cqb_ok_def ext_ok_range_size valid_range_def res_bind_Ok_iff ok_or_Ok_iff
      checked_mul_usize_Some mod_eq_0_iff_dvd split: if_split_asm if_split)

section \<open>Descriptor tables\<close>

record descriptor_table_backing =
  dtb_phys :: addr_range
  dtb_virt :: addr_range
  dtb_entry_count :: usize

definition dtb_new_aligned ::
    "ext_ops \<Rightarrow> usize \<Rightarrow> addr_range \<Rightarrow> addr_range \<Rightarrow> usize \<Rightarrow> usize \<Rightarrow> descriptor_table_backing result" where
  "dtb_new_aligned E ENTRY_BYTES phys virt entry_count phys_alignment =
     (if ENTRY_BYTES = 0 \<or> \<not> is_power_of_two ENTRY_BYTES then Err InvalidGranule
      else if entry_count = 0 then Err ErrInvalidRange
      else if phys_alignment = 0 \<or> \<not> is_power_of_two phys_alignment then Err InvalidGranule
      else
        res_bind (ok_or (checked_mul_usize entry_count ENTRY_BYTES) AddressOverflow) (\<lambda>bytes.
        if range_size E phys < bytes \<or> range_size E virt < bytes then Err ErrInvalidRange
        else if r_start phys mod phys_alignment \<noteq> 0 \<or> r_start virt mod ENTRY_BYTES \<noteq> 0
        then Err InvalidAddress
        else Ok \<lparr>dtb_phys = phys, dtb_virt = virt, dtb_entry_count = entry_count\<rparr>))"

definition dtb_new ::
    "ext_ops \<Rightarrow> usize \<Rightarrow> addr_range \<Rightarrow> addr_range \<Rightarrow> usize \<Rightarrow> descriptor_table_backing result" where
  "dtb_new E ENTRY_BYTES phys virt entry_count =
     dtb_new_aligned E ENTRY_BYTES phys virt entry_count ENTRY_BYTES"

definition dtb_byte_len :: "usize \<Rightarrow> descriptor_table_backing \<Rightarrow> (usize, 'e) res" where
  "dtb_byte_len ENTRY_BYTES b = mul_usize (dtb_entry_count b) ENTRY_BYTES"

definition dtb_entry_vaddr :: "ext_ops \<Rightarrow> usize \<Rightarrow> descriptor_table_backing \<Rightarrow> usize \<Rightarrow> virt_addr result" where
  "dtb_entry_vaddr E ENTRY_BYTES b index =
     (if dtb_entry_count b \<le> index then Err ErrInvalidRange
      else
        res_bind (ok_or (checked_mul_usize index ENTRY_BYTES) AddressOverflow) (\<lambda>offset.
        ok_or (addr_checked_add E (r_start (dtb_virt b)) offset) AddressOverflow))"

definition dtb_ok :: "ext_ops \<Rightarrow> usize \<Rightarrow> descriptor_table_backing \<Rightarrow> bool" where
  "dtb_ok E ENTRY_BYTES b \<longleftrightarrow>
     ext_ok E \<and> valid_range (dtb_virt b) \<and> valid_range (dtb_phys b) \<and> is_power_of_two ENTRY_BYTES \<and>
     r_start (dtb_virt b) + dtb_entry_count b * ENTRY_BYTES \<le> r_end (dtb_virt b) \<and>
     r_start (dtb_phys b) + dtb_entry_count b * ENTRY_BYTES \<le> r_end (dtb_phys b) \<and>
     ENTRY_BYTES dvd r_start (dtb_virt b)"

lemma dtb_new_aligned_Ok_iff:
  assumes "ext_ok E" and "valid_range phys" and "valid_range virt"
  shows "dtb_new_aligned E w phys virt n a = Ok b \<longleftrightarrow>
    b = \<lparr>dtb_phys = phys, dtb_virt = virt, dtb_entry_count = n\<rparr> \<and> dtb_ok E w b \<and> 0 < n \<and>
    is_power_of_two a \<and> a dvd r_start phys"
  using assms
  by (auto simp: dtb_new_aligned_def dtb_ok_def ext_ok_range_size valid_range_def res_bind_Ok_iff
      ok_or_Ok_iff checked_mul_usize_Some mod_eq_0_iff_dvd split: if_split_asm if_split)

section \<open>Both are slot tables\<close>

lemma slot_offset_bound:
  assumes "a + n * w \<le> (e :: nat)" and "e < usize_bound" and "i < n"
  shows "i * w < usize_bound" and "a + i * w < usize_bound"
proof -
  have "i * w \<le> n * w" using assms(3) by (intro mult_right_mono) simp_all
  then show "i * w < usize_bound" "a + i * w < usize_bound" using assms(1,2) by linarith+
qed

interpretation cqb: slot_table "cqb_entry_vaddr E" "\<lambda>b. r_start (cqb_virt b)" "\<lambda>b. r_end (cqb_virt b)"
  cqb_entry_count cqb_entry_bytes "cqb_ok E" for E
proof unfold_locales
  fix b :: command_queue_backing and i
  assume ok: "cqb_ok E b" and i: "i < cqb_entry_count b"
  have ext: "ext_ok E" using ok by (simp add: cqb_ok_def)
  have "i * cqb_entry_bytes b < usize_bound"
    "r_start (cqb_virt b) + i * cqb_entry_bytes b < usize_bound"
    using slot_offset_bound [of "r_start (cqb_virt b)" "cqb_entry_count b" "cqb_entry_bytes b"
        "r_end (cqb_virt b)" i] ok i by (auto simp: cqb_ok_def valid_range_def)
  then show "cqb_entry_vaddr E b i = Ok (r_start (cqb_virt b) + i * cqb_entry_bytes b)"
    by (simp add: cqb_entry_vaddr_def ext_ok_checked_add [OF ext] checked_mul_usize_def checked_add_usize_def)
qed (simp add: cqb_ok_def)

interpretation dtb: slot_table "dtb_entry_vaddr E w" "\<lambda>b. r_start (dtb_virt b)" "\<lambda>b. r_end (dtb_virt b)"
  dtb_entry_count "\<lambda>b. w" "dtb_ok E w" for E w
proof unfold_locales
  fix b :: descriptor_table_backing and i
  assume ok: "dtb_ok E w b" and i: "i < dtb_entry_count b"
  have ext: "ext_ok E" using ok by (simp add: dtb_ok_def)
  have "i * w < usize_bound" "r_start (dtb_virt b) + i * w < usize_bound"
    using slot_offset_bound [of "r_start (dtb_virt b)" "dtb_entry_count b" w "r_end (dtb_virt b)" i]
      ok i by (auto simp: dtb_ok_def valid_range_def)
  then show "dtb_entry_vaddr E w b i = Ok (r_start (dtb_virt b) + i * w)"
    using i by (simp add: dtb_entry_vaddr_def ext_ok_checked_add [OF ext] checked_mul_usize_def checked_add_usize_def)
qed (simp add: dtb_ok_def)

section \<open>Properties\<close>

text \<open>C28. A descriptor table that \<open>new_aligned\<close> accepts addresses its entries safely: every index
  below the entry count yields the address of a block of \<open>ENTRY_BYTES\<close> bytes inside the mapped
  range, blocks of different indices are disjoint, and every other index is refused with
  \<open>InvalidRange\<close>; no arithmetic overflows.\<close>

theorem dtb_entries_safe:
  assumes "ext_ok E" and "valid_range phys" and "valid_range virt"
    and "dtb_new_aligned E w phys virt n a = Ok b"
  shows "(if n \<le> i then dtb_entry_vaddr E w b i = Err ErrInvalidRange
      else \<exists>v. dtb_entry_vaddr E w b i = Ok v \<and> {v ..< v + w} \<subseteq> {r_start virt ..< r_end virt} \<and>
        (\<forall>j v'. j \<noteq> i \<longrightarrow> dtb_entry_vaddr E w b j = Ok v' \<longrightarrow> {v ..< v + w} \<inter> {v' ..< v' + w} = {}))"
proof -
  have b: "b = \<lparr>dtb_phys = phys, dtb_virt = virt, dtb_entry_count = n\<rparr>" and ok: "dtb_ok E w b"
    using iffD1 [OF dtb_new_aligned_Ok_iff [OF assms(1-3)] assms(4)] by blast+
  have cells: "j < n \<and> {v' ..< v' + w} = dtb.cells w b j" if "dtb_entry_vaddr E w b j = Ok v'" for j v'
  proof -
    have "j < n" using that b by (auto simp: dtb_entry_vaddr_def split: if_splits)
    then show ?thesis
      using that dtb.entry_addr_Ok [OF ok, of j] b by (simp add: dtb.cells_def)
  qed
  show ?thesis
  proof (cases "n \<le> i")
    case True
    then show ?thesis using b by (simp add: dtb_entry_vaddr_def)
  next
    case False
    then obtain v where v: "dtb_entry_vaddr E w b i = Ok v"
      using dtb.entry_addr_Ok [OF ok, of i] b by simp
    have i: "{v ..< v + w} = dtb.cells w b i" using cells [OF v] by blast
    have "{v ..< v + w} \<subseteq> {r_start virt ..< r_end virt}"
      using dtb.cells_in_range [OF ok, of i] cells [OF v] b by simp
    moreover have "{v ..< v + w} \<inter> {v' ..< v' + w} = {}"
      if "j \<noteq> i" "dtb_entry_vaddr E w b j = Ok v'" for j v'
      using cells [OF that(2)] i dtb.cells_disjoint [of i j w b] that(1) by simp
    ultimately show ?thesis using v False by auto
  qed
qed

lemma dtb_entries_safe_witness:
  "\<exists>b. dtb_new_aligned std_ext 16 \<lparr>r_start = 4096, r_end = 8192\<rparr> \<lparr>r_start = 65536, r_end = 69632\<rparr> 256 4096 = Ok b \<and>
     dtb_entry_vaddr std_ext 16 b 256 = Err ErrInvalidRange \<and> dtb_entry_vaddr std_ext 16 b 255 = Ok 69616"
proof -
  let ?b = "\<lparr>dtb_phys = \<lparr>r_start = 4096, r_end = 8192\<rparr>, dtb_virt = \<lparr>r_start = 65536, r_end = 69632\<rparr>,
    dtb_entry_count = 256\<rparr>"
  have v: "valid_range \<lparr>r_start = 4096, r_end = 8192\<rparr>" "valid_range \<lparr>r_start = 65536, r_end = 69632\<rparr>"
    by (simp_all add: valid_range_def usize_bound_def)
  have b: "dtb_new_aligned std_ext 16 \<lparr>r_start = 4096, r_end = 8192\<rparr> \<lparr>r_start = 65536, r_end = 69632\<rparr> 256 4096
      = Ok ?b"
    by (simp add: dtb_new_aligned_def std_ext_def is_power_of_two_def checked_mul_usize_def
        usize_bound_def wrapping_sub_usize_def)
  have "dtb_entry_vaddr std_ext 16 ?b 255 = Ok 69616"
    by (simp add: dtb_entry_vaddr_def std_ext_def checked_mul_usize_def checked_add_usize_def usize_bound_def)
  then show ?thesis
    using dtb_entries_safe [OF std_ext_ok v b, of 256] b by auto
qed

end
