(* ===== verification/Command_Queue.thy ===== *)
theory Command_Queue
  imports Backing
begin

text \<open>
  \<open>CommandQueue\<close> of \<open>src/ctrl.rs\<close>, as one caller executes it. The atomic counters and slot states
  are fields of a record; the closures of the caller (read the head register, write the tail
  register, check for errors) and the volatile byte store are operations on a state \<open>'h\<close> of the
  hardware and its memory, which may change with every register access. Each polling loop is a
  recursion on the number of polls left. The interleavings of several callers are the subject
  of the theory of concurrent submission.
\<close>

section \<open>State\<close>

definition COMMAND_QUEUE_POLL_LIMIT :: usize where "COMMAND_QUEUE_POLL_LIMIT = 1000000"
definition QUEUE_SLOT_EMPTY :: u8 where "QUEUE_SLOT_EMPTY = 0"
definition QUEUE_SLOT_WRITING :: u8 where "QUEUE_SLOT_WRITING = 1"
definition QUEUE_SLOT_READY :: u8 where "QUEUE_SLOT_READY = 2"
definition QUEUE_SLOT_PUBLISHED :: u8 where "QUEUE_SLOT_PUBLISHED = 3"

record command_queue =
  cq_backing :: "command_queue_backing option"
  cq_claim :: usize
  cq_committed :: usize
  cq_retired :: usize
  cq_slots :: "u8 list"

record 'h cq_hw =
  hw_read_head :: "(usize, error, 'h) st"
  hw_write_tail :: "usize \<Rightarrow> 'h \<Rightarrow> 'h"
  hw_check_error :: "(unit, error, 'h) st"
  hw_store :: "virt_addr \<Rightarrow> u8 \<Rightarrow> 'h \<Rightarrow> 'h"

definition cq_new :: "nat \<Rightarrow> command_queue" where
  "cq_new N = \<lparr>cq_backing = None, cq_claim = 0, cq_committed = 0, cq_retired = 0,
     cq_slots = replicate N QUEUE_SLOT_EMPTY\<rparr>"

definition cq_init :: "command_queue_backing \<Rightarrow> (unit, error, command_queue) st" where
  "cq_init b q =
     (if length (cq_slots q) = 0 \<or> length (cq_slots q) < cqb_entry_count b
      then (Err ErrInvalidRange, q)
      else (Ok (), \<lparr>cq_backing = Some b, cq_claim = 0, cq_committed = 0, cq_retired = 0,
        cq_slots = replicate (cqb_entry_count b) QUEUE_SLOT_EMPTY @ drop (cqb_entry_count b) (cq_slots q)\<rparr>))"

definition cq_is_active :: "command_queue \<Rightarrow> bool" where
  "cq_is_active q \<longleftrightarrow> cq_backing q \<noteq> None"

section \<open>Polling loops\<close>

fun wait_for_capacity_poll :: "nat \<Rightarrow> command_queue \<Rightarrow> usize \<Rightarrow> usize \<Rightarrow> unit result" where
  "wait_for_capacity_poll n q ticket entry_count =
     (if n = 0 then Err ControllerUnavailable
      else if wrapping_sub_usize ticket (cq_retired q) < entry_count then Ok ()
      else wait_for_capacity_poll (n - 1) q ticket entry_count)"

fun wait_for_empty_poll :: "nat \<Rightarrow> command_queue \<Rightarrow> usize \<Rightarrow> unit result" where
  "wait_for_empty_poll n q slot =
     (if n = 0 then Err ControllerUnavailable
      else res_bind (arr_get (cq_slots q) slot) (\<lambda>state.
        if state = QUEUE_SLOT_EMPTY then Ok () else wait_for_empty_poll (n - 1) q slot))"

fun wait_to_publish_poll :: "nat \<Rightarrow> command_queue \<Rightarrow> usize \<Rightarrow> unit result" where
  "wait_to_publish_poll n q ticket =
     (if n = 0 then Err ControllerUnavailable
      else if cq_committed q = ticket then Ok ()
      else wait_to_publish_poll (n - 1) q ticket)"

fun wait_for_consumed_poll :: "nat \<Rightarrow> 'h cq_hw \<Rightarrow> usize \<Rightarrow> usize \<Rightarrow> (unit, error, 'h) st" where
  "wait_for_consumed_poll n hw slot entry_bytes h =
     (if n = 0 then (Err ControllerUnavailable, h)
      else
        (case hw_read_head hw h of
           (Err e, h') \<Rightarrow> (Err e, h')
         | (Panic, h') \<Rightarrow> (Panic, h')
         | (Ok head, h') \<Rightarrow>
             if entry_bytes = 0 then (Panic, h')
             else if head div entry_bytes \<noteq> slot then (Ok (), h')
             else wait_for_consumed_poll (n - 1) hw slot entry_bytes h'))"

declare wait_for_capacity_poll.simps [simp del] wait_for_empty_poll.simps [simp del]
  wait_to_publish_poll.simps [simp del] wait_for_consumed_poll.simps [simp del]

definition wait_for_capacity :: "usize \<Rightarrow> usize \<Rightarrow> (unit, error, command_queue \<times> 'h) st" where
  "wait_for_capacity ticket entry_count =
     (\<lambda>(q, h). (wait_for_capacity_poll COMMAND_QUEUE_POLL_LIMIT q ticket entry_count, (q, h)))"

definition wait_for_empty :: "usize \<Rightarrow> (unit, error, command_queue \<times> 'h) st" where
  "wait_for_empty slot = (\<lambda>(q, h). (wait_for_empty_poll COMMAND_QUEUE_POLL_LIMIT q slot, (q, h)))"

definition wait_to_publish :: "usize \<Rightarrow> (unit, error, command_queue \<times> 'h) st" where
  "wait_to_publish ticket = (\<lambda>(q, h). (wait_to_publish_poll COMMAND_QUEUE_POLL_LIMIT q ticket, (q, h)))"

definition on_hw :: "('a, error, 'h) st \<Rightarrow> ('a, error, command_queue \<times> 'h) st" where
  "on_hw m = (\<lambda>(q, h). case m h of (r, h') \<Rightarrow> (r, (q, h')))"

definition wait_for_consumed :: "'h cq_hw \<Rightarrow> usize \<Rightarrow> usize \<Rightarrow> (unit, error, command_queue \<times> 'h) st" where
  "wait_for_consumed hw slot entry_bytes =
     on_hw (wait_for_consumed_poll COMMAND_QUEUE_POLL_LIMIT hw slot entry_bytes)"

section \<open>Submission\<close>

definition set_slot :: "usize \<Rightarrow> u8 \<Rightarrow> (unit, error, command_queue \<times> 'h) st" where
  "set_slot slot v =
     (\<lambda>(q, h). if slot < length (cq_slots q) then (Ok (), (q\<lparr>cq_slots := (cq_slots q)[slot := v]\<rparr>, h))
               else (Panic, (q, h)))"

fun store_bytes :: "'h cq_hw \<Rightarrow> virt_addr \<Rightarrow> u8 list \<Rightarrow> nat list \<Rightarrow> 'h \<Rightarrow> 'h" where
  "store_bytes hw base bytes [] h = h"
| "store_bytes hw base bytes (offset # offsets) h =
     store_bytes hw base bytes offsets
       (hw_store hw (base + offset) (case slice_get bytes offset of None \<Rightarrow> 0 | Some v \<Rightarrow> v) h)"

definition write_slot ::
    "ext_ops \<Rightarrow> 'h cq_hw \<Rightarrow> command_queue_backing \<Rightarrow> usize \<Rightarrow> u8 list \<Rightarrow> (unit, error, 'h) st" where
  "write_slot E hw b slot bytes =
     st_bind (st_lift (cqb_entry_vaddr E b slot)) (\<lambda>base.
     st_modify (store_bytes hw base bytes [0..<cqb_entry_bytes b]))"

definition cq_slot_of :: "usize \<Rightarrow> usize \<Rightarrow> usize" where
  "cq_slot_of ticket entry_count = ticket AND (entry_count - 1)"

definition cq_tail_after :: "command_queue_backing \<Rightarrow> usize \<Rightarrow> usize result" where
  "cq_tail_after b slot = mul_usize ((slot + 1) AND (cqb_entry_count b - 1)) (cqb_entry_bytes b)"

definition fetch_add_claim :: "(usize, error, command_queue \<times> 'h) st" where
  "fetch_add_claim = (\<lambda>(q, h). (Ok (cq_claim q), (q\<lparr>cq_claim := (cq_claim q + 1) mod usize_bound\<rparr>, h)))"

definition add_usize :: "usize \<Rightarrow> usize \<Rightarrow> usize result" where
  "add_usize a b = (if a + b < usize_bound then Ok (a + b) else Panic)"

definition advance_retired :: "usize \<Rightarrow> command_queue \<Rightarrow> command_queue" where
  "advance_retired nxt q = (if cq_retired q < nxt then q\<lparr>cq_retired := nxt\<rparr> else q)"

definition on_queue :: "(command_queue \<Rightarrow> command_queue) \<Rightarrow> (unit, error, command_queue \<times> 'h) st" where
  "on_queue f = st_modify (\<lambda>(q, h). (f q, h))"

definition cq_submit_at ::
    "ext_ops \<Rightarrow> 'h cq_hw \<Rightarrow> u8 list \<Rightarrow> command_queue_backing \<Rightarrow> (unit, error, command_queue \<times> 'h) st" where
  "cq_submit_at E hw bytes b =
     st_bind fetch_add_claim (\<lambda>ticket.
     st_then (wait_for_capacity ticket (cqb_entry_count b)) (
     let slot = cq_slot_of ticket (cqb_entry_count b) in
     st_then (wait_for_empty slot) (
     st_then (set_slot slot QUEUE_SLOT_WRITING) (
     st_then (on_hw (write_slot E hw b slot bytes)) (
     st_then (set_slot slot QUEUE_SLOT_READY) (
     st_then (wait_to_publish ticket) (
     st_bind (st_lift (cq_tail_after b slot)) (\<lambda>tail.
     st_then (on_hw (st_modify (hw_write_tail hw tail))) (
     st_then (set_slot slot QUEUE_SLOT_PUBLISHED) (
     st_bind (st_lift (add_usize ticket 1)) (\<lambda>nxt.
     st_then (on_queue (cq_committed_update (\<lambda>_. nxt))) (
     st_then (wait_for_consumed hw slot (cqb_entry_bytes b)) (
     st_then (on_hw (hw_check_error hw)) (
     st_then (set_slot slot QUEUE_SLOT_EMPTY) (
     on_queue (advance_retired nxt))))))))))))))))"

definition cq_submit ::
    "ext_ops \<Rightarrow> 'h cq_hw \<Rightarrow> u8 list \<Rightarrow> (unit, error, command_queue \<times> 'h) st" where
  "cq_submit E hw bytes = (\<lambda>(q, h).
     case cq_backing q of
       None \<Rightarrow> (Err ControllerUnavailable, (q, h))
     | Some b \<Rightarrow>
         if length bytes = 0 \<or> \<not> is_power_of_two (length bytes) \<or> cqb_entry_bytes b < length bytes
         then (Err InvalidGranule, (q, h))
         else cq_submit_at E hw bytes b (q, h))"

section \<open>The loops with nobody else at work\<close>

lemma wait_for_capacity_poll_eq:
  "wait_for_capacity_poll n q ticket c =
     (if 0 < n \<and> wrapping_sub_usize ticket (cq_retired q) < c then Ok () else Err ControllerUnavailable)"
  by (induction n) (simp_all add: wait_for_capacity_poll.simps)

lemma wait_for_empty_poll_eq:
  "slot < length (cq_slots q) \<Longrightarrow> wait_for_empty_poll n q slot =
     (if 0 < n \<and> cq_slots q ! slot = QUEUE_SLOT_EMPTY then Ok () else Err ControllerUnavailable)"
  by (induction n) (simp_all add: wait_for_empty_poll.simps)

lemma wait_to_publish_poll_eq:
  "wait_to_publish_poll n q ticket =
     (if 0 < n \<and> cq_committed q = ticket then Ok () else Err ControllerUnavailable)"
  by (induction n) (simp_all add: wait_to_publish_poll.simps)

lemma poll_limit_pos [simp]: "0 < COMMAND_QUEUE_POLL_LIMIT"
  by (simp add: COMMAND_QUEUE_POLL_LIMIT_def)

lemma wait_for_capacity_eq:
  "wait_for_capacity ticket c (q, h) =
     (if wrapping_sub_usize ticket (cq_retired q) < c then Ok () else Err ControllerUnavailable, (q, h))"
  by (simp add: wait_for_capacity_def wait_for_capacity_poll_eq)

lemma wait_for_empty_eq:
  "slot < length (cq_slots q) \<Longrightarrow> wait_for_empty slot (q, h) =
     (if cq_slots q ! slot = QUEUE_SLOT_EMPTY then Ok () else Err ControllerUnavailable, (q, h))"
  by (simp add: wait_for_empty_def wait_for_empty_poll_eq)

lemma wait_to_publish_eq:
  "wait_to_publish ticket (q, h) =
     (if cq_committed q = ticket then Ok () else Err ControllerUnavailable, (q, h))"
  by (simp add: wait_to_publish_def wait_to_publish_poll_eq)

lemma cq_slot_of_mod: "is_power_of_two c \<Longrightarrow> cq_slot_of ticket c = ticket mod c"
  using and_mask_nat by (auto simp: is_power_of_two_iff cq_slot_of_def)

lemma is_power_of_two_pos: "is_power_of_two n \<Longrightarrow> 0 < n"
  by (auto simp: is_power_of_two_iff)

section \<open>A submission by the only caller\<close>

text \<open>
  The queue holds an accepted ring, and the ticket counter is not about to wrap. \<open>between\<close> adds
  that no submission is under way: the three counters agree.
\<close>

definition cq_wf :: "ext_ops \<Rightarrow> command_queue_backing \<Rightarrow> command_queue \<Rightarrow> bool" where
  "cq_wf E b q \<longleftrightarrow>
     cq_backing q = Some b \<and> cqb_ok E b \<and> cqb_entry_count b \<le> length (cq_slots q) \<and>
     cq_claim q + 1 < usize_bound"

definition between :: "command_queue \<Rightarrow> bool" where
  "between q \<longleftrightarrow> cq_committed q = cq_claim q \<and> cq_retired q = cq_claim q"

definition valid_command :: "command_queue_backing \<Rightarrow> u8 list \<Rightarrow> bool" where
  "valid_command b bytes \<longleftrightarrow>
     length bytes \<noteq> 0 \<and> is_power_of_two (length bytes) \<and> length bytes \<le> cqb_entry_bytes b"

definition next_slot :: "command_queue_backing \<Rightarrow> command_queue \<Rightarrow> usize" where
  "next_slot b q = cq_claim q mod cqb_entry_count b"

text \<open>The hardware and its memory after the command is in the ring and the tail is written.\<close>

definition hw_published ::
    "'h cq_hw \<Rightarrow> command_queue_backing \<Rightarrow> command_queue \<Rightarrow> u8 list \<Rightarrow> 'h \<Rightarrow> 'h" where
  "hw_published hw b q bytes h =
     hw_write_tail hw ((cq_claim q + 1) mod cqb_entry_count b * cqb_entry_bytes b)
       (store_bytes hw (r_start (cqb_virt b) + next_slot b q * cqb_entry_bytes b) bytes
          [0..<cqb_entry_bytes b] h)"

definition q_published :: "command_queue_backing \<Rightarrow> command_queue \<Rightarrow> command_queue" where
  "q_published b q = q\<lparr>cq_claim := cq_claim q + 1, cq_committed := cq_claim q + 1,
     cq_slots := (cq_slots q)[next_slot b q := QUEUE_SLOT_PUBLISHED]\<rparr>"

definition q_retired :: "command_queue \<Rightarrow> command_queue" where
  "q_retired q = q\<lparr>cq_claim := cq_claim q + 1, cq_committed := cq_claim q + 1,
     cq_retired := cq_claim q + 1\<rparr>"

lemma cqb_ok_pos: "cqb_ok E b \<Longrightarrow> 0 < cqb_entry_count b \<and> 0 < cqb_entry_bytes b"
  by (auto simp: cqb_ok_def dest: is_power_of_two_pos)

lemma next_slot_less: "cq_wf E b q \<Longrightarrow> next_slot b q < cqb_entry_count b"
  using cqb_ok_pos [of E b] by (simp add: cq_wf_def next_slot_def)

lemma cq_tail_after_next:
  assumes "cq_wf E b q"
  shows "cq_tail_after b (next_slot b q) = Ok ((cq_claim q + 1) mod cqb_entry_count b * cqb_entry_bytes b)"
proof -
  have ok: "cqb_ok E b" using assms by (simp add: cq_wf_def)
  let ?n = "cqb_entry_count b" and ?w = "cqb_entry_bytes b"
  have "(next_slot b q + 1) AND (?n - 1) = (cq_claim q + 1) mod ?n"
    using cq_slot_of_mod [of ?n] ok by (simp add: cqb_ok_def cq_slot_of_def next_slot_def mod_Suc_eq)
  moreover have "(cq_claim q + 1) mod ?n \<le> ?n"
    using cqb_ok_pos [OF ok] by (simp add: less_imp_le)
  then have "(cq_claim q + 1) mod ?n * ?w \<le> ?n * ?w" by (rule mult_right_mono) simp
  moreover have "?n * ?w < usize_bound"
    using ok unfolding cqb_ok_def valid_range_def by linarith
  ultimately have "(cq_claim q + 1) mod ?n * ?w < usize_bound" by linarith
  with \<open>(next_slot b q + 1) AND (?n - 1) = (cq_claim q + 1) mod ?n\<close>
  show ?thesis by (simp add: cq_tail_after_def mul_usize_def)
qed

lemma write_slot_next:
  assumes "cq_wf E b q"
  shows "write_slot E hw b (next_slot b q) bytes h =
    (Ok (), store_bytes hw (r_start (cqb_virt b) + next_slot b q * cqb_entry_bytes b) bytes
       [0..<cqb_entry_bytes b] h)"
  using cqb.entry_addr_Ok [of E b "next_slot b q"] next_slot_less [OF assms] assms
  by (simp add: write_slot_def cq_wf_def)

lemma cq_submit_eq:
  assumes "cq_wf E b q" and "between q" and "valid_command b bytes"
    and "cq_slots q ! next_slot b q = QUEUE_SLOT_EMPTY"
  shows "cq_submit E hw bytes (q, h) =
    (case wait_for_consumed_poll COMMAND_QUEUE_POLL_LIMIT hw (next_slot b q) (cqb_entry_bytes b)
        (hw_published hw b q bytes h) of
       (Ok _, h') \<Rightarrow>
         (case hw_check_error hw h' of
            (Ok _, h'') \<Rightarrow> (Ok (), (q_retired q, h''))
          | (Err e, h'') \<Rightarrow> (Err e, (q_published b q, h''))
          | (Panic, h'') \<Rightarrow> (Panic, (q_published b q, h'')))
     | (Err e, h') \<Rightarrow> (Err e, (q_published b q, h'))
     | (Panic, h') \<Rightarrow> (Panic, (q_published b q, h')))"
proof -
  let ?t = "cq_claim q" and ?s = "next_slot b q" and ?n = "cqb_entry_count b"
  have b: "cq_backing q = Some b" "cqb_ok E b" "?n \<le> length (cq_slots q)" "?t + 1 < usize_bound"
    using assms(1) by (simp_all add: cq_wf_def)
  have s: "?s < length (cq_slots q)" "cq_slot_of ?t ?n = ?s"
    using next_slot_less [OF assms(1)] b cq_slot_of_mod [of ?n] by (simp_all add: next_slot_def cqb_ok_def)
  have pos: "0 < ?n" using cqb_ok_pos [OF b(2)] by simp
  have wrap: "wrapping_sub_usize ?t ?t = 0" using b(4) by (simp add: wrapping_sub_usize_le)
  have cmd: "\<not> (length bytes = 0 \<or> \<not> is_power_of_two (length bytes) \<or> cqb_entry_bytes b < length bytes)"
    using assms(3) by (simp add: valid_command_def)
  have cnt: "cq_committed q = ?t" "cq_retired q = ?t" using assms(2) by (simp_all add: between_def)
  have same: "(cq_slots q)[?s := QUEUE_SLOT_EMPTY] = cq_slots q"
    using assms(4) by (metis list_update_id)
  have tail: "cq_tail_after b ?s = Ok (Suc ?t mod ?n * cqb_entry_bytes b)"
    using cq_tail_after_next [OF assms(1)] by simp
  have wr: "write_slot E hw b ?s bytes h = (Ok (), store_bytes hw
      (r_start (cqb_virt b) + ?s * cqb_entry_bytes b) bytes [0..<cqb_entry_bytes b] h)"
    by (rule write_slot_next [OF assms(1)])
  show ?thesis
    using b s cmd cnt pos wrap assms(4) tail wr
    by (simp add: cq_submit_def cq_submit_at_def st_then_def st_bind_def fetch_add_claim_def
        wait_for_capacity_eq wait_for_empty_eq set_slot_def on_hw_def wait_to_publish_eq add_usize_def
        on_queue_def wait_for_consumed_def hw_published_def q_published_def q_retired_def
        advance_retired_def Let_def same split: prod.splits res.splits)
qed

section \<open>Queues in which a submission failed\<close>

text \<open>
  What every submission of a valid command does to the counters and the slots, whatever the
  hardware answers: a ticket is spent, a slot that is not empty stays so, and success needs an
  empty slot and a committed counter that has caught up with the claimed tickets.
\<close>

definition cq_step_facts ::
    "command_queue_backing \<Rightarrow> command_queue \<Rightarrow> unit result \<Rightarrow> command_queue \<Rightarrow> bool" where
  "cq_step_facts b q r q' \<longleftrightarrow>
     cq_backing q' = cq_backing q \<and> length (cq_slots q') = length (cq_slots q) \<and>
     cq_claim q' = cq_claim q + 1 \<and> cq_committed q' \<le> cq_claim q' \<and>
     (\<forall>i < length (cq_slots q). cq_slots q ! i \<noteq> QUEUE_SLOT_EMPTY \<longrightarrow> cq_slots q' ! i \<noteq> QUEUE_SLOT_EMPTY) \<and>
     (r = Ok () \<longrightarrow> cq_committed q = cq_claim q) \<and>
     (cq_committed q = cq_claim q \<and> cq_slots q ! next_slot b q = QUEUE_SLOT_EMPTY \<or>
        cq_committed q' < cq_claim q' \<and> r \<noteq> Ok ())"

lemma slot_constants [simp]:
  "QUEUE_SLOT_WRITING \<noteq> QUEUE_SLOT_EMPTY" "QUEUE_SLOT_READY \<noteq> QUEUE_SLOT_EMPTY"
  "QUEUE_SLOT_PUBLISHED \<noteq> QUEUE_SLOT_EMPTY"
  by (simp_all add: QUEUE_SLOT_EMPTY_def QUEUE_SLOT_WRITING_def QUEUE_SLOT_READY_def
      QUEUE_SLOT_PUBLISHED_def)

lemma cq_submit_step:
  assumes wf: "cq_wf E b q" and cmd: "valid_command b bytes" and le: "cq_committed q \<le> cq_claim q"
    and run: "cq_submit E hw bytes (q, h) = (r, (q', h'))"
  shows "cq_step_facts b q r q'"
proof -
  let ?t = "cq_claim q" and ?s = "next_slot b q" and ?n = "cqb_entry_count b"
  have b: "cq_backing q = Some b" "cqb_ok E b" "?n \<le> length (cq_slots q)" "?t + 1 < usize_bound"
    using wf by (simp_all add: cq_wf_def)
  have s: "?s < length (cq_slots q)" "cq_slot_of ?t ?n = ?s"
    using next_slot_less [OF wf] b cq_slot_of_mod [of ?n] by (simp_all add: next_slot_def cqb_ok_def)
  have ncmd: "\<not> (length bytes = 0 \<or> \<not> is_power_of_two (length bytes) \<or> cqb_entry_bytes b < length bytes)"
    using cmd by (simp add: valid_command_def)
  have tail: "cq_tail_after b ?s = Ok (Suc ?t mod ?n * cqb_entry_bytes b)"
    using cq_tail_after_next [OF wf] by simp
  have wr: "write_slot E hw b ?s bytes h = (Ok (), store_bytes hw
      (r_start (cqb_virt b) + ?s * cqb_entry_bytes b) bytes [0..<cqb_entry_bytes b] h)"
    by (rule write_slot_next [OF wf])
  note simps = cq_submit_def cq_submit_at_def st_then_def st_bind_def fetch_add_claim_def
    wait_for_capacity_eq wait_for_empty_eq set_slot_def on_hw_def wait_to_publish_eq add_usize_def
    on_queue_def wait_for_consumed_def advance_retired_def Let_def
  show ?thesis
    using run b s ncmd tail wr le
    by (auto simp: simps cq_step_facts_def nth_list_update split: prod.splits res.splits if_splits)
qed

fun cq_run :: "ext_ops \<Rightarrow> 'h cq_hw \<Rightarrow> u8 list list \<Rightarrow> command_queue \<times> 'h \<Rightarrow> unit result list" where
  "cq_run E hw [] s = []"
| "cq_run E hw (c # cs) s = (case cq_submit E hw c s of (r, s') \<Rightarrow> r # cq_run E hw cs s')"

text \<open>The tickets before the ring comes round to slot \<open>d\<close>.\<close>

definition tickets_before :: "command_queue_backing \<Rightarrow> usize \<Rightarrow> command_queue \<Rightarrow> nat" where
  "tickets_before b d q =
     (if cq_committed q < cq_claim q then 0
      else if next_slot b q \<le> d then d - next_slot b q
      else d + cqb_entry_count b - next_slot b q)"

lemma cq_run_dead_slot:
  assumes "cq_wf E b q" and "cq_committed q \<le> cq_claim q" and "d < cqb_entry_count b"
    and "cq_slots q ! d \<noteq> QUEUE_SLOT_EMPTY" and "\<forall>c \<in> set cmds. valid_command b c"
    and "cq_claim q + length cmds + 1 < usize_bound"
  shows "length (filter (\<lambda>r. r = Ok ()) (cq_run E hw cmds (q, h))) \<le> tickets_before b d q"
  using assms
proof (induction cmds arbitrary: q h)
  case (Cons c cs)
  obtain r q' h' where run: "cq_submit E hw c (q, h) = (r, (q', h'))"
    by (metis prod.collapse)
  have facts: "cq_step_facts b q r q'"
    using cq_submit_step [OF Cons.prems(1) _ Cons.prems(2) run] Cons.prems(5) by simp
  have len: "d < length (cq_slots q)" using Cons.prems(1,3) by (simp add: cq_wf_def)
  have wf': "cq_wf E b q'"
    using facts Cons.prems(1,6) by (simp add: cq_step_facts_def cq_wf_def)
  have IH: "length (filter (\<lambda>r. r = Ok ()) (cq_run E hw cs (q', h'))) \<le> tickets_before b d q'"
    using Cons.prems facts len by (intro Cons.IH wf') (auto simp: cq_step_facts_def)
  have nxt: "next_slot b q' = (if Suc (next_slot b q) = cqb_entry_count b then 0 else Suc (next_slot b q))"
    using facts by (simp add: next_slot_def cq_step_facts_def mod_Suc)
  have ne: "next_slot b q \<noteq> d" if "r = Ok ()"
    using that facts Cons.prems(4) by (auto simp: cq_step_facts_def)
  show ?case
  proof (cases "r = Ok ()")
    case True
    then have "Suc (tickets_before b d q') \<le> tickets_before b d q"
      using facts nxt ne next_slot_less [OF Cons.prems(1)] Cons.prems(3)
      by (auto simp: tickets_before_def cq_step_facts_def split: if_splits)
    then show ?thesis using IH run True by simp
  next
    case False
    then have "tickets_before b d q' \<le> tickets_before b d q"
      using facts nxt next_slot_less [OF Cons.prems(1)] Cons.prems(2,3,4)
      by (cases "cq_committed q < cq_claim q"; cases "next_slot b q = d")
        (auto simp: tickets_before_def cq_step_facts_def split: if_splits)
    then show ?thesis using IH run False by simp
  qed
qed simp

section \<open>What the ring memory holds\<close>

text \<open>
  For hardware whose memory \<open>mem\<close> a byte store updates at one address: the slot holds the command,
  padded with zeros to the entry width, and every other byte is unchanged.
\<close>

lemma store_bytes_mem:
  assumes "\<And>h a v. mem (hw_store hw a v h) = (mem h)(a := v)" and "distinct offsets"
  shows "mem (store_bytes hw base bytes offsets h) x =
    (if base \<le> x \<and> x - base \<in> set offsets
     then (if x - base < length bytes then bytes ! (x - base) else 0) else mem h x)"
  using assms(2)
  by (induction offsets arbitrary: h) (auto simp: assms(1) slice_get_def)

section \<open>Properties\<close>

text \<open>C14. A valid command submitted when no other submission is under way and its slot is empty is
  written to the slot of its ticket (zero-padded), the tail register is set to the byte offset
  of the slot after it modulo the ring, and then the outcome is that of waiting for the head to
  move and of the error check: success advances the three counters by one and leaves all slots
  as they were; a timeout or an error leaves the ticket committed but not retired and the slot
  marked as published. No step of it panics by itself.\<close>

theorem cq_submit_alone:
  assumes "cq_wf E b q" and "between q" and "valid_command b bytes"
    and "cq_slots q ! next_slot b q = QUEUE_SLOT_EMPTY"
  shows "cq_submit E hw bytes (q, h) =
    (case wait_for_consumed_poll COMMAND_QUEUE_POLL_LIMIT hw (next_slot b q) (cqb_entry_bytes b)
        (hw_published hw b q bytes h) of
       (Ok _, h') \<Rightarrow>
         (case hw_check_error hw h' of
            (Ok _, h'') \<Rightarrow> (Ok (), (q_retired q, h''))
          | (Err e, h'') \<Rightarrow> (Err e, (q_published b q, h''))
          | (Panic, h'') \<Rightarrow> (Panic, (q_published b q, h'')))
     | (Err e, h') \<Rightarrow> (Err e, (q_published b q, h'))
     | (Panic, h') \<Rightarrow> (Panic, (q_published b q, h')))"
  by (rule cq_submit_eq [OF assms])

text \<open>A device that consumes a command as soon as the tail moves, with its byte memory.\<close>

record wit_device =
  wd_mem :: "nat \<Rightarrow> u8"
  wd_head :: usize

definition wit_hw :: "wit_device cq_hw" where
  "wit_hw = \<lparr>hw_read_head = st_gets wd_head, hw_write_tail = (\<lambda>tail. wd_head_update (\<lambda>_. tail)),
     hw_check_error = st_ret (), hw_store = (\<lambda>a v. wd_mem_update (\<lambda>m. m(a := v)))\<rparr>"

text \<open>A device whose head register never moves.\<close>

definition wit_stuck_hw :: "wit_device cq_hw" where
  "wit_stuck_hw = wit_hw\<lparr>hw_read_head := st_err InvalidController\<rparr>"

definition wit_backing :: command_queue_backing where
  "wit_backing = \<lparr>cqb_phys = \<lparr>r_start = 4096, r_end = 8192\<rparr>, cqb_virt = \<lparr>r_start = 65536, r_end = 69632\<rparr>,
     cqb_entry_count = 4, cqb_entry_bytes = 16\<rparr>"

definition wit_queue :: command_queue where
  "wit_queue = \<lparr>cq_backing = Some wit_backing, cq_claim = 7, cq_committed = 7, cq_retired = 7,
     cq_slots = replicate 4 QUEUE_SLOT_EMPTY\<rparr>"

lemma wit_backing_ok: "cqb_ok std_ext wit_backing"
  by (simp add: cqb_ok_def wit_backing_def valid_range_def usize_bound_def is_power_of_two_def std_ext_ok)

lemma wit_queue_ok: "cq_wf std_ext wit_backing wit_queue" "between wit_queue"
  "cq_slots wit_queue ! next_slot wit_backing wit_queue = QUEUE_SLOT_EMPTY"
  "next_slot wit_backing wit_queue = 3"
  using wit_backing_ok
  by (simp_all add: cq_wf_def wit_queue_def between_def next_slot_def usize_bound_def)
    (simp_all add: wit_backing_def nth_Cons')

lemma wit_command: "valid_command wit_backing [1, 2, 3, 4, 5, 6, 7, 8]"
proof -
  have "length [1, 2, 3, 4, 5, 6, 7, 8 :: u8] = 2 ^ 3" by simp
  then show ?thesis
    unfolding valid_command_def wit_backing_def by (simp only: is_power_of_two_power) simp
qed

lemma cq_submit_alone_witness:
  "\<exists>h'. cq_submit std_ext wit_hw [1, 2, 3, 4, 5, 6, 7, 8] (wit_queue, \<lparr>wd_mem = (\<lambda>_. 255), wd_head = 48\<rparr>) =
     (Ok (), (wit_queue\<lparr>cq_claim := 8, cq_committed := 8, cq_retired := 8\<rparr>, h')) \<and>
     wd_head h' = 0 \<and> wd_mem h' 65591 = 8 \<and> wd_mem h' 65592 = 0 \<and> wd_mem h' 65583 = 255"
proof -
  let ?h = "\<lparr>wd_mem = (\<lambda>_. 255), wd_head = 48\<rparr> :: wit_device"
  let ?m = "store_bytes wit_hw 65584 [1, 2, 3, 4, 5, 6, 7, 8] [0..<16] ?h"
  have pub: "hw_published wit_hw wit_backing wit_queue [1, 2, 3, 4, 5, 6, 7, 8] ?h = ?m\<lparr>wd_head := 0\<rparr>"
    by (simp add: hw_published_def wit_queue_ok) (simp add: wit_hw_def wit_queue_def wit_backing_def)
  have poll: "wait_for_consumed_poll COMMAND_QUEUE_POLL_LIMIT wit_hw 3 16 (?m\<lparr>wd_head := 0\<rparr>) = (Ok (), ?m\<lparr>wd_head := 0\<rparr>)"
    by (subst wait_for_consumed_poll.simps) (simp add: wit_hw_def COMMAND_QUEUE_POLL_LIMIT_def)
  have ext: "cqb_entry_bytes wit_backing = 16" "hw_check_error wit_hw = st_ret ()"
    "q_retired wit_queue = wit_queue\<lparr>cq_claim := 8, cq_committed := 8, cq_retired := 8\<rparr>"
    by (simp_all add: wit_backing_def wit_hw_def q_retired_def wit_queue_def)
  have sub: "cq_submit std_ext wit_hw [1, 2, 3, 4, 5, 6, 7, 8] (wit_queue, ?h) =
      (Ok (), (wit_queue\<lparr>cq_claim := 8, cq_committed := 8, cq_retired := 8\<rparr>, ?m\<lparr>wd_head := 0\<rparr>))"
    using cq_submit_alone [OF wit_queue_ok(1,2) wit_command wit_queue_ok(3), of wit_hw ?h]
    by (simp only: pub wit_queue_ok(4) ext poll) simp
  have mem: "wd_mem ?m x = (if 65584 \<le> x \<and> x - 65584 < 16
      then (if x - 65584 < 8 then [1, 2, 3, 4, 5, 6, 7, 8] ! (x - 65584) else 0) else 255)" for x
    by (subst store_bytes_mem [where mem = wd_mem]) (auto simp: wit_hw_def)
  show ?thesis
    using sub by (auto simp: mem)
qed

text \<open>C15. One failed submission disables the queue for good. After a submission that was alone in
  the queue and returned an error (the head register did not move within the polling limit,
  could not be read, or the error check failed), fewer than \<open>entry_count\<close> of any number of later
  submissions succeed, whatever the hardware does: the slot stays published, the first command
  that needs it times out, and its ticket is never committed.\<close>

theorem cq_failure_disables:
  assumes "cq_wf E b q" and "between q" and "valid_command b bytes"
    and "cq_slots q ! next_slot b q = QUEUE_SLOT_EMPTY"
    and "cq_submit E hw bytes (q, h) = (Err e, (q', h'))"
    and "\<forall>c \<in> set cmds. valid_command b c" and "cq_claim q + length cmds + 2 < usize_bound"
  shows "length (filter (\<lambda>r. r = Ok ()) (cq_run E hw' cmds (q', h''))) < cqb_entry_count b"
proof -
  have q': "q' = q_published b q"
    using assms(5) unfolding cq_submit_eq [OF assms(1-4)] by (auto split: prod.splits res.splits)
  have s: "next_slot b q < cqb_entry_count b" "next_slot b q < length (cq_slots q)"
    using next_slot_less [OF assms(1)] assms(1) by (simp_all add: cq_wf_def)
  have "length (filter (\<lambda>r. r = Ok ()) (cq_run E hw' cmds (q', h''))) \<le> tickets_before b (next_slot b q) q'"
    using assms(1,6,7) s by (intro cq_run_dead_slot [of E]) (simp_all add: q' q_published_def cq_wf_def)
  also have "\<dots> < cqb_entry_count b"
    using s by (auto simp: tickets_before_def q' q_published_def next_slot_def mod_Suc)
  finally show ?thesis .
qed

lemma cq_failure_disables_witness:
  "\<exists>q'. fst (cq_submit std_ext wit_stuck_hw [1, 2, 3, 4, 5, 6, 7, 8] (wit_queue, \<lparr>wd_mem = (\<lambda>_. 0), wd_head = 48\<rparr>))
       = Err InvalidController \<and>
     length (filter (\<lambda>r. r = Ok ()) (cq_run std_ext wit_hw (replicate 100 [1, 2, 3, 4, 5, 6, 7, 8])
       (q', \<lparr>wd_mem = (\<lambda>_. 0), wd_head = 0\<rparr>))) < 4"
proof -
  let ?h = "\<lparr>wd_mem = (\<lambda>_. 0), wd_head = 48\<rparr> :: wit_device"
  have poll: "wait_for_consumed_poll COMMAND_QUEUE_POLL_LIMIT wit_stuck_hw s w d = (Err InvalidController, d)" for s w d
    by (subst wait_for_consumed_poll.simps) (simp add: wit_stuck_hw_def COMMAND_QUEUE_POLL_LIMIT_def)
  obtain d where "cq_submit std_ext wit_stuck_hw [1, 2, 3, 4, 5, 6, 7, 8] (wit_queue, ?h) =
      (Err InvalidController, (q_published wit_backing wit_queue, d))"
    using cq_submit_eq [OF wit_queue_ok(1,2) wit_command wit_queue_ok(3), of wit_stuck_hw ?h]
    by (simp add: poll)
  then show ?thesis
    using cq_failure_disables [OF wit_queue_ok(1,2) wit_command wit_queue_ok(3), of wit_stuck_hw ?h _ _ _
        "replicate 100 [1, 2, 3, 4, 5, 6, 7, 8]" wit_hw] wit_command
    by (force simp: wit_queue_def wit_backing_def usize_bound_def)
qed

end
