(* ===== verification/Queue_Concurrent.thy ===== *)
theory Queue_Concurrent
  imports Command_Queue
begin

text \<open>
  \<open>CommandQueue::submit\<close> with many callers: every atomic access of the source is one step of a
  thread, threads and hardware interleave arbitrarily, and a polling loop may give up at any
  poll. A thread submits one command, named by its ticket. Accesses are sequentially
  consistent, which the acquire and release orderings of the source give for each of the
  hand-overs it relies on. Fewer than \<open>2 ^ 64\<close> submissions are made.
\<close>

section \<open>The transition system\<close>

datatype stage =
    Claimed | HasCapacity | HasSlot | Writing | Written | Ready | MayPublish | TailSet
  | Marked | Committed | Consumed | Released | Retiring nat | Finished | Failed

record conc =
  k_claim :: nat
  k_committed :: nat
  k_retired :: nat
  k_slot :: "nat \<Rightarrow> u8"
  k_ring :: "nat \<Rightarrow> nat option"
  k_tail :: nat
  k_head :: nat
  k_log :: "nat list"
  k_executed :: "nat option list"
  k_pc :: "nat \<Rightarrow> (stage \<times> nat) option"

text \<open>
  \<open>k_ring\<close> is the command in each slot, \<open>k_tail\<close> and \<open>k_head\<close> the registers as slot numbers.
  \<open>k_log\<close> records the tickets in the order of the tail writes and \<open>k_executed\<close> the slot contents
  the hardware consumed: they are not read by any step.
\<close>

definition k_init :: conc where
  "k_init = \<lparr>k_claim = 0, k_committed = 0, k_retired = 0, k_slot = (\<lambda>_. QUEUE_SLOT_EMPTY),
     k_ring = (\<lambda>_. None), k_tail = 0, k_head = 0, k_log = [], k_executed = [], k_pc = (\<lambda>_. None)\<rparr>"

definition k_goto :: "nat \<Rightarrow> stage \<Rightarrow> nat \<Rightarrow> conc \<Rightarrow> conc" where
  "k_goto i g t s = s\<lparr>k_pc := (k_pc s)(i := Some (g, t))\<rparr>"

definition k_set_slot :: "nat \<Rightarrow> u8 \<Rightarrow> conc \<Rightarrow> conc" where
  "k_set_slot x v s = s\<lparr>k_slot := (k_slot s)(x := v)\<rparr>"

fun thread_at :: "nat \<Rightarrow> nat \<Rightarrow> stage \<Rightarrow> nat \<Rightarrow> conc \<Rightarrow> conc" where
  "thread_at n i Claimed t s =
     (if wrapping_sub_usize t (k_retired s) < n then k_goto i HasCapacity t s else s)"
| "thread_at n i HasCapacity t s =
     (if k_slot s (cq_slot_of t n) = QUEUE_SLOT_EMPTY then k_goto i HasSlot t s else s)"
| "thread_at n i HasSlot t s = k_goto i Writing t (k_set_slot (cq_slot_of t n) QUEUE_SLOT_WRITING s)"
| "thread_at n i Writing t s = k_goto i Written t (s\<lparr>k_ring := (k_ring s)(cq_slot_of t n := Some t)\<rparr>)"
| "thread_at n i Written t s = k_goto i Ready t (k_set_slot (cq_slot_of t n) QUEUE_SLOT_READY s)"
| "thread_at n i Ready t s = (if k_committed s = t then k_goto i MayPublish t s else s)"
| "thread_at n i MayPublish t s =
     k_goto i TailSet t (s\<lparr>k_tail := cq_slot_of (cq_slot_of t n + 1) n, k_log := k_log s @ [t]\<rparr>)"
| "thread_at n i TailSet t s = k_goto i Marked t (k_set_slot (cq_slot_of t n) QUEUE_SLOT_PUBLISHED s)"
| "thread_at n i Marked t s = k_goto i Committed t (s\<lparr>k_committed := t + 1\<rparr>)"
| "thread_at n i Committed t s =
     (if k_head s \<noteq> cq_slot_of t n then k_goto i Consumed t s else s)"
| "thread_at n i Consumed t s = k_goto i Released t (k_set_slot (cq_slot_of t n) QUEUE_SLOT_EMPTY s)"
| "thread_at n i Released t s = k_goto i (Retiring (k_retired s)) t s"
| "thread_at n i (Retiring cur) t s =
     (if \<not> cur < t + 1 then k_goto i Finished t s
      else if k_retired s = cur then k_goto i Finished t (s\<lparr>k_retired := t + 1\<rparr>)
      else k_goto i (Retiring (k_retired s)) t s)"
| "thread_at n i Finished t s = s"
| "thread_at n i Failed t s = s"

datatype event = Enter nat | Run nat | GiveUp nat | Hardware

definition may_fail :: "stage \<Rightarrow> bool" where
  "may_fail g \<longleftrightarrow> g \<in> {Claimed, HasCapacity, Ready, Committed, Consumed}"

fun k_next :: "nat \<Rightarrow> event \<Rightarrow> conc \<Rightarrow> conc option" where
  "k_next n (Enter i) s =
     (if k_pc s i = None \<and> k_claim s + 1 < usize_bound
      then Some (k_goto i Claimed (k_claim s) (s\<lparr>k_claim := k_claim s + 1\<rparr>)) else None)"
| "k_next n (Run i) s =
     (case k_pc s i of None \<Rightarrow> None | Some (g, t) \<Rightarrow> Some (thread_at n i g t s))"
| "k_next n (GiveUp i) s =
     (case k_pc s i of None \<Rightarrow> None
      | Some (g, t) \<Rightarrow> if may_fail g then Some (k_goto i Failed t s) else None)"
| "k_next n Hardware s =
     (if k_head s \<noteq> k_tail s
      then Some (s\<lparr>k_executed := k_executed s @ [k_ring s (k_head s)],
                   k_head := cq_slot_of (k_head s + 1) n\<rparr>)
      else None)"

inductive reach :: "nat \<Rightarrow> conc \<Rightarrow> bool" for n where
  reach_init: "reach n k_init"
| reach_step: "reach n s \<Longrightarrow> k_next n e s = Some s' \<Longrightarrow> reach n s'"

section \<open>Invariants\<close>

fun rank :: "stage \<Rightarrow> nat" where
  "rank Claimed = 1" | "rank HasCapacity = 2" | "rank HasSlot = 3" | "rank Writing = 4"
| "rank Written = 5" | "rank Ready = 6" | "rank MayPublish = 7" | "rank TailSet = 8"
| "rank Marked = 9" | "rank Committed = 10" | "rank Consumed = 11" | "rank Released = 12"
| "rank (Retiring c) = 13" | "rank Finished = 14" | "rank Failed = 15"

text \<open>Between taking its slot and releasing it a thread is the slot's holder.\<close>

definition holds_slot :: "stage \<Rightarrow> bool" where
  "holds_slot g \<longleftrightarrow> 3 \<le> rank g \<and> rank g \<le> 11"

text \<open>What each stage knows about the counters.\<close>

definition thread_ok :: "nat \<Rightarrow> conc \<Rightarrow> stage \<Rightarrow> nat \<Rightarrow> bool" where
  "thread_ok n s g t \<longleftrightarrow>
     t < k_claim s \<and>
     (rank g \<le> 9 \<longrightarrow> k_committed s \<le> t) \<and>
     (7 \<le> rank g \<and> rank g \<le> 9 \<longrightarrow> k_committed s = t) \<and>
     (10 \<le> rank g \<and> rank g \<le> 14 \<longrightarrow> t < k_committed s) \<and>
     (2 \<le> rank g \<and> rank g \<le> 9 \<longrightarrow> t < k_retired s + n)"

definition counters_ok :: "nat \<Rightarrow> conc \<Rightarrow> bool" where
  "counters_ok n s \<longleftrightarrow>
     k_retired s \<le> k_committed s \<and> k_committed s \<le> k_claim s \<and> k_claim s < usize_bound \<and>
     (\<forall>i g t. k_pc s i = Some (g, t) \<longrightarrow> thread_ok n s g t) \<and>
     (\<forall>i j g t g' t'. k_pc s i = Some (g, t) \<longrightarrow> k_pc s j = Some (g', t') \<longrightarrow> i \<noteq> j \<longrightarrow> t \<noteq> t')"

lemma counters_okD:
  assumes "counters_ok n s" and "k_pc s i = Some (g, t)"
  shows "thread_ok n s g t" "k_retired s \<le> k_committed s" "k_committed s \<le> k_claim s"
    "k_claim s < usize_bound"
  using assms by (auto simp: counters_ok_def)

lemma distinct_tickets:
  "counters_ok n s \<Longrightarrow> k_pc s i = Some (g, t) \<Longrightarrow> k_pc s j = Some (g', t') \<Longrightarrow> i \<noteq> j \<Longrightarrow> t \<noteq> t'"
  unfolding counters_ok_def by metis

lemma counters_ok_init: "counters_ok n k_init"
  by (simp add: counters_ok_def k_init_def usize_bound_def)

text \<open>A thread moves on while its counters change the way \<open>others\<close> says for the other threads.\<close>

lemma counters_ok_move:
  assumes inv: "counters_ok n s" "k_pc s i = Some (g, t)" and pc: "k_pc s' = (k_pc s)(i := Some (g', t))"
    and bounds: "k_retired s' \<le> k_committed s'" "k_committed s' \<le> k_claim s'" "k_claim s' = k_claim s"
    and me: "thread_ok n s' g' t"
    and others: "\<And>h u. thread_ok n s h u \<Longrightarrow> u \<noteq> t \<Longrightarrow> thread_ok n s' h u"
  shows "counters_ok n s'"
proof -
  have dist: "u \<noteq> t" if "k_pc s j = Some (h, u)" "j \<noteq> i" for j h u
    using inv that unfolding counters_ok_def by metis
  have "thread_ok n s' h u" if "k_pc s' j = Some (h, u)" for j h u
    using that pc me dist others inv(1) by (cases "j = i") (auto simp: counters_ok_def)
  moreover have "u \<noteq> u'" if "k_pc s' j = Some (h, u)" "k_pc s' j' = Some (h', u')" "j \<noteq> j'" for j j' h h' u u'
    using that pc dist inv by (auto simp: counters_ok_def split: if_splits)
  ultimately show ?thesis
    using bounds inv(1) by (simp add: counters_ok_def)
qed

lemma counters_ok_goto:
  assumes "counters_ok n s" and "k_pc s i = Some (g, t)" and "k_pc s' = (k_pc s)(i := Some (g', t))"
    and "k_retired s' = k_retired s" "k_committed s' = k_committed s" "k_claim s' = k_claim s"
    and "thread_ok n s g' t"
  shows "counters_ok n s'"
  using counters_okD [OF assms(1,2)] assms
  by (intro counters_ok_move [OF assms(1,2,3)]) (simp_all add: thread_ok_def)

lemma wrapping_ticket:
  assumes "counters_ok n s" and "k_pc s i = Some (g, t)" and "rank g \<le> 9"
  shows "wrapping_sub_usize t (k_retired s) < n \<longleftrightarrow> t < k_retired s + n"
    and "k_retired s \<le> t"
proof -
  have "k_retired s \<le> t" "t < usize_bound"
    using counters_okD [OF assms(1,2)] assms(3) by (auto simp: thread_ok_def)
  then show "wrapping_sub_usize t (k_retired s) < n \<longleftrightarrow> t < k_retired s + n" "k_retired s \<le> t"
    by (auto simp: wrapping_sub_usize_le)
qed

lemma counters_ok_thread:
  assumes inv: "counters_ok n s" and pc: "k_pc s i = Some (g, t)"
  shows "counters_ok n (thread_at n i g t s)"
proof -
  note c = counters_okD [OF inv pc]
  note goto = counters_ok_goto [OF inv pc] and move = counters_ok_move [OF inv pc]
  show ?thesis
  proof (cases g)
    case Claimed
    then show ?thesis
      using c wrapping_ticket [OF inv pc] inv
      by (auto simp: k_goto_def thread_ok_def intro!: goto [where g' = HasCapacity])
  next
    case Marked
    then show ?thesis
      using c inv
      by (auto simp: k_goto_def thread_ok_def intro!: move [where g' = Committed])
  next
    case (Retiring cur)
    consider "\<not> cur < t + 1" | "cur < t + 1" "k_retired s = cur" | "cur < t + 1" "k_retired s \<noteq> cur"
      by blast
    then show ?thesis
    proof cases
      case 1
      then show ?thesis
        using Retiring c by (intro goto [where g' = Finished]) (auto simp: k_goto_def thread_ok_def)
    next
      case 2
      then show ?thesis
        using Retiring c by (intro move [where g' = Finished]) (auto simp: k_goto_def thread_ok_def)
    next
      case 3
      then show ?thesis
        using Retiring c
        by (intro goto [where g' = "Retiring (k_retired s)"]) (auto simp: k_goto_def thread_ok_def)
    qed
  qed (use c inv in \<open>auto simp: k_goto_def k_set_slot_def thread_ok_def intro!: goto\<close>)
qed

text \<open>What each holder knows about its slot, and that no two threads hold the same one.\<close>

definition slot_ok :: "nat \<Rightarrow> conc \<Rightarrow> stage \<Rightarrow> nat \<Rightarrow> bool" where
  "slot_ok n s g t \<longleftrightarrow>
     (rank g \<in> {4, 5} \<longrightarrow> k_slot s (cq_slot_of t n) = QUEUE_SLOT_WRITING) \<and>
     (rank g \<in> {6, 7, 8} \<longrightarrow> k_slot s (cq_slot_of t n) = QUEUE_SLOT_READY) \<and>
     (rank g \<in> {9, 10, 11} \<longrightarrow> k_slot s (cq_slot_of t n) = QUEUE_SLOT_PUBLISHED) \<and>
     (rank g \<in> {5, 6, 7, 8, 9, 10, 11} \<longrightarrow> k_ring s (cq_slot_of t n) = Some t)"

definition slots_ok :: "nat \<Rightarrow> conc \<Rightarrow> bool" where
  "slots_ok n s \<longleftrightarrow>
     (\<forall>i g t. k_pc s i = Some (g, t) \<longrightarrow> slot_ok n s g t) \<and>
     (\<forall>i j g t g' t'. k_pc s i = Some (g, t) \<longrightarrow> k_pc s j = Some (g', t') \<longrightarrow> i \<noteq> j \<longrightarrow>
        holds_slot g \<longrightarrow> holds_slot g' \<longrightarrow> cq_slot_of t n \<noteq> cq_slot_of t' n)"

lemma slots_ok_init: "slots_ok n k_init"
  by (simp add: slots_ok_def k_init_def)

lemma slot_ok_other:
  assumes "slot_ok n s h u" and "holds_slot h \<Longrightarrow> cq_slot_of u n \<noteq> x"
    and "\<And>y. y \<noteq> x \<Longrightarrow> k_slot s' y = k_slot s y \<and> k_ring s' y = k_ring s y"
  shows "slot_ok n s' h u"
  using assms by (cases "holds_slot h") (auto simp: slot_ok_def holds_slot_def)

text \<open>A thread that moves touches at most its own slot, and only while it holds it.\<close>

lemma slots_ok_move:
  assumes inv: "slots_ok n s" "k_pc s i = Some (g, t)" and pc: "k_pc s' = (k_pc s)(i := Some (g', t))"
    and me: "slot_ok n s' g' t"
    and own: "\<And>y. y \<noteq> cq_slot_of t n \<or> \<not> holds_slot g \<Longrightarrow> k_slot s' y = k_slot s y \<and> k_ring s' y = k_ring s y"
    and enter: "\<And>j h u. holds_slot g' \<Longrightarrow> \<not> holds_slot g \<Longrightarrow> k_pc s j = Some (h, u) \<Longrightarrow> j \<noteq> i \<Longrightarrow>
      holds_slot h \<Longrightarrow> cq_slot_of u n \<noteq> cq_slot_of t n"
  shows "slots_ok n s'"
proof -
  have ex: "cq_slot_of u n \<noteq> cq_slot_of t n"
    if "k_pc s j = Some (h, u)" "j \<noteq> i" "holds_slot h" "holds_slot g \<or> holds_slot g'" for j h u
    using inv enter that unfolding slots_ok_def by metis
  have "slot_ok n s' h u" if u: "k_pc s' j = Some (h, u)" for j h u
  proof (cases "j = i")
    case True
    then show ?thesis using u pc me by simp
  next
    case False
    then have j: "k_pc s j = Some (h, u)" using u pc by simp
    then have "slot_ok n s h u" using inv(1) by (simp add: slots_ok_def)
    then show ?thesis
      using slot_ok_other [of n s h u "cq_slot_of t n" s'] ex [OF j False] own
      by (cases "holds_slot g") (auto simp: slot_ok_def)
  qed
  moreover have "cq_slot_of u n \<noteq> cq_slot_of u' n"
    if "k_pc s' j = Some (h, u)" "k_pc s' j' = Some (h', u')" "j \<noteq> j'" "holds_slot h" "holds_slot h'"
    for j j' h h' u u'
  proof (cases "j = i \<or> j' = i")
    case True
    then show ?thesis
      using that pc ex [of j' h' u'] ex [of j h u] by (auto split: if_splits)
  next
    case False
    then show ?thesis using that pc inv(1) unfolding slots_ok_def by (metis fun_upd_other)
  qed
  ultimately show ?thesis by (simp add: slots_ok_def)
qed

lemma mod_eq_close:
  assumes "u mod n = t mod n" and "t < u + n" and "u < t + (n :: nat)"
  shows "u = t"
proof -
  have "a = b" if "a \<le> b" "a mod n = b mod n" "b < a + n" for a b
  proof -
    have "n dvd b - a" using that mod_eq_dvd_iff_nat [of a b n] by simp
    moreover have "b - a < n" using that by simp
    ultimately have "b - a = 0" using nat_dvd_not_less by blast
    then show ?thesis using that by simp
  qed
  from this [of u t] this [of t u] show ?thesis using assms by (cases "u \<le> t") auto
qed

text \<open>A thread that sees its slot empty is the only one to pass: another thread waiting at the
  same slot would need the counter \<open>retired\<close> to have passed one of the two tickets.\<close>

lemma slot_taken_once:
  assumes c: "counters_ok n s" and sl: "slots_ok n s" and n: "is_power_of_two n"
    and i: "k_pc s i = Some (HasCapacity, t)" and e: "k_slot s (cq_slot_of t n) = QUEUE_SLOT_EMPTY"
    and j: "k_pc s j = Some (h, u)" "j \<noteq> i" "holds_slot h"
  shows "cq_slot_of u n \<noteq> cq_slot_of t n"
proof
  assume eq: "cq_slot_of u n = cq_slot_of t n"
  have "slot_ok n s h u" using sl j(1) by (simp add: slots_ok_def)
  then have "rank h = 3"
    using j(3) e eq by (cases h) (auto simp: slot_ok_def holds_slot_def slot_constants [symmetric])
  then have "t < k_retired s + n" "u < k_retired s + n" "k_retired s \<le> t" "k_retired s \<le> u" "u \<noteq> t"
    using counters_okD [OF c i] counters_okD [OF c j(1)] distinct_tickets [OF c j(1) i j(2)]
    by (simp_all add: thread_ok_def)
  moreover have "u mod n = t mod n" using eq n by (simp add: cq_slot_of_mod)
  ultimately show False using mod_eq_close [of u n t] by linarith
qed

lemma slots_ok_thread:
  assumes c: "counters_ok n s" and sl: "slots_ok n s" and n: "is_power_of_two n"
    and pc: "k_pc s i = Some (g, t)"
  shows "slots_ok n (thread_at n i g t s)"
proof -
  note move = slots_ok_move [OF sl pc]
  have own: "slot_ok n s g t" using sl pc by (simp add: slots_ok_def)
  show ?thesis
  proof (cases g)
    case HasCapacity
    then show ?thesis
      using sl slot_taken_once [OF c sl n] pc
      by (auto simp: k_goto_def slot_ok_def intro!: move [where g' = HasSlot])
  next
    case Claimed
    then show ?thesis
      using sl by (auto simp: k_goto_def slot_ok_def holds_slot_def intro!: move [where g' = HasCapacity])
  next
    case (Retiring cur)
    then show ?thesis
      using sl move [where g' = Finished and s' = "k_goto i Finished t s"]
        move [where g' = Finished and s' = "k_goto i Finished t (s\<lparr>k_retired := t + 1\<rparr>)"]
        move [where g' = "Retiring (k_retired s)" and s' = "k_goto i (Retiring (k_retired s)) t s"]
      by (auto simp: k_goto_def slot_ok_def holds_slot_def)
  qed (use sl own in \<open>auto simp: k_goto_def k_set_slot_def slot_ok_def holds_slot_def intro!: move\<close>)
qed

text \<open>Tails are written in ticket order, one after the other.\<close>

definition tail_writers :: "conc \<Rightarrow> nat set" where
  "tail_writers s = {i. \<exists>g t. k_pc s i = Some (g, t) \<and> rank g \<in> {8, 9}}"

definition publish_ok :: "nat \<Rightarrow> conc \<Rightarrow> bool" where
  "publish_ok n s \<longleftrightarrow>
     k_log s = [0..<length (k_log s)] \<and> k_tail s = length (k_log s) mod n \<and>
     length (k_log s) = k_committed s + (if tail_writers s = {} then 0 else 1)"

lemma publish_ok_init: "publish_ok n k_init"
  by (simp add: publish_ok_def k_init_def tail_writers_def)

lemma tail_writers_move:
  assumes "k_pc s' = (k_pc s)(i := Some (g', t))"
  shows "tail_writers s' = (if rank g' \<in> {8, 9} then insert i (tail_writers s) else tail_writers s - {i})"
  unfolding tail_writers_def assms by (rule set_eqI) (auto split: if_splits)

lemma tail_writer_iff: "k_pc s i = Some (g, t) \<Longrightarrow> i \<in> tail_writers s \<longleftrightarrow> rank g \<in> {8, 9}"
  by (simp add: tail_writers_def)

lemma tail_writer_unique:
  assumes c: "counters_ok n s" and i: "k_pc s i = Some (g, t)" "7 \<le> rank g" "rank g \<le> 9"
  shows "tail_writers s \<subseteq> {i}"
proof
  fix j
  assume "j \<in> tail_writers s"
  then obtain h u where j: "k_pc s j = Some (h, u)" "rank h \<in> {8, 9}"
    by (auto simp: tail_writers_def)
  then have "u = t"
    using counters_okD(1) [OF c i(1)] counters_okD(1) [OF c j(1)] i by (auto simp: thread_ok_def)
  then show "j \<in> {i}" using distinct_tickets [OF c i(1) j(1)] by auto
qed

lemma publish_ok_same:
  assumes "publish_ok n s" and "tail_writers s' = tail_writers s"
    and "k_log s' = k_log s" "k_tail s' = k_tail s" "k_committed s' = k_committed s"
  shows "publish_ok n s'"
  using assms(1) unfolding publish_ok_def assms(2-5) .

lemma publish_ok_thread:
  assumes c: "counters_ok n s" and p: "publish_ok n s" and n: "is_power_of_two n"
    and pc: "k_pc s i = Some (g, t)"
  shows "publish_ok n (thread_at n i g t s)"
proof -
  note same = publish_ok_same [OF p] and tw = tail_writer_iff [OF pc]
  have keep: "tail_writers s' = tail_writers s"
    if "k_pc s' = (k_pc s)(i := Some (g', t))" "rank g' \<in> {8, 9} \<longleftrightarrow> rank g \<in> {8, 9}" for s' g'
    using tail_writers_move [OF that(1)] that(2) tw by auto
  show ?thesis
  proof (cases g)
    case MayPublish
    have eq: "tail_writers s = {}"
      using tail_writer_unique [OF c pc] tw MayPublish by auto
    have t: "k_committed s = t" using counters_okD(1) [OF c pc] MayPublish by (simp add: thread_ok_def)
    then have log: "k_log s = [0..<t]" "length (k_log s) = t"
      using p eq unfolding publish_ok_def by (metis add_0_right)+
    let ?s = "thread_at n i g t s"
    have "tail_writers ?s = {i}"
      using tail_writers_move [of ?s s i TailSet t] MayPublish eq by (simp add: k_goto_def)
    moreover have "k_tail ?s = Suc t mod n"
      using MayPublish n by (simp add: k_goto_def cq_slot_of_mod mod_Suc_eq)
    moreover have "k_log ?s = [0..<Suc t]" "k_committed ?s = t"
      using MayPublish log t by (simp_all add: k_goto_def)
    ultimately show ?thesis by (simp add: publish_ok_def)
  next
    case Marked
    have eq: "tail_writers s = {i}"
      using tail_writer_unique [OF c pc] tw Marked by auto
    have t: "k_committed s = t" using counters_okD(1) [OF c pc] Marked by (simp add: thread_ok_def)
    let ?s = "thread_at n i g t s"
    have "tail_writers ?s = {}"
      using tail_writers_move [of ?s s i Committed t] Marked eq by (simp add: k_goto_def)
    moreover have "k_log ?s = k_log s" "k_tail ?s = k_tail s" "k_committed ?s = t + 1"
      using Marked by (simp_all add: k_goto_def)
    moreover have len: "length (k_log s) = t + 1" using p eq t unfolding publish_ok_def by simp
    moreover have "k_log s = [0..<t + 1]" "k_tail s = (t + 1) mod n"
      using p len unfolding publish_ok_def by metis+
    ultimately show ?thesis by (simp add: publish_ok_def)
  next
    case (Retiring cur)
    have "tail_writers (thread_at n i g t s) = tail_writers s"
      using keep [of "thread_at n i g t s" Finished] keep [of "thread_at n i g t s" "Retiring (k_retired s)"]
        Retiring by (auto simp: k_goto_def)
    then show ?thesis using Retiring by (intro same) (auto simp: k_goto_def)
  qed (use p in \<open>auto simp: k_goto_def k_set_slot_def intro!: same keep split: if_splits\<close>)
qed

lemma give_up_ok:
  assumes c: "counters_ok n s" and sl: "slots_ok n s" and p: "publish_ok n s"
    and pc: "k_pc s i = Some (g, t)" and g: "may_fail g" and s': "s' = k_goto i Failed t s"
  shows "counters_ok n s' \<and> slots_ok n s' \<and> publish_ok n s'"
proof (intro conjI)
  have "thread_ok n s Failed t" using counters_okD(1) [OF c pc] by (simp add: thread_ok_def)
  then show "counters_ok n s'"
    using s' by (intro counters_ok_goto [where g' = Failed, OF c pc]) (simp_all add: k_goto_def)
  show "slots_ok n s'"
    using s' by (intro slots_ok_move [where g' = Failed, OF sl pc]) (simp_all add: k_goto_def slot_ok_def holds_slot_def)
  have "rank g \<notin> {8, 9}" using g by (auto simp: may_fail_def)
  then have "tail_writers s' = tail_writers s"
    using tail_writers_move [of s' s i Failed t] tail_writer_iff [OF pc] s' by (simp add: k_goto_def)
  then show "publish_ok n s'"
    using s' by (intro publish_ok_same [OF p]) (simp_all add: k_goto_def)
qed

lemma enter_ok:
  assumes c: "counters_ok n s" and sl: "slots_ok n s" and p: "publish_ok n s"
    and pc: "k_pc s i = None" and bound: "k_claim s + 1 < usize_bound"
    and s': "s' = k_goto i Claimed (k_claim s) (s\<lparr>k_claim := k_claim s + 1\<rparr>)"
  shows "counters_ok n s' \<and> slots_ok n s' \<and> publish_ok n s'"
proof (intro conjI)
  have below: "u < k_claim s" if "k_pc s j = Some (h, u)" for j h u
    using counters_okD(1) [OF c that] by (simp add: thread_ok_def)
  have pc': "k_pc s' = (k_pc s)(i := Some (Claimed, k_claim s))" and cnt: "k_claim s' = k_claim s + 1"
    "k_committed s' = k_committed s" "k_retired s' = k_retired s" "k_slot s' = k_slot s" "k_ring s' = k_ring s"
    by (simp_all add: s' k_goto_def)
  have old: "thread_ok n s' h u" if "thread_ok n s h u" for h u
    using that by (simp add: thread_ok_def cnt)
  have new: "thread_ok n s' Claimed (k_claim s)"
    using c by (simp add: thread_ok_def cnt counters_ok_def)
  show "counters_ok n s'"
    unfolding counters_ok_def cnt
  proof (intro conjI allI impI)
    show "k_retired s \<le> k_committed s" "k_committed s \<le> k_claim s + 1" "k_claim s + 1 < usize_bound"
      using c bound by (simp_all add: counters_ok_def)
    show "thread_ok n s' g t" if "k_pc s' j = Some (g, t)" for j g t
      using that pc' old new c by (cases "j = i") (auto simp: counters_ok_def)
    show "t \<noteq> t'" if "k_pc s' j = Some (g, t)" "k_pc s' j' = Some (g', t')" "j \<noteq> j'" for j j' g g' t t'
      using that pc' below distinct_tickets [OF c] by (cases "j = i"; cases "j' = i") fastforce+
  qed
  show "slots_ok n s'"
    using sl pc unfolding slots_ok_def pc' slot_ok_def cnt holds_slot_def by (simp split: if_splits)
  have "tail_writers s' = tail_writers s"
    using pc pc' by (auto simp: tail_writers_def)
  then show "publish_ok n s'"
    using s' by (intro publish_ok_same [OF p]) (simp_all add: k_goto_def)
qed

lemma reach_ok: "reach n s \<Longrightarrow> is_power_of_two n \<Longrightarrow> counters_ok n s \<and> slots_ok n s \<and> publish_ok n s"
proof (induction rule: reach.induct)
  case reach_init
  then show ?case by (simp add: counters_ok_init slots_ok_init publish_ok_init)
next
  case (reach_step s e s')
  then have ok: "counters_ok n s" "slots_ok n s" "publish_ok n s" and n: "is_power_of_two n" by auto
  show ?case
  proof (cases e)
    case (Run i)
    then obtain g t where "k_pc s i = Some (g, t)" "s' = thread_at n i g t s"
      using reach_step.hyps(2) by (auto split: option.splits)
    then show ?thesis
      using counters_ok_thread slots_ok_thread publish_ok_thread ok n by blast
  next
    case (GiveUp i)
    then obtain g t where "k_pc s i = Some (g, t)" "may_fail g" "s' = k_goto i Failed t s"
      using reach_step.hyps(2) by (auto split: option.splits if_splits)
    then show ?thesis using give_up_ok ok by blast
  next
    case (Enter i)
    then show ?thesis
      using reach_step.hyps(2) enter_ok [OF ok] by (auto split: if_splits)
  next
    case Hardware
    then have same: "k_claim s' = k_claim s" "k_committed s' = k_committed s" "k_retired s' = k_retired s"
      "k_slot s' = k_slot s" "k_ring s' = k_ring s" "k_log s' = k_log s" "k_tail s' = k_tail s" "k_pc s' = k_pc s"
      using reach_step.hyps(2) by (auto split: if_splits)
    have "counters_ok n s'" using ok(1) unfolding counters_ok_def thread_ok_def same .
    moreover have "slots_ok n s'" using ok(2) unfolding slots_ok_def slot_ok_def same .
    moreover have "publish_ok n s'" using ok(3) unfolding publish_ok_def tail_writers_def same .
    ultimately show ?thesis by blast
  qed
qed

section \<open>Properties\<close>

text \<open>C2. In every reachable state of the concurrent queue no two threads hold the same slot
  (from the check that it is empty to its release); the tail register was written for tickets
  0, 1, 2, and so on in order without gaps, and equals the number of tickets published modulo
  the ring; and the slot of a thread that has written it and not yet released it holds that
  thread's command.\<close>

theorem queue_exclusive_and_ordered:
  assumes "reach n s" and "is_power_of_two n"
  shows "(\<forall>i j g t g' t'. k_pc s i = Some (g, t) \<and> k_pc s j = Some (g', t') \<and> i \<noteq> j \<and>
        holds_slot g \<and> holds_slot g' \<longrightarrow> cq_slot_of t n \<noteq> cq_slot_of t' n) \<and>
    (\<exists>m. k_log s = [0..<m] \<and> k_tail s = m mod n) \<and>
    (\<forall>i g t. k_pc s i = Some (g, t) \<and> 5 \<le> rank g \<and> rank g \<le> 11 \<longrightarrow> k_ring s (cq_slot_of t n) = Some t)"
proof -
  note ok = reach_ok [OF assms]
  have "rank g \<in> {5, 6, 7, 8, 9, 10, 11}" if "5 \<le> rank g" "rank g \<le> 11" for g
    using that by (cases g) simp_all
  then have "\<forall>i g t. k_pc s i = Some (g, t) \<and> 5 \<le> rank g \<and> rank g \<le> 11 \<longrightarrow> k_ring s (cq_slot_of t n) = Some t"
    using ok unfolding slots_ok_def slot_ok_def by metis
  moreover have "\<exists>m. k_log s = [0..<m] \<and> k_tail s = m mod n"
    using ok unfolding publish_ok_def by metis
  ultimately show ?thesis using ok unfolding slots_ok_def by metis
qed

fun k_run :: "nat \<Rightarrow> event list \<Rightarrow> conc \<Rightarrow> conc option" where
  "k_run n [] s = Some s"
| "k_run n (e # es) s = (case k_next n e s of None \<Rightarrow> None | Some s' \<Rightarrow> k_run n es s')"

lemma reach_run: "reach n s \<Longrightarrow> k_run n es s = Some s' \<Longrightarrow> reach n s'"
  by (induction es arbitrary: s) (auto split: option.splits intro: reach_step)

text \<open>Thread 0 publishes; thread 1 publishes and returns; threads 2, 3 and 4 take tickets and
  thread 5 writes its command.\<close>

definition overtaking :: "event list" where
  "overtaking =
     [Enter 0, Run 0, Run 0, Run 0, Run 0, Run 0, Run 0, Run 0, Run 0, Run 0,
      Enter 1, Run 1, Run 1, Run 1, Run 1, Run 1, Run 1, Run 1,
      Run 1, Run 1, Run 1, Run 1, Run 1, Run 1,
      Enter 2, Enter 3, Enter 4, Enter 5, Run 5, Run 5, Run 5, Run 5]"

lemmas k_simps = k_init_def k_goto_def k_set_slot_def usize_bound_def wrapping_sub_usize_def
  cq_slot_of_def

lemma overtaking_run:
  "\<exists>s. k_run 4 overtaking k_init = Some s \<and> k_pc s 1 = Some (Finished, 1) \<and> k_executed s = [] \<and>
     k_log s = [0, 1] \<and> k_ring s = (\<lambda>_. None)(0 := Some 0, 1 := Some 5)"
  by (simp add: overtaking_def k_simps QUEUE_SLOT_EMPTY_def del: One_nat_def)

lemma queue_exclusive_and_ordered_witness:
  "\<exists>s. reach 4 s \<and> k_pc s 5 = Some (Written, 5) \<and> k_log s = [0, 1] \<and> k_ring s 1 = Some 5"
proof -
  obtain s where run: "k_run 4 overtaking k_init = Some s" "k_log s = [0, 1]"
    using overtaking_run by blast
  have pc: "k_pc s 5 = Some (Written, 5)"
    using run(1) by (auto simp: overtaking_def k_simps QUEUE_SLOT_EMPTY_def simp del: One_nat_def)
  have r: "reach 4 s" using reach_run [OF reach_init run(1)] .
  have n: "is_power_of_two 4" by (simp add: is_power_of_two_def)
  have "\<forall>i g t. k_pc s i = Some (g, t) \<and> 5 \<le> rank g \<and> rank g \<le> 11 \<longrightarrow> k_ring s (cq_slot_of t 4) = Some t"
    using queue_exclusive_and_ordered [OF r n] by blast
  then have "k_ring s (cq_slot_of 5 4) = Some 5" using pc by force
  then show ?thesis using r pc run(2) by (auto simp: cq_slot_of_def)
qed

text \<open>C16. A command can be reported complete and then lost. In a ring of four entries there is a
  reachable state in which two commands are published and the hardware has executed none, the
  submission of command 1 has returned successfully (the head register still names slot 0, and
  \<open>wait_for_consumed\<close> only asks that it differ from slot 1), and its slot already holds command
  5 of another caller: the hardware will never see command 1.\<close>

theorem queue_can_lose_command:
  "\<exists>s. reach 4 s \<and> k_log s = [0, 1] \<and> k_executed s = [] \<and> k_pc s 1 = Some (Finished, 1) \<and>
     k_ring s 1 = Some 5 \<and> (\<forall>x. k_ring s x \<noteq> Some 1)"
proof -
  obtain s where run: "k_run 4 overtaking k_init = Some s"
    and s: "k_pc s 1 = Some (Finished, 1)" "k_executed s = []" "k_log s = [0, 1]"
      "k_ring s = (\<lambda>_. None)(0 := Some 0, 1 := Some 5)"
    using overtaking_run by blast
  show ?thesis
    using reach_run [OF reach_init run] s by (intro exI [of _ s]) simp
qed

end
