(* ===== verification/X86_Interrupt.thy ===== *)
theory X86_Interrupt
  imports Backing
begin

text \<open>
  \<open>src/arch/x86_64/interrupt.rs\<close>: interrupt vectors and the message a device writes to deliver an
  MSI to a local APIC, with its fields at the bit positions of the architecture.
\<close>

definition MSI_ADDRESS_BASE :: u64 where "MSI_ADDRESS_BASE = 0xfee00000"
definition MSI_DESTINATION_SHIFT :: nat where "MSI_DESTINATION_SHIFT = 12"
definition MSI_REDIRECTION_HINT :: u64 where "MSI_REDIRECTION_HINT = push_bit 3 1"
definition MSI_DESTINATION_MODE_LOGICAL :: u64 where "MSI_DESTINATION_MODE_LOGICAL = push_bit 2 1"
definition MSI_DELIVERY_MODE_SHIFT :: nat where "MSI_DELIVERY_MODE_SHIFT = 8"
definition MSI_LEVEL_ASSERT :: u32 where "MSI_LEVEL_ASSERT = push_bit 14 1"
definition MSI_TRIGGER_LEVEL :: u32 where "MSI_TRIGGER_LEVEL = push_bit 15 1"

datatype x86_vector = X86Vector (vec_get: u8)

definition MIN_EXTERNAL :: u8 where "MIN_EXTERNAL = 32"

definition x86_vector_new :: "u8 \<Rightarrow> x86_vector result" where
  "x86_vector_new v = (if v < MIN_EXTERNAL then Err ErrInvalidRange else Ok (X86Vector v))"

datatype msi_destination = Physical u8 | Logical u8

fun dest_id :: "msi_destination \<Rightarrow> u8" where
  "dest_id (Physical i) = i"
| "dest_id (Logical i) = i"

fun dest_is_logical :: "msi_destination \<Rightarrow> bool" where
  "dest_is_logical (Physical i) = False"
| "dest_is_logical (Logical i) = True"

datatype delivery_mode = Fixed | LowestPriority | Smi | Nmi | Init | ExtInt

fun delivery_code :: "delivery_mode \<Rightarrow> 'a::len word" where
  "delivery_code Fixed = 0"
| "delivery_code LowestPriority = 1"
| "delivery_code Smi = 2"
| "delivery_code Nmi = 4"
| "delivery_code Init = 5"
| "delivery_code ExtInt = 7"

datatype trigger_mode = Edge | Level
datatype msi_level = Deassert | Assert

record msi_delivery =
  md_destination :: msi_destination
  md_vector :: x86_vector
  md_delivery_mode :: delivery_mode
  md_trigger_mode :: trigger_mode
  md_level :: msi_level
  md_redirection_hint :: bool

definition msi_delivery_new :: "msi_destination \<Rightarrow> x86_vector \<Rightarrow> delivery_mode \<Rightarrow> msi_delivery" where
  "msi_delivery_new d v m = \<lparr>md_destination = d, md_vector = v, md_delivery_mode = m,
     md_trigger_mode = Edge, md_level = Assert, md_redirection_hint = False\<rparr>"

definition msi_delivery_fixed :: "msi_destination \<Rightarrow> x86_vector \<Rightarrow> msi_delivery" where
  "msi_delivery_fixed d v = \<lparr>md_destination = d, md_vector = v, md_delivery_mode = Fixed,
     md_trigger_mode = Edge, md_level = Assert, md_redirection_hint = False\<rparr>"

definition msi_message_of :: "msi_delivery \<Rightarrow> msi_message" where
  "msi_message_of d =
     (let a0 = MSI_ADDRESS_BASE OR push_bit MSI_DESTINATION_SHIFT (ucast (dest_id (md_destination d)));
          a1 = if dest_is_logical (md_destination d) then a0 OR MSI_DESTINATION_MODE_LOGICAL else a0;
          a2 = if md_redirection_hint d then a1 OR MSI_REDIRECTION_HINT else a1;
          d0 = ucast (vec_get (md_vector d));
          d1 = d0 OR push_bit MSI_DELIVERY_MODE_SHIFT (delivery_code (md_delivery_mode d));
          d2 = if md_level d = Assert then d1 OR MSI_LEVEL_ASSERT else d1;
          d3 = if md_trigger_mode d = Level then d2 OR MSI_TRIGGER_LEVEL else d2
      in \<lparr>msi_address = a2, msi_data = d3\<rparr>)"

lemma MSI_ADDRESS_BASE_bit:
  "bit MSI_ADDRESS_BASE n \<longleftrightarrow> (21 \<le> n \<and> n < 24) \<or> (25 \<le> n \<and> n < 32)"
proof -
  have eq: "MSI_ADDRESS_BASE = push_bit 21 (mask 3) OR push_bit 25 (mask 7)"
    by (simp add: MSI_ADDRESS_BASE_def mask_eq_exp_minus_1 push_bit_eq_mult)
  show ?thesis unfolding eq by (auto simp: bit_simps)
qed

lemma msi_flag_bits [field_simps_bits]:
  "bit MSI_REDIRECTION_HINT n \<longleftrightarrow> n = 3" "bit MSI_DESTINATION_MODE_LOGICAL n \<longleftrightarrow> n = 2"
  "bit MSI_LEVEL_ASSERT n \<longleftrightarrow> n = 14" "bit MSI_TRIGGER_LEVEL n \<longleftrightarrow> n = 15"
  unfolding MSI_REDIRECTION_HINT_def MSI_DESTINATION_MODE_LOGICAL_def MSI_LEVEL_ASSERT_def
    MSI_TRIGGER_LEVEL_def bit_push_bit_1_iff by auto

lemma delivery_code_less: "(delivery_code m :: u32) < 2 ^ 3"
  by (cases m) simp_all

lemma delivery_code_inject: "(delivery_code m :: u32) = delivery_code m' \<longleftrightarrow> m = m'"
  by (cases m; cases m') simp_all

lemma msi_address_bit:
  "bit (msi_address (msi_message_of d)) n \<longleftrightarrow>
     bit MSI_ADDRESS_BASE n \<or> 12 \<le> n \<and> n < 20 \<and> bit (dest_id (md_destination d)) (n - 12) \<or>
     n = 2 \<and> dest_is_logical (md_destination d) \<or> n = 3 \<and> md_redirection_hint d"
  by (auto simp: msi_message_of_def Let_def bit_or_iff bit_push_bit_iff bit_unsigned_iff bit_beyond
      MSI_DESTINATION_SHIFT_def msi_flag_bits dest: bit_imp_le_length)

lemma msi_data_bit:
  "bit (msi_data (msi_message_of d)) n \<longleftrightarrow>
     n < 8 \<and> bit (vec_get (md_vector d)) n \<or>
     8 \<le> n \<and> n < 11 \<and> bit (delivery_code (md_delivery_mode d) :: u32) (n - 8) \<or>
     n = 14 \<and> md_level d = Assert \<or> n = 15 \<and> md_trigger_mode d = Level"
proof -
  have "bit (delivery_code (md_delivery_mode d) :: u32) i \<Longrightarrow> i < 3" for i
    using less_power_bit [OF delivery_code_less] .
  then show ?thesis
    by (auto simp: msi_message_of_def Let_def bit_or_iff bit_push_bit_iff bit_unsigned_iff bit_beyond
        MSI_DELIVERY_MODE_SHIFT_def msi_flag_bits dest: bit_imp_le_length) (fastforce+)?
qed

section \<open>Properties\<close>

text \<open>The MSI message of a delivery has its fields at the architectural positions and they do
  not overlap: the address is in the window \<open>0xfee00000\<close> with the destination identifier in bits
  19:12, the redirection hint in bit 3 and the destination mode in bit 2, all others zero; the
  data holds the vector in bits 7:0, the delivery mode in bits 10:8, the level in bit 14 and the
  trigger mode in bit 15. So the message determines every field of the delivery.\<close>

theorem msi_message_fields:
  "drop_bit 20 (msi_address (msi_message_of d)) = 0xfee \<and>
   ucast (drop_bit 12 (msi_address (msi_message_of d))) = dest_id (md_destination d) \<and>
   take_bit 12 (msi_address (msi_message_of d)) =
     (if md_redirection_hint d then 8 else 0) OR (if dest_is_logical (md_destination d) then 4 else 0) \<and>
   ucast (msi_data (msi_message_of d)) = vec_get (md_vector d) \<and>
   take_bit 3 (drop_bit 8 (msi_data (msi_message_of d))) = delivery_code (md_delivery_mode d) \<and>
   (bit (msi_data (msi_message_of d)) 14 \<longleftrightarrow> md_level d = Assert) \<and>
   (bit (msi_data (msi_message_of d)) 15 \<longleftrightarrow> md_trigger_mode d = Level) \<and>
   drop_bit 16 (msi_data (msi_message_of d)) = 0"
proof -
  have eq: "(0xfee :: u64) = drop_bit 20 MSI_ADDRESS_BASE"
    by (simp add: MSI_ADDRESS_BASE_def)
  have "drop_bit 20 (msi_address (msi_message_of d)) = 0xfee"
    unfolding eq by (rule bit_word_eqI) (auto simp: bit_simps msi_address_bit MSI_ADDRESS_BASE_bit)
  moreover have "ucast (drop_bit 12 (msi_address (msi_message_of d))) = dest_id (md_destination d)"
    by (rule bit_word_eqI) (auto simp: bit_simps msi_address_bit MSI_ADDRESS_BASE_bit)
  moreover have "take_bit 12 (msi_address (msi_message_of d)) =
     (if md_redirection_hint d then MSI_REDIRECTION_HINT else 0) OR
     (if dest_is_logical (md_destination d) then MSI_DESTINATION_MODE_LOGICAL else 0)"
    by (rule bit_word_eqI)
      (auto simp: bit_take_bit_iff bit_or_iff msi_flag_bits msi_address_bit MSI_ADDRESS_BASE_bit)
  moreover have "ucast (msi_data (msi_message_of d)) = vec_get (md_vector d)"
    by (rule bit_word_eqI) (auto simp: bit_simps msi_data_bit)
  moreover have "take_bit 3 (drop_bit 8 (msi_data (msi_message_of d))) = delivery_code (md_delivery_mode d)"
    using less_power_bit [OF delivery_code_less [of "md_delivery_mode d"]]
    by (intro bit_word_eqI) (fastforce simp: bit_simps msi_data_bit)
  moreover have "drop_bit 16 (msi_data (msi_message_of d)) = 0"
    by (rule bit_word_eqI) (auto simp: bit_simps msi_data_bit)
  moreover have "MSI_REDIRECTION_HINT = 8" "MSI_DESTINATION_MODE_LOGICAL = 4"
    by (simp_all add: MSI_REDIRECTION_HINT_def MSI_DESTINATION_MODE_LOGICAL_def)
  ultimately show ?thesis by (simp add: msi_data_bit)
qed

end
