(* ===== verification/Vtd_Caps.thy ===== *)
theory Vtd_Caps
  imports Caps_Info
begin

text \<open>
  Intel VT-d discovery: \<open>intel/error.rs\<close>, the capability registers of \<open>intel/caps.rs\<close>, the address
  widths of \<open>intel/paging.rs\<close> and the unit and domain descriptors of \<open>intel/info.rs\<close>.
\<close>

section \<open>Errors\<close>

datatype vtd_error =
    UnsupportedAddressWidth | UnsupportedGranule | PageSelectiveInvalidationUnavailable
  | InvalidDomainId | InvalidSourceId | RegisterTransitionTimeout

fun error_from_vtd :: "vtd_error \<Rightarrow> error" where
  "error_from_vtd UnsupportedAddressWidth = InvalidWidth"
| "error_from_vtd UnsupportedGranule = InvalidGranule"
| "error_from_vtd PageSelectiveInvalidationUnavailable = FeatureUnavailable"
| "error_from_vtd InvalidDomainId = InvalidAddressSpace"
| "error_from_vtd InvalidSourceId = InvalidClient"
| "error_from_vtd RegisterTransitionTimeout = ControllerUnavailable"

section \<open>Address widths\<close>

datatype vtd_width = Bits39 | Bits48 | Bits57

fun width_bits :: "vtd_width \<Rightarrow> u8" where
  "width_bits Bits39 = 39"
| "width_bits Bits48 = 48"
| "width_bits Bits57 = 57"

fun width_levels :: "vtd_width \<Rightarrow> usize" where
  "width_levels Bits39 = 3"
| "width_levels Bits48 = 4"
| "width_levels Bits57 = 5"

fun width_sagaw_bit :: "vtd_width \<Rightarrow> u8" where
  "width_sagaw_bit Bits39 = push_bit 1 1"
| "width_sagaw_bit Bits48 = push_bit 2 1"
| "width_sagaw_bit Bits57 = push_bit 3 1"

definition width_from_bits :: "u8 \<Rightarrow> vtd_width option" where
  "width_from_bits b =
     (if b = 39 then Some Bits39 else if b = 48 then Some Bits48 else if b = 57 then Some Bits57 else None)"

instantiation vtd_width :: linorder
begin

definition less_eq_vtd_width :: "vtd_width \<Rightarrow> vtd_width \<Rightarrow> bool" where
  "less_eq_vtd_width a b \<longleftrightarrow> width_bits a \<le> width_bits b"

definition less_vtd_width :: "vtd_width \<Rightarrow> vtd_width \<Rightarrow> bool" where
  "less_vtd_width a b \<longleftrightarrow> width_bits a < width_bits b"

instance
proof
  fix a b :: vtd_width
  show "a \<le> b \<Longrightarrow> b \<le> a \<Longrightarrow> a = b"
    by (cases a; cases b) (simp_all add: less_eq_vtd_width_def)
qed (auto simp: less_eq_vtd_width_def less_vtd_width_def)

end

section \<open>The capability register\<close>

type_synonym vtd_cap = u64

definition VTD_MMIO_SIZE :: usize where "VTD_MMIO_SIZE = 0x1000"

definition CAP_MGAW_SHIFT :: nat where "CAP_MGAW_SHIFT = 16"
definition CAP_MGAW_MASK :: u64 where "CAP_MGAW_MASK = 0x3f"
definition CAP_SAGAW_SHIFT :: nat where "CAP_SAGAW_SHIFT = 8"
definition CAP_SAGAW_MASK :: u64 where "CAP_SAGAW_MASK = 0x1f"
definition CAP_FRO_SHIFT :: nat where "CAP_FRO_SHIFT = 24"
definition CAP_FRO_MASK :: u64 where "CAP_FRO_MASK = 0x3ff"
definition CAP_SLLPS_SHIFT :: nat where "CAP_SLLPS_SHIFT = 34"
definition CAP_SLLPS_MASK :: u64 where "CAP_SLLPS_MASK = 0xf"
definition CAP_NFR_SHIFT :: nat where "CAP_NFR_SHIFT = 40"
definition CAP_NFR_MASK :: u64 where "CAP_NFR_MASK = 0xff"
definition CAP_MAMV_SHIFT :: nat where "CAP_MAMV_SHIFT = 48"
definition CAP_MAMV_MASK :: u64 where "CAP_MAMV_MASK = 0x3f"
definition CAP_ZLR :: u64 where "CAP_ZLR = push_bit 22 1"
definition CAP_PSI :: u64 where "CAP_PSI = push_bit 39 1"
definition CAP_DWD :: u64 where "CAP_DWD = push_bit 54 1"
definition CAP_DRD :: u64 where "CAP_DRD = push_bit 55 1"
definition CAP_FL1GP :: u64 where "CAP_FL1GP = push_bit 56 1"
definition CAP_PI :: u64 where "CAP_PI = push_bit 59 1"
definition CAP_FL5LP :: u64 where "CAP_FL5LP = push_bit 60 1"

definition saturating_inc :: "'a::len word \<Rightarrow> 'a word" where
  "saturating_inc x = (if x = - 1 then x else x + 1)"

definition cap_max_guest_address_width :: "vtd_cap \<Rightarrow> u8" where
  "cap_max_guest_address_width c = saturating_inc (ucast (drop_bit CAP_MGAW_SHIFT c AND CAP_MGAW_MASK))"

definition cap_supported_agaw_mask :: "vtd_cap \<Rightarrow> u8" where
  "cap_supported_agaw_mask c = ucast (drop_bit CAP_SAGAW_SHIFT c AND CAP_SAGAW_MASK)"

definition cap_supports_address_width :: "vtd_cap \<Rightarrow> vtd_width \<Rightarrow> bool" where
  "cap_supports_address_width c w \<longleftrightarrow> cap_supported_agaw_mask c AND width_sagaw_bit w \<noteq> 0"

definition cap_best_address_width :: "vtd_cap \<Rightarrow> vtd_width option" where
  "cap_best_address_width c =
     (if cap_supports_address_width c Bits57 then Some Bits57
      else if cap_supports_address_width c Bits48 then Some Bits48
      else if cap_supports_address_width c Bits39 then Some Bits39
      else None)"

definition cap_fault_record_register_offset :: "vtd_cap \<Rightarrow> u64" where
  "cap_fault_record_register_offset c = (drop_bit CAP_FRO_SHIFT c AND CAP_FRO_MASK) * 16"

definition cap_fault_record_count :: "vtd_cap \<Rightarrow> u16" where
  "cap_fault_record_count c = saturating_inc (ucast (drop_bit CAP_NFR_SHIFT c AND CAP_NFR_MASK))"

definition cap_superpage_mask :: "vtd_cap \<Rightarrow> u8" where
  "cap_superpage_mask c = ucast (drop_bit CAP_SLLPS_SHIFT c AND CAP_SLLPS_MASK)"

definition cap_supports_leaf_size :: "vtd_cap \<Rightarrow> page_size \<Rightarrow> bool" where
  "cap_supports_leaf_size c sz \<longleftrightarrow>
     (case sz of
        Size4K \<Rightarrow> True
      | Size2M \<Rightarrow> cap_superpage_mask c AND 1 \<noteq> 0
      | Size1G \<Rightarrow> cap_superpage_mask c AND 2 \<noteq> 0
      | _ \<Rightarrow> False)"

definition cap_page_selective_invalidation :: "vtd_cap \<Rightarrow> bool" where
  "cap_page_selective_invalidation c \<longleftrightarrow> c AND CAP_PSI \<noteq> 0"

definition cap_write_draining :: "vtd_cap \<Rightarrow> bool" where
  "cap_write_draining c \<longleftrightarrow> c AND CAP_DWD \<noteq> 0"

definition cap_read_draining :: "vtd_cap \<Rightarrow> bool" where
  "cap_read_draining c \<longleftrightarrow> c AND CAP_DRD \<noteq> 0"

definition cap_first_level_1g_page :: "vtd_cap \<Rightarrow> bool" where
  "cap_first_level_1g_page c \<longleftrightarrow> c AND CAP_FL1GP \<noteq> 0"

definition cap_posted_interrupts :: "vtd_cap \<Rightarrow> bool" where
  "cap_posted_interrupts c \<longleftrightarrow> c AND CAP_PI \<noteq> 0"

definition cap_first_level_5_level_paging :: "vtd_cap \<Rightarrow> bool" where
  "cap_first_level_5_level_paging c \<longleftrightarrow> c AND CAP_FL5LP \<noteq> 0"

definition cap_zero_length_read :: "vtd_cap \<Rightarrow> bool" where
  "cap_zero_length_read c \<longleftrightarrow> c AND CAP_ZLR \<noteq> 0"

definition cap_max_address_mask_value :: "vtd_cap \<Rightarrow> u8" where
  "cap_max_address_mask_value c = ucast (drop_bit CAP_MAMV_SHIFT c AND CAP_MAMV_MASK)"

fun page_address_mask :: "page_size \<Rightarrow> u8 option" where
  "page_address_mask Size4K = Some 0"
| "page_address_mask Size2M = Some 9"
| "page_address_mask Size1G = Some 18"
| "page_address_mask _ = None"

definition cap_page_selective_address_mask :: "vtd_cap \<Rightarrow> page_size \<Rightarrow> u8 option" where
  "cap_page_selective_address_mask c sz =
     (case page_address_mask sz of
        None \<Rightarrow> None
      | Some required \<Rightarrow>
          if cap_page_selective_invalidation c \<and> required \<le> cap_max_address_mask_value c
          then Some required else None)"

section \<open>The extended capability register\<close>

type_synonym vtd_ecap = u64

definition ECAP_IRO_SHIFT :: nat where "ECAP_IRO_SHIFT = 8"
definition ECAP_IRO_MASK :: u64 where "ECAP_IRO_MASK = 0x3ff"
definition ECAP_MHMV_SHIFT :: nat where "ECAP_MHMV_SHIFT = 20"
definition ECAP_MHMV_MASK :: u64 where "ECAP_MHMV_MASK = 0xf"
definition ECAP_PSS_SHIFT :: nat where "ECAP_PSS_SHIFT = 35"
definition ECAP_PSS_MASK :: u64 where "ECAP_PSS_MASK = 0x1f"
definition ECAP_C :: u64 where "ECAP_C = push_bit 0 1"
definition ECAP_QI :: u64 where "ECAP_QI = push_bit 1 1"
definition ECAP_DT :: u64 where "ECAP_DT = push_bit 2 1"
definition ECAP_IR :: u64 where "ECAP_IR = push_bit 3 1"
definition ECAP_EIM :: u64 where "ECAP_EIM = push_bit 4 1"
definition ECAP_PT :: u64 where "ECAP_PT = push_bit 6 1"
definition ECAP_SC :: u64 where "ECAP_SC = push_bit 7 1"
definition ECAP_MTS :: u64 where "ECAP_MTS = push_bit 25 1"
definition ECAP_NEST :: u64 where "ECAP_NEST = push_bit 26 1"
definition ECAP_PRS :: u64 where "ECAP_PRS = push_bit 29 1"
definition ECAP_ERS :: u64 where "ECAP_ERS = push_bit 30 1"
definition ECAP_SRS :: u64 where "ECAP_SRS = push_bit 31 1"
definition ECAP_NWFS :: u64 where "ECAP_NWFS = push_bit 33 1"
definition ECAP_EAFS :: u64 where "ECAP_EAFS = push_bit 34 1"
definition ECAP_PASID :: u64 where "ECAP_PASID = push_bit 40 1"
definition ECAP_DIT :: u64 where "ECAP_DIT = push_bit 41 1"
definition ECAP_PDS :: u64 where "ECAP_PDS = push_bit 42 1"
definition ECAP_SMTS :: u64 where "ECAP_SMTS = push_bit 43 1"
definition ECAP_SLADS :: u64 where "ECAP_SLADS = push_bit 45 1"
definition ECAP_SLTS :: u64 where "ECAP_SLTS = push_bit 46 1"
definition ECAP_FLTS :: u64 where "ECAP_FLTS = push_bit 47 1"

definition ecap_coherent_page_walks :: "vtd_ecap \<Rightarrow> bool" where
  "ecap_coherent_page_walks e \<longleftrightarrow> e AND ECAP_C \<noteq> 0"

definition ecap_queued_invalidation :: "vtd_ecap \<Rightarrow> bool" where
  "ecap_queued_invalidation e \<longleftrightarrow> e AND ECAP_QI \<noteq> 0"

definition ecap_device_tlb :: "vtd_ecap \<Rightarrow> bool" where
  "ecap_device_tlb e \<longleftrightarrow> e AND ECAP_DT \<noteq> 0"

definition ecap_interrupt_remapping :: "vtd_ecap \<Rightarrow> bool" where
  "ecap_interrupt_remapping e \<longleftrightarrow> e AND ECAP_IR \<noteq> 0"

definition ecap_extended_interrupt_mode :: "vtd_ecap \<Rightarrow> bool" where
  "ecap_extended_interrupt_mode e \<longleftrightarrow> e AND ECAP_EIM \<noteq> 0"

definition ecap_pass_through :: "vtd_ecap \<Rightarrow> bool" where
  "ecap_pass_through e \<longleftrightarrow> e AND ECAP_PT \<noteq> 0"

definition ecap_snoop_control :: "vtd_ecap \<Rightarrow> bool" where
  "ecap_snoop_control e \<longleftrightarrow> e AND ECAP_SC \<noteq> 0"

definition ecap_memory_type_support :: "vtd_ecap \<Rightarrow> bool" where
  "ecap_memory_type_support e \<longleftrightarrow> e AND ECAP_MTS \<noteq> 0"

definition ecap_nested_translation :: "vtd_ecap \<Rightarrow> bool" where
  "ecap_nested_translation e \<longleftrightarrow> e AND ECAP_NEST \<noteq> 0"

definition ecap_page_requests :: "vtd_ecap \<Rightarrow> bool" where
  "ecap_page_requests e \<longleftrightarrow> e AND ECAP_PRS \<noteq> 0"

definition ecap_execute_requests :: "vtd_ecap \<Rightarrow> bool" where
  "ecap_execute_requests e \<longleftrightarrow> e AND ECAP_ERS \<noteq> 0"

definition ecap_supervisor_requests :: "vtd_ecap \<Rightarrow> bool" where
  "ecap_supervisor_requests e \<longleftrightarrow> e AND ECAP_SRS \<noteq> 0"

definition ecap_no_write_flag :: "vtd_ecap \<Rightarrow> bool" where
  "ecap_no_write_flag e \<longleftrightarrow> e AND ECAP_NWFS \<noteq> 0"

definition ecap_extended_accessed_flag :: "vtd_ecap \<Rightarrow> bool" where
  "ecap_extended_accessed_flag e \<longleftrightarrow> e AND ECAP_EAFS \<noteq> 0"

definition ecap_pasid :: "vtd_ecap \<Rightarrow> bool" where
  "ecap_pasid e \<longleftrightarrow> e AND ECAP_PASID \<noteq> 0"

definition ecap_device_tlb_invalidation_throttle :: "vtd_ecap \<Rightarrow> bool" where
  "ecap_device_tlb_invalidation_throttle e \<longleftrightarrow> e AND ECAP_DIT \<noteq> 0"

definition ecap_page_request_draining :: "vtd_ecap \<Rightarrow> bool" where
  "ecap_page_request_draining e \<longleftrightarrow> e AND ECAP_PDS \<noteq> 0"

definition ecap_scalable_mode :: "vtd_ecap \<Rightarrow> bool" where
  "ecap_scalable_mode e \<longleftrightarrow> e AND ECAP_SMTS \<noteq> 0"

definition ecap_second_level_accessed_dirty :: "vtd_ecap \<Rightarrow> bool" where
  "ecap_second_level_accessed_dirty e \<longleftrightarrow> e AND ECAP_SLADS \<noteq> 0"

definition ecap_second_level_translation :: "vtd_ecap \<Rightarrow> bool" where
  "ecap_second_level_translation e \<longleftrightarrow> e AND ECAP_SLTS \<noteq> 0"

definition ecap_first_level_translation :: "vtd_ecap \<Rightarrow> bool" where
  "ecap_first_level_translation e \<longleftrightarrow> e AND ECAP_FLTS \<noteq> 0"

definition ecap_iotlb_register_offset :: "vtd_ecap \<Rightarrow> u64" where
  "ecap_iotlb_register_offset e = (drop_bit ECAP_IRO_SHIFT e AND ECAP_IRO_MASK) * 16"

definition ecap_max_handle_mask_value :: "vtd_ecap \<Rightarrow> u8" where
  "ecap_max_handle_mask_value e = ucast (drop_bit ECAP_MHMV_SHIFT e AND ECAP_MHMV_MASK)"

definition ecap_pasid_bits :: "vtd_ecap \<Rightarrow> u8" where
  "ecap_pasid_bits e = saturating_inc (ucast (drop_bit ECAP_PSS_SHIFT e AND ECAP_PSS_MASK))"

definition ecap_capability_flags :: "vtd_ecap \<Rightarrow> capability_flags" where
  "ecap_capability_flags e =
     (let f0 = CF_TRANSLATION;
          f1 = if ecap_pasid e then cf_or f0 CF_PASID else f0;
          f2 = if ecap_device_tlb e then cf_or f1 CF_DEVICE_TLB else f1;
          f3 = if ecap_interrupt_remapping e then cf_or f2 CF_INTERRUPT_REMAPPING else f2;
          f4 = if ecap_nested_translation e then cf_or f3 CF_NESTED_TRANSLATION else f3;
          f5 = if ecap_page_requests e then cf_or f4 CF_PAGE_REQUESTS else f4;
          f6 = if ecap_second_level_accessed_dirty e then cf_or f5 CF_DIRTY_TRACKING else f5
      in f6)"

text \<open>Every flag is one bit of its register.\<close>

lemma cap_flag_bits [field_simps_bits]:
  "cap_zero_length_read c \<longleftrightarrow> bit c 22"
  "cap_page_selective_invalidation c \<longleftrightarrow> bit c 39"
  "cap_write_draining c \<longleftrightarrow> bit c 54"
  "cap_read_draining c \<longleftrightarrow> bit c 55"
  "cap_first_level_1g_page c \<longleftrightarrow> bit c 56"
  "cap_posted_interrupts c \<longleftrightarrow> bit c 59"
  "cap_first_level_5_level_paging c \<longleftrightarrow> bit c 60"
  unfolding cap_zero_length_read_def CAP_ZLR_def cap_page_selective_invalidation_def CAP_PSI_def
    cap_write_draining_def CAP_DWD_def cap_read_draining_def CAP_DRD_def
    cap_first_level_1g_page_def CAP_FL1GP_def cap_posted_interrupts_def CAP_PI_def
    cap_first_level_5_level_paging_def CAP_FL5LP_def
    and_push_bit_1_eq_0 by simp_all

lemma ecap_flag_bits [field_simps_bits]:
  "ecap_coherent_page_walks e \<longleftrightarrow> bit e 0"
  "ecap_queued_invalidation e \<longleftrightarrow> bit e 1"
  "ecap_device_tlb e \<longleftrightarrow> bit e 2"
  "ecap_interrupt_remapping e \<longleftrightarrow> bit e 3"
  "ecap_extended_interrupt_mode e \<longleftrightarrow> bit e 4"
  "ecap_pass_through e \<longleftrightarrow> bit e 6"
  "ecap_snoop_control e \<longleftrightarrow> bit e 7"
  "ecap_memory_type_support e \<longleftrightarrow> bit e 25"
  "ecap_nested_translation e \<longleftrightarrow> bit e 26"
  "ecap_page_requests e \<longleftrightarrow> bit e 29"
  "ecap_execute_requests e \<longleftrightarrow> bit e 30"
  "ecap_supervisor_requests e \<longleftrightarrow> bit e 31"
  "ecap_no_write_flag e \<longleftrightarrow> bit e 33"
  "ecap_extended_accessed_flag e \<longleftrightarrow> bit e 34"
  "ecap_pasid e \<longleftrightarrow> bit e 40"
  "ecap_device_tlb_invalidation_throttle e \<longleftrightarrow> bit e 41"
  "ecap_page_request_draining e \<longleftrightarrow> bit e 42"
  "ecap_scalable_mode e \<longleftrightarrow> bit e 43"
  "ecap_second_level_accessed_dirty e \<longleftrightarrow> bit e 45"
  "ecap_second_level_translation e \<longleftrightarrow> bit e 46"
  "ecap_first_level_translation e \<longleftrightarrow> bit e 47"
  unfolding ecap_coherent_page_walks_def ECAP_C_def ecap_queued_invalidation_def ECAP_QI_def
    ecap_device_tlb_def ECAP_DT_def ecap_interrupt_remapping_def ECAP_IR_def
    ecap_extended_interrupt_mode_def ECAP_EIM_def ecap_pass_through_def ECAP_PT_def
    ecap_snoop_control_def ECAP_SC_def ecap_memory_type_support_def ECAP_MTS_def
    ecap_nested_translation_def ECAP_NEST_def ecap_page_requests_def ECAP_PRS_def
    ecap_execute_requests_def ECAP_ERS_def ecap_supervisor_requests_def ECAP_SRS_def
    ecap_no_write_flag_def ECAP_NWFS_def ecap_extended_accessed_flag_def ECAP_EAFS_def
    ecap_pasid_def ECAP_PASID_def ecap_device_tlb_invalidation_throttle_def ECAP_DIT_def
    ecap_page_request_draining_def ECAP_PDS_def ecap_scalable_mode_def ECAP_SMTS_def
    ecap_second_level_accessed_dirty_def ECAP_SLADS_def ecap_second_level_translation_def
    ECAP_SLTS_def ecap_first_level_translation_def ECAP_FLTS_def
    and_push_bit_1_eq_0 by simp_all

lemma CF_bits [field_simps_bits]:
  "bit CF_TRANSLATION n \<longleftrightarrow> n = 0" "bit CF_PASID n \<longleftrightarrow> n = 1" "bit CF_ATS n \<longleftrightarrow> n = 2"
  "bit CF_DEVICE_TLB n \<longleftrightarrow> n = 3" "bit CF_INTERRUPT_REMAPPING n \<longleftrightarrow> n = 4"
  "bit CF_NESTED_TRANSLATION n \<longleftrightarrow> n = 5" "bit CF_PAGE_REQUESTS n \<longleftrightarrow> n = 6"
  "bit CF_DIRTY_TRACKING n \<longleftrightarrow> n = 7"
  unfolding CF_defs bit_push_bit_1_iff by auto

lemma cap_supports_width_bit [field_simps_bits]:
  "cap_supports_address_width c Bits39 \<longleftrightarrow> bit c 9"
  "cap_supports_address_width c Bits48 \<longleftrightarrow> bit c 10"
  "cap_supports_address_width c Bits57 \<longleftrightarrow> bit c 11"
  unfolding cap_supports_address_width_def width_sagaw_bit.simps and_push_bit_1_eq_0
    cap_supported_agaw_mask_def CAP_SAGAW_MASK_def CAP_SAGAW_SHIFT_def and_mask_numerals
  by (simp_all add: bit_simps)

lemma cap_leaf_size_bit [field_simps_bits]:
  "cap_supports_leaf_size c Size2M \<longleftrightarrow> bit c 34" "cap_supports_leaf_size c Size1G \<longleftrightarrow> bit c 35"
proof -
  have two: "x AND 2 = x AND push_bit 1 1" and one: "x AND 1 = x AND push_bit 0 1" for x :: u8
    by simp_all
  show "cap_supports_leaf_size c Size2M \<longleftrightarrow> bit c 34" "cap_supports_leaf_size c Size1G \<longleftrightarrow> bit c 35"
    unfolding cap_supports_leaf_size_def page_size.case two one and_push_bit_1_eq_0
      cap_superpage_mask_def CAP_SLLPS_MASK_def CAP_SLLPS_SHIFT_def and_mask_numerals
    by (simp_all add: bit_simps)
qed

lemma unat_saturating_inc:
  "unat x < 2 ^ LENGTH('a) - 1 \<Longrightarrow> unat (saturating_inc (x :: 'a::len word)) = unat x + 1"
proof -
  assume lt: "unat x < 2 ^ LENGTH('a) - 1"
  then have "x \<noteq> - 1" by (auto simp: unsigned_minus_1_eq_mask mask_eq_exp_minus_1)
  then show ?thesis using lt by (simp add: saturating_inc_def unat_word_ariths)
qed

section \<open>Versions, domains and unit descriptors\<close>

definition VTD_DOMAIN_MASK :: u32 where "VTD_DOMAIN_MASK = 0xffff"

definition VTD_DEFAULT_DOMAIN :: io_domain where
  "VTD_DEFAULT_DOMAIN = dom_from_parts_trusted VTD_DOMAIN_MASK 1 0"

type_synonym vtd_version = u32

definition version_major :: "vtd_version \<Rightarrow> u8" where
  "version_major v = ucast (drop_bit 4 v AND 0xf)"

definition version_minor :: "vtd_version \<Rightarrow> u8" where
  "version_minor v = ucast (v AND 0xf)"

record vtd_domain =
  vd_id :: io_domain
  vd_root :: phys_addr
  vd_width :: vtd_width
  vd_stage :: translation_stage

record vtd_domain_controls =
  vc_id :: io_domain
  vc_width :: vtd_width

definition vd_controls :: "vtd_domain \<Rightarrow> vtd_domain_controls" where
  "vd_controls d = \<lparr>vc_id = vd_id d, vc_width = vd_width d\<rparr>"

definition vc_stage :: "vtd_domain_controls \<Rightarrow> translation_stage" where
  "vc_stage c = Stage2"

record vtd_domain_token =
  vt_root :: phys_addr
  vt_controls :: vtd_domain_controls

definition vt_domain :: "vtd_domain_token \<Rightarrow> vtd_domain" where
  "vt_domain t = \<lparr>vd_id = vc_id (vt_controls t), vd_root = vt_root t,
     vd_width = vc_width (vt_controls t), vd_stage = vc_stage (vt_controls t)\<rparr>"

definition domain_install ::
    "ext_ops \<Rightarrow> phys_addr \<Rightarrow> vtd_domain_controls \<Rightarrow> (vtd_domain_token, paging_error) res" where
  "domain_install E root controls =
     (if \<not> addr_is_aligned E root (page_bytes E Size4K) then Err NotAligned
      else Ok \<lparr>vt_root = root, vt_controls = controls\<rparr>)"

definition domain_activate :: "vtd_domain_token \<Rightarrow> (unit, paging_error) res" where
  "domain_activate t = Err InvalidMappingShape"

record vtd_info =
  vi_base :: iommu_info
  vi_version :: vtd_version
  vi_host_address_width :: "u8 option"
  vi_cap :: vtd_cap
  vi_ecap :: vtd_ecap
  vi_explicit_device_scopes :: bool

definition vtd_info_from_registers ::
    "u16 option \<Rightarrow> addr_range \<Rightarrow> u32 \<Rightarrow> u8 option \<Rightarrow> u64 \<Rightarrow> u64 \<Rightarrow> bool \<Rightarrow> vtd_info" where
  "vtd_info_from_registers segment mmio version haw cap ecap explicit =
     \<lparr>vi_base = \<lparr>ii_kind = IntelVtd, ii_segment = segment, ii_mmio = mmio,
                 ii_caps = ecap_capability_flags ecap, ii_stage = Stage2\<rparr>,
      vi_version = version, vi_host_address_width = haw, vi_cap = cap, vi_ecap = ecap,
      vi_explicit_device_scopes = explicit\<rparr>"

definition vi_best_second_level_width :: "vtd_info \<Rightarrow> vtd_width option" where
  "vi_best_second_level_width i = cap_best_address_width (vi_cap i)"

definition vi_supports_leaf_size :: "vtd_info \<Rightarrow> page_size \<Rightarrow> bool" where
  "vi_supports_leaf_size i sz \<longleftrightarrow> cap_supports_leaf_size (vi_cap i) sz"

section \<open>Properties\<close>

text \<open>The width a unit reports as best is the largest second-level width its capability
  register supports, and there is none exactly when bits 9, 10 and 11 (the supported widths of
  39, 48 and 57 bits) are all clear.\<close>

theorem best_width_is_largest:
  "(cap_best_address_width c = Some w \<longleftrightarrow>
      cap_supports_address_width c w \<and> (\<forall>v. cap_supports_address_width c v \<longrightarrow> v \<le> w)) \<and>
   (cap_best_address_width c = None \<longleftrightarrow> \<not> bit c 9 \<and> \<not> bit c 10 \<and> \<not> bit c 11)"
proof -
  have all: "(\<forall>v. P v) \<longleftrightarrow> P Bits39 \<and> P Bits48 \<and> P Bits57" for P
    by (metis vtd_width.exhaust)
  show ?thesis
    unfolding all
    by (cases w) (auto simp: cap_best_address_width_def less_eq_vtd_width_def cap_supports_width_bit)
qed

lemma best_width_is_largest_witness:
  "cap_best_address_width (push_bit 10 1) = Some Bits48 \<and> cap_best_address_width 0 = None"
proof -
  have "cap_supports_address_width (push_bit 10 1) v \<longrightarrow> v \<le> Bits48" for v
    by (cases v) (auto simp: less_eq_vtd_width_def cap_supports_width_bit bit_push_bit_1_iff simp del: push_bit_of_1)
  moreover have "cap_supports_address_width (push_bit 10 1) Bits48"
    by (simp add: cap_supports_width_bit bit_push_bit_1_iff del: push_bit_of_1)
  ultimately show ?thesis
    using best_width_is_largest [of "push_bit 10 1" Bits48] best_width_is_largest [of 0 Bits48] by simp
qed

text \<open>The capability flags of a discovered unit are exactly those of its extended capability
  register: translation always, PASID, device TLB, interrupt remapping, nested translation, page
  requests and dirty tracking when bits 40, 2, 3, 26, 29 and 45 are set, and no other.\<close>

theorem capability_flags_exact:
  "bit (ii_caps (vi_base (vtd_info_from_registers s m v h c e x))) n \<longleftrightarrow>
     n = 0 \<or> n = 1 \<and> bit e 40 \<or> n = 3 \<and> bit e 2 \<or> n = 4 \<and> bit e 3 \<or> n = 5 \<and> bit e 26 \<or>
     n = 6 \<and> bit e 29 \<or> n = 7 \<and> bit e 45"
  by (auto simp: vtd_info_from_registers_def ecap_capability_flags_def Let_def cf_or_def bit_or_iff
      CF_bits ecap_flag_bits)

end
