(* ===== verification/Paging.thy ===== *)
theory Paging
  imports Vtd_Caps
begin

text \<open>
  The I/O page-table entry formats of the repository, \<open>intel/paging.rs\<close> and \<open>amd/paging.rs\<close>, and
  the table geometries (\<open>PagingMetaData\<close>) of the VT-d, AMD-Vi, RISC-V and SMMUv3 modules. The
  page-table walker is external; it relies on the contract the locale \<open>pte_format\<close> states.
  Access flags and memory attributes are external: \<open>A\<close> carries the operations of the flags and
  \<open>wb\<close> is the attribute value \<open>MemoryAttributes::writeback()\<close>.
\<close>

section \<open>The contract of an entry format\<close>

datatype pte_kind = KindInvalid | KindLeaf | KindTable

locale pte_format =
  fixes leaf :: "usize \<Rightarrow> 'a \<Rightarrow> page_size \<Rightarrow> u64"
    and table :: "usize \<Rightarrow> nat \<Rightarrow> u64"
    and addr :: "u64 \<Rightarrow> usize"
    and kind :: "u64 \<Rightarrow> nat \<Rightarrow> pte_kind"
    and usable :: "'a \<Rightarrow> bool"
    and leaf_at :: "nat \<Rightarrow> page_size \<Rightarrow> bool"
  assumes leaf_addr: "4096 dvd p \<Longrightarrow> p < 2 ^ 52 \<Longrightarrow> addr (leaf p a s) = p"
    and table_addr: "4096 dvd p \<Longrightarrow> p < 2 ^ 52 \<Longrightarrow> addr (table p l) = p"
    and leaf_kind: "4096 dvd p \<Longrightarrow> p < 2 ^ 52 \<Longrightarrow> usable a \<Longrightarrow> leaf_at l s \<Longrightarrow> kind (leaf p a s) l = KindLeaf"
    and table_kind: "4096 dvd p \<Longrightarrow> p < 2 ^ 52 \<Longrightarrow> 2 \<le> l \<Longrightarrow> l \<le> 5 \<Longrightarrow> kind (table p l) l = KindTable"
    and cleared: "kind 0 l = KindInvalid"
begin

lemma table_inject:
  "4096 dvd p \<Longrightarrow> p < 2 ^ 52 \<Longrightarrow> 4096 dvd q \<Longrightarrow> q < 2 ^ 52 \<Longrightarrow> table p l = table q l \<Longrightarrow> p = q"
  using table_addr by metis

text \<open>No entry is read both as a leaf and as a table, so a walk decides at every level.\<close>

lemma leaf_is_not_table:
  assumes "4096 dvd p" and "p < 2 ^ 52" and "4096 dvd q" and "q < 2 ^ 52" and "usable a"
    and "leaf_at l s" and "2 \<le> l" and "l \<le> 5"
  shows "leaf p a s \<noteq> table q l"
  using leaf_kind [OF assms(1,2,5,6)] table_kind [OF assms(3,4,7,8)] by auto

end

section \<open>Intel VT-d second-level entries\<close>

record ('f, 'm) sl_flags =
  sf_access :: 'f
  sf_attrs :: 'm

definition VTD_READ :: u64 where "VTD_READ = push_bit 0 1"
definition VTD_WRITE :: u64 where "VTD_WRITE = push_bit 1 1"
definition VTD_SUPER_PAGE :: u64 where "VTD_SUPER_PAGE = push_bit 7 1"
definition VTD_PRESENT :: u64 where "VTD_PRESENT = VTD_READ OR VTD_WRITE"

definition vtd_flags_new :: "'m \<Rightarrow> 'f \<Rightarrow> ('f, 'm) sl_flags" where
  "vtd_flags_new wb access = \<lparr>sf_access = access, sf_attrs = wb\<rparr>"

definition vtd_flags_from_dma :: "('f, 'm) dma_attrs \<Rightarrow> ('f, 'm) sl_flags" where
  "vtd_flags_from_dma d = \<lparr>sf_access = da_access d, sf_attrs = da_memory d\<rparr>"

definition vtd_flags_to_dma :: "('f, 'm) sl_flags \<Rightarrow> ('f, 'm) dma_attrs" where
  "vtd_flags_to_dma f = \<lparr>da_access = sf_access f, da_memory = sf_attrs f\<rparr>"

definition vtd_to_leaf_bits :: "'f access_ops \<Rightarrow> ('f, 'm) sl_flags \<Rightarrow> page_size \<Rightarrow> u64" where
  "vtd_to_leaf_bits A f sz =
     (let b0 = 0;
          b1 = if af_contains A (sf_access f) (af_READ A) then b0 OR VTD_READ else b0;
          b2 = if af_contains A (sf_access f) (af_WRITE A) then b1 OR VTD_WRITE else b1
      in if sz \<noteq> Size4K then b2 OR VTD_SUPER_PAGE else b2)"

definition vtd_flags_from_bits :: "'f access_ops \<Rightarrow> 'm \<Rightarrow> u64 \<Rightarrow> ('f, 'm) sl_flags" where
  "vtd_flags_from_bits A wb bits =
     (let a0 = af_empty A;
          a1 = if bits AND VTD_READ \<noteq> 0 then af_union A a0 (af_READ A) else a0;
          a2 = if bits AND VTD_WRITE \<noteq> 0 then af_union A a1 (af_WRITE A) else a1
      in \<lparr>sf_access = a2, sf_attrs = wb\<rparr>)"

definition vtd_new_leaf :: "'f access_ops \<Rightarrow> phys_addr \<Rightarrow> ('f, 'm) sl_flags \<Rightarrow> page_size \<Rightarrow> u64" where
  "vtd_new_leaf A paddr f sz = (word_of_nat paddr AND ADDR_FIELD) OR vtd_to_leaf_bits A f sz"

definition vtd_new_table :: "phys_addr \<Rightarrow> nat \<Rightarrow> u64" where
  "vtd_new_table paddr level = (word_of_nat paddr AND ADDR_FIELD) OR VTD_PRESENT"

definition pte_paddr :: "u64 \<Rightarrow> phys_addr" where
  "pte_paddr e = unat (e AND ADDR_FIELD)"

definition vtd_is_present :: "u64 \<Rightarrow> bool" where
  "vtd_is_present e \<longleftrightarrow> e AND VTD_PRESENT \<noteq> 0"

definition vtd_entry_kind :: "u64 \<Rightarrow> nat \<Rightarrow> pte_kind" where
  "vtd_entry_kind e level =
     (if \<not> vtd_is_present e then KindInvalid
      else if level = 1 \<or> e AND VTD_SUPER_PAGE \<noteq> 0 then KindLeaf
      else KindTable)"

lemma vtd_const_bits [field_simps_bits]:
  "bit VTD_READ n \<longleftrightarrow> n = 0" "bit VTD_WRITE n \<longleftrightarrow> n = 1" "bit VTD_SUPER_PAGE n \<longleftrightarrow> n = 7"
  "bit VTD_PRESENT n \<longleftrightarrow> n = 0 \<or> n = 1"
  "e AND VTD_READ = 0 \<longleftrightarrow> \<not> bit e 0" "e AND VTD_WRITE = 0 \<longleftrightarrow> \<not> bit e 1"
  "e AND VTD_SUPER_PAGE = 0 \<longleftrightarrow> \<not> bit e 7"
  unfolding VTD_READ_def VTD_WRITE_def VTD_SUPER_PAGE_def VTD_PRESENT_def bit_or_iff
    bit_push_bit_1_iff and_push_bit_1_eq_0 by auto

lemma vtd_is_present_iff: "vtd_is_present e \<longleftrightarrow> bit e 0 \<or> bit e 1"
proof -
  have "e AND VTD_PRESENT = (e AND VTD_READ) OR (e AND VTD_WRITE)"
    by (simp add: VTD_PRESENT_def bit.conj_disj_distrib)
  then have "e AND VTD_PRESENT = 0 \<longleftrightarrow> e AND VTD_READ = 0 \<and> e AND VTD_WRITE = 0"
    by (simp add: or_eq_0_iff)
  then show ?thesis by (auto simp: vtd_is_present_def vtd_const_bits)
qed

lemma vtd_leaf_bits_iff:
  "bit (vtd_to_leaf_bits A f sz) n \<longleftrightarrow>
     n = 0 \<and> af_contains A (sf_access f) (af_READ A) \<or> n = 1 \<and> af_contains A (sf_access f) (af_WRITE A) \<or>
     n = 7 \<and> sz \<noteq> Size4K"
  by (auto simp: vtd_to_leaf_bits_def Let_def bit_or_iff vtd_const_bits)

lemma vtd_leaf_bit:
  assumes "4096 dvd p" and "p < 2 ^ 52"
  shows "pte_paddr (vtd_new_leaf A p f sz) = p"
    and "n < 12 \<Longrightarrow> bit (vtd_new_leaf A p f sz) n \<longleftrightarrow> bit (vtd_to_leaf_bits A f sz) n"
proof -
  have out: "n < 12 \<or> 52 \<le> n" if "bit (vtd_to_leaf_bits A f sz) n" for n
    using that by (auto simp: vtd_leaf_bits_iff)
  show "pte_paddr (vtd_new_leaf A p f sz) = p"
    by (simp add: pte_paddr_def vtd_new_leaf_def addr_or_flags(1) [OF assms out] page_addr_word(2) [OF assms])
  show "n < 12 \<Longrightarrow> bit (vtd_new_leaf A p f sz) n \<longleftrightarrow> bit (vtd_to_leaf_bits A f sz) n"
    by (simp add: vtd_new_leaf_def addr_or_flags(2) [OF assms out])
qed

lemma vtd_table_bit:
  assumes "4096 dvd p" and "p < 2 ^ 52"
  shows "pte_paddr (vtd_new_table p l) = p"
    and "n < 12 \<Longrightarrow> bit (vtd_new_table p l) n \<longleftrightarrow> n = 0 \<or> n = 1"
proof -
  have out: "n < 12 \<or> 52 \<le> n" if "bit VTD_PRESENT n" for n
    using that by (auto simp: vtd_const_bits)
  show "pte_paddr (vtd_new_table p l) = p"
    by (simp add: pte_paddr_def vtd_new_table_def addr_or_flags(1) [OF assms out] page_addr_word(2) [OF assms])
  show "n < 12 \<Longrightarrow> bit (vtd_new_table p l) n \<longleftrightarrow> n = 0 \<or> n = 1"
    unfolding vtd_new_table_def vtd_const_bits(4) [symmetric]
    by (rule addr_or_flags(2) [OF assms out]) auto
qed

definition leaf_level :: "nat \<Rightarrow> page_size \<Rightarrow> bool" where
  "leaf_level level sz \<longleftrightarrow> (level, sz) \<in> {(1, Size4K), (2, Size2M), (3, Size1G)}"

definition vtd_usable :: "'f access_ops \<Rightarrow> ('f, 'm) sl_flags \<Rightarrow> bool" where
  "vtd_usable A f \<longleftrightarrow> af_contains A (sf_access f) (af_READ A) \<or> af_contains A (sf_access f) (af_WRITE A)"

interpretation vtd_pte: pte_format "vtd_new_leaf A" vtd_new_table pte_paddr vtd_entry_kind "vtd_usable A"
  leaf_level for A :: "'f access_ops"
proof unfold_locales
  fix p a s l
  assume p: "4096 dvd p" "p < (2 :: nat) ^ 52"
  show "pte_paddr (vtd_new_leaf A p a s) = p" by (rule vtd_leaf_bit(1) [OF p])
  show "pte_paddr (vtd_new_table p l) = p" by (rule vtd_table_bit(1) [OF p])
  show "vtd_entry_kind (vtd_new_leaf A p a s) l = KindLeaf" if "vtd_usable A a" "leaf_level l s"
    using that by (auto simp: vtd_entry_kind_def vtd_is_present_iff vtd_leaf_bit(2) [OF p]
        vtd_leaf_bits_iff vtd_const_bits vtd_usable_def leaf_level_def)
  show "vtd_entry_kind (vtd_new_table p l) l = KindTable" if "2 \<le> l" "l \<le> 5"
    using that by (simp add: vtd_entry_kind_def vtd_is_present_iff vtd_table_bit(2) [OF p] vtd_const_bits)
next
  show "vtd_entry_kind 0 l = KindInvalid" for l
    by (simp add: vtd_entry_kind_def vtd_is_present_iff)
qed

section \<open>AMD-Vi entries\<close>

definition AMD_PRESENT :: u64 where "AMD_PRESENT = push_bit 0 1"
definition IO_READ :: u64 where "IO_READ = push_bit 61 1"
definition IO_WRITE :: u64 where "IO_WRITE = push_bit 62 1"
definition NEXT_LEVEL_MASK :: u64 where "NEXT_LEVEL_MASK = push_bit 9 0x7"
definition LARGE_LEAF_LEVEL :: u8 where "LARGE_LEAF_LEVEL = 7"

definition level_enc :: "u8 \<Rightarrow> u64" where
  "level_enc level = push_bit 9 (ucast level) AND NEXT_LEVEL_MASK"

definition next_level :: "u64 \<Rightarrow> u8" where
  "next_level bits = ucast (drop_bit 9 bits AND 0x7)"

definition amd_to_leaf_bits :: "'f access_ops \<Rightarrow> ('f, 'm) sl_flags \<Rightarrow> page_size \<Rightarrow> u64" where
  "amd_to_leaf_bits A f sz =
     (let b0 = AMD_PRESENT;
          b1 = if af_contains A (sf_access f) (af_READ A) then b0 OR IO_READ else b0;
          b2 = if af_contains A (sf_access f) (af_WRITE A) then b1 OR IO_WRITE else b1
      in if sz \<noteq> Size4K then b2 OR level_enc LARGE_LEAF_LEVEL else b2)"

definition amd_flags_from_bits :: "'f access_ops \<Rightarrow> 'm \<Rightarrow> u64 \<Rightarrow> ('f, 'm) sl_flags" where
  "amd_flags_from_bits A wb bits =
     (let a0 = af_empty A;
          a1 = if bits AND IO_READ \<noteq> 0 then af_union A a0 (af_READ A) else a0;
          a2 = if bits AND IO_WRITE \<noteq> 0 then af_union A a1 (af_WRITE A) else a1
      in \<lparr>sf_access = a2, sf_attrs = wb\<rparr>)"

definition amd_new_leaf :: "'f access_ops \<Rightarrow> phys_addr \<Rightarrow> ('f, 'm) sl_flags \<Rightarrow> page_size \<Rightarrow> u64" where
  "amd_new_leaf A paddr f sz = (word_of_nat paddr AND ADDR_FIELD) OR amd_to_leaf_bits A f sz"

definition saturating_dec :: "'a::len word \<Rightarrow> 'a word" where
  "saturating_dec x = (if x = 0 then 0 else x - 1)"

definition amd_new_table :: "phys_addr \<Rightarrow> u8 \<Rightarrow> u64" where
  "amd_new_table paddr level =
     (word_of_nat paddr AND ADDR_FIELD) OR AMD_PRESENT OR IO_READ OR IO_WRITE OR
       level_enc (saturating_dec level)"

definition amd_is_present :: "u64 \<Rightarrow> bool" where
  "amd_is_present e \<longleftrightarrow> e AND AMD_PRESENT \<noteq> 0"

definition amd_entry_kind :: "u64 \<Rightarrow> u8 \<Rightarrow> pte_kind" where
  "amd_entry_kind e level =
     (if \<not> amd_is_present e then KindInvalid
      else
        let nxt = next_level e
        in if level = 1 then KindLeaf
           else if nxt = saturating_dec level then KindTable
           else if nxt = 0 \<or> nxt = LARGE_LEAF_LEVEL then KindLeaf
           else KindInvalid)"

lemma NEXT_LEVEL_MASK_bit: "bit NEXT_LEVEL_MASK n \<longleftrightarrow> 9 \<le> n \<and> n < 12"
proof -
  have eq: "NEXT_LEVEL_MASK = push_bit 9 (mask 3)"
    by (simp add: NEXT_LEVEL_MASK_def mask_eq_exp_minus_1)
  show ?thesis unfolding eq by (auto simp: bit_simps)
qed

lemma amd_const_bits [field_simps_bits]:
  "bit AMD_PRESENT n \<longleftrightarrow> n = 0" "bit IO_READ n \<longleftrightarrow> n = 61" "bit IO_WRITE n \<longleftrightarrow> n = 62"
  "bit (level_enc l) n \<longleftrightarrow> 9 \<le> n \<and> n < 12 \<and> bit l (n - 9)"
  "e AND AMD_PRESENT = 0 \<longleftrightarrow> \<not> bit e 0" "e AND IO_READ = 0 \<longleftrightarrow> \<not> bit e 61"
  "e AND IO_WRITE = 0 \<longleftrightarrow> \<not> bit e 62"
  unfolding AMD_PRESENT_def IO_READ_def IO_WRITE_def and_push_bit_1_eq_0 bit_push_bit_1_iff
    level_enc_def bit_and_iff NEXT_LEVEL_MASK_bit
  by (auto simp: bit_push_bit_iff bit_unsigned_iff)

lemma next_level_bit: "bit (next_level e) n \<longleftrightarrow> n < 3 \<and> bit e (n + 9)"
  unfolding next_level_def and_mask_numerals by (auto simp: bit_simps add.commute)

lemma amd_leaf_bits_iff:
  "bit (amd_to_leaf_bits A f sz) n \<longleftrightarrow>
     n = 0 \<or> n = 61 \<and> af_contains A (sf_access f) (af_READ A) \<or>
     n = 62 \<and> af_contains A (sf_access f) (af_WRITE A) \<or> 9 \<le> n \<and> n < 12 \<and> sz \<noteq> Size4K"
proof -
  have seven: "LARGE_LEAF_LEVEL = mask 3" by (simp add: LARGE_LEAF_LEVEL_def mask_eq_exp_minus_1)
  have lv: "bit (level_enc LARGE_LEAF_LEVEL) n \<longleftrightarrow> 9 \<le> n \<and> n < 12"
    unfolding amd_const_bits(4) seven by (auto simp: bit_mask_iff)
  show ?thesis
    by (auto simp: amd_to_leaf_bits_def Let_def bit_or_iff amd_const_bits(1-3) lv)
qed

lemma amd_leaf_bit:
  assumes "4096 dvd p" and "p < 2 ^ 52"
  shows "pte_paddr (amd_new_leaf A p f sz) = p"
    and "n < 12 \<or> 52 \<le> n \<Longrightarrow> bit (amd_new_leaf A p f sz) n \<longleftrightarrow> bit (amd_to_leaf_bits A f sz) n"
proof -
  have out: "n < 12 \<or> 52 \<le> n" if "bit (amd_to_leaf_bits A f sz) n" for n
    using that by (auto simp: amd_leaf_bits_iff)
  show "pte_paddr (amd_new_leaf A p f sz) = p"
    by (simp add: pte_paddr_def amd_new_leaf_def addr_or_flags(1) [OF assms out] page_addr_word(2) [OF assms])
  show "n < 12 \<or> 52 \<le> n \<Longrightarrow> bit (amd_new_leaf A p f sz) n \<longleftrightarrow> bit (amd_to_leaf_bits A f sz) n"
    unfolding amd_new_leaf_def by (rule addr_or_flags(2) [OF assms out])
qed

definition amd_table_flags :: "u8 \<Rightarrow> u64" where
  "amd_table_flags level = AMD_PRESENT OR IO_READ OR IO_WRITE OR level_enc (saturating_dec level)"

lemma amd_table_flags_bit:
  "bit (amd_table_flags l) n \<longleftrightarrow>
     n = 0 \<or> n = 61 \<or> n = 62 \<or> 9 \<le> n \<and> n < 12 \<and> bit (saturating_dec l) (n - 9)"
  by (auto simp: amd_table_flags_def bit_or_iff amd_const_bits)

lemma amd_table_bit:
  assumes "4096 dvd p" and "p < 2 ^ 52"
  shows "pte_paddr (amd_new_table p l) = p"
    and "n < 12 \<or> 52 \<le> n \<Longrightarrow> bit (amd_new_table p l) n \<longleftrightarrow> bit (amd_table_flags l) n"
proof -
  have eq: "amd_new_table p l = (word_of_nat p AND ADDR_FIELD) OR amd_table_flags l"
    by (simp add: amd_new_table_def amd_table_flags_def or.assoc)
  have out: "n < 12 \<or> 52 \<le> n" if "bit (amd_table_flags l) n" for n
    using that by (auto simp: amd_table_flags_bit)
  show "pte_paddr (amd_new_table p l) = p"
    by (simp add: pte_paddr_def eq addr_or_flags(1) [OF assms out] page_addr_word(2) [OF assms])
  show "n < 12 \<or> 52 \<le> n \<Longrightarrow> bit (amd_new_table p l) n \<longleftrightarrow> bit (amd_table_flags l) n"
    unfolding eq by (rule addr_or_flags(2) [OF assms out])
qed

lemma next_level_leaf:
  assumes "4096 dvd p" and "p < 2 ^ 52"
  shows "next_level (amd_new_leaf A p f sz) = (if sz = Size4K then 0 else LARGE_LEAF_LEVEL)"
proof -
  have seven: "LARGE_LEAF_LEVEL = mask 3" by (simp add: LARGE_LEAF_LEVEL_def mask_eq_exp_minus_1)
  show ?thesis
    unfolding seven
    by (rule bit_word_eqI) (auto simp: next_level_bit amd_leaf_bit(2) [OF assms] amd_leaf_bits_iff bit_mask_iff)
qed

lemma next_level_table:
  assumes "4096 dvd p" and "p < 2 ^ 52" and "l < 8"
  shows "next_level (amd_new_table p l) = saturating_dec l"
proof -
  have "saturating_dec l < 2 ^ 3"
    using assms(3) by (auto simp: saturating_dec_def word_less_nat_alt unat_sub word_le_nat_alt
        unat_eq_zero [symmetric])
  then have "bit (saturating_dec l) i \<Longrightarrow> i < 3" for i by (rule less_power_bit)
  then show ?thesis
    by (intro bit_word_eqI)
      (auto simp: next_level_bit amd_table_bit(2) [OF assms(1,2)] amd_table_flags_bit)
qed

text \<open>The walker's levels as numbers of the entry's width.\<close>

interpretation amd_pte: pte_format "amd_new_leaf A" "\<lambda>p l. amd_new_table p (of_nat l)" pte_paddr
  "\<lambda>e l. amd_entry_kind e (of_nat l)" "\<lambda>_. True" leaf_level for A :: "'f access_ops"
proof unfold_locales
  fix p s and a :: "('f, 'm) sl_flags" and l :: nat
  assume p: "4096 dvd p" "p < (2 :: nat) ^ 52"
  show "pte_paddr (amd_new_leaf A p a s) = p" by (rule amd_leaf_bit(1) [OF p])
  show "pte_paddr (amd_new_table p (of_nat l)) = p" by (rule amd_table_bit(1) [OF p])
  show "amd_entry_kind (amd_new_leaf A p a s) (of_nat l) = KindLeaf" if "leaf_level l s"
    using that by (auto simp: amd_entry_kind_def amd_is_present_def amd_leaf_bit(2) [OF p] Let_def
        amd_leaf_bits_iff amd_const_bits leaf_level_def next_level_leaf [OF p] saturating_dec_def
        LARGE_LEAF_LEVEL_def)
  show "amd_entry_kind (amd_new_table p (of_nat l)) (of_nat l) = KindTable" if "2 \<le> l" "l \<le> 5"
  proof -
    have l: "l \<in> {2, 3, 4, 5}" using that by auto
    then have "(of_nat l :: u8) < 8" "(of_nat l :: u8) \<noteq> 1" by auto
    then show ?thesis
      by (simp add: amd_entry_kind_def amd_is_present_def amd_table_bit(2) [OF p] amd_const_bits
          next_level_table [OF p] amd_table_flags_bit)
  qed
next
  show "amd_entry_kind 0 (of_nat l) = KindInvalid" for l
    by (simp add: amd_entry_kind_def amd_is_present_def)
qed

section \<open>Table geometries\<close>

text \<open>
  A \<open>PagingMetaData\<close> implementation: its constants and its three functions of the level. Levels
  count from 1; the subtraction in \<open>level_shift\<close> traps at level 0. \<open>d\<close> is the trait's default
  for the index width, which the VT-d, AMD-Vi and RISC-V modules do not override.
\<close>

record paging_meta =
  pm_LEVELS :: nat
  pm_PA_MAX_BITS :: nat
  pm_VA_MAX_BITS :: nat
  pm_level_shift :: "nat \<Rightarrow> (nat, unit) res"
  pm_level_index_bits :: "nat \<Rightarrow> nat"
  pm_level_supports_leaf :: "nat \<Rightarrow> page_size \<Rightarrow> bool"

definition shift_at :: "nat \<Rightarrow> nat \<Rightarrow> nat \<Rightarrow> (nat, unit) res" where
  "shift_at base bits level = (if level = 0 then Panic else Ok (base + (level - 1) * bits))"

definition vtd_meta :: "nat \<Rightarrow> nat \<Rightarrow> nat \<Rightarrow> paging_meta" where
  "vtd_meta d levels va_bits =
     \<lparr>pm_LEVELS = levels, pm_PA_MAX_BITS = 52, pm_VA_MAX_BITS = va_bits,
      pm_level_shift = shift_at 12 9, pm_level_index_bits = (\<lambda>_. d),
      pm_level_supports_leaf = leaf_level\<rparr>"

definition amd_meta :: "nat \<Rightarrow> nat \<Rightarrow> nat \<Rightarrow> paging_meta" where
  "amd_meta d levels va_bits =
     \<lparr>pm_LEVELS = levels, pm_PA_MAX_BITS = 52, pm_VA_MAX_BITS = va_bits,
      pm_level_shift = shift_at 12 9, pm_level_index_bits = (\<lambda>_. d),
      pm_level_supports_leaf = leaf_level\<rparr>"

definition rv_meta :: "nat \<Rightarrow> nat \<Rightarrow> nat \<Rightarrow> paging_meta" where
  "rv_meta d levels va_bits =
     \<lparr>pm_LEVELS = levels, pm_PA_MAX_BITS = 56, pm_VA_MAX_BITS = va_bits,
      pm_level_shift = shift_at 12 9, pm_level_index_bits = (\<lambda>_. d),
      pm_level_supports_leaf = (\<lambda>level sz.
        (level, sz) \<in> {(1, Size4K), (2, Size2M), (3, Size1G), (4, Size512G)} \<and> level \<le> levels)\<rparr>"

definition smmu_meta_4k :: "nat \<Rightarrow> nat \<Rightarrow> nat \<Rightarrow> paging_meta" where
  "smmu_meta_4k levels va_bits pa_bits =
     \<lparr>pm_LEVELS = levels, pm_PA_MAX_BITS = pa_bits, pm_VA_MAX_BITS = va_bits,
      pm_level_shift = shift_at 12 9,
      pm_level_index_bits = (\<lambda>level. if levels = 5 \<and> level = 5 then 4 else 9),
      pm_level_supports_leaf = leaf_level\<rparr>"

definition smmu_meta_16k :: "nat \<Rightarrow> nat \<Rightarrow> nat \<Rightarrow> paging_meta" where
  "smmu_meta_16k va_bits pa_bits root_bits =
     \<lparr>pm_LEVELS = 4, pm_PA_MAX_BITS = pa_bits, pm_VA_MAX_BITS = va_bits,
      pm_level_shift = shift_at 14 11,
      pm_level_index_bits = (\<lambda>level. if level = 4 then root_bits else 11),
      pm_level_supports_leaf = (\<lambda>level sz. (level, sz) \<in> {(1, Size16K), (2, Size32M), (3, Size64G)})\<rparr>"

definition smmu_meta_64k :: "nat \<Rightarrow> nat \<Rightarrow> nat \<Rightarrow> paging_meta" where
  "smmu_meta_64k va_bits pa_bits root_bits =
     \<lparr>pm_LEVELS = 3, pm_PA_MAX_BITS = pa_bits, pm_VA_MAX_BITS = va_bits,
      pm_level_shift = shift_at 16 13,
      pm_level_index_bits = (\<lambda>level. if level = 3 then root_bits else 13),
      pm_level_supports_leaf = (\<lambda>level sz. (level, sz) \<in> {(1, Size64K), (2, Size512M), (3, Size4T)})\<rparr>"

definition all_metas :: "nat \<Rightarrow> paging_meta list" where
  "all_metas d =
     [vtd_meta d 3 39, vtd_meta d 4 48, vtd_meta d 5 57, amd_meta d 3 39, amd_meta d 4 48, amd_meta d 5 57,
      rv_meta d 3 39, rv_meta d 4 48, rv_meta d 5 57, smmu_meta_4k 4 48 48, smmu_meta_4k 5 52 52,
      smmu_meta_16k 48 48 1, smmu_meta_16k 52 52 5, smmu_meta_64k 48 48 6, smmu_meta_64k 52 52 10]"

text \<open>
  The index fields of the levels tile the virtual address above the page offset, and a leaf maps
  as many bytes as an entry of its level covers.
\<close>

definition meta_consistent :: "ext_ops \<Rightarrow> paging_meta \<Rightarrow> bool" where
  "meta_consistent E m \<longleftrightarrow>
     (\<forall>l \<in> {1..<pm_LEVELS m}. pm_level_shift m (l + 1) =
        res_map (\<lambda>s. s + pm_level_index_bits m l) (pm_level_shift m l)) \<and>
     res_map (\<lambda>s. s + pm_level_index_bits m (pm_LEVELS m)) (pm_level_shift m (pm_LEVELS m)) =
       Ok (pm_VA_MAX_BITS m) \<and>
     (\<forall>l sz. pm_level_supports_leaf m l sz \<longrightarrow>
        l \<le> pm_LEVELS m \<and> (\<exists>k. pm_level_shift m l = Ok k \<and> page_bytes E sz = 2 ^ k))"

lemma meta_consistentI:
  assumes "pm_level_shift m = shift_at b w" and "0 < pm_LEVELS m"
    and "\<And>l. l < pm_LEVELS m \<Longrightarrow> pm_level_index_bits m l = w"
    and "b + (pm_LEVELS m - 1) * w + pm_level_index_bits m (pm_LEVELS m) = pm_VA_MAX_BITS m"
    and "\<And>l sz. pm_level_supports_leaf m l sz \<Longrightarrow>
      0 < l \<and> l \<le> pm_LEVELS m \<and> page_bytes E sz = 2 ^ (b + (l - 1) * w)"
  shows "meta_consistent E m"
  unfolding meta_consistent_def
proof (intro conjI ballI allI impI)
  fix l
  assume "l \<in> {1..<pm_LEVELS m}"
  then show "pm_level_shift m (l + 1) = res_map (\<lambda>s. s + pm_level_index_bits m l) (pm_level_shift m l)"
    by (cases l) (simp_all add: assms(1,3) shift_at_def)
next
  show "res_map (\<lambda>s. s + pm_level_index_bits m (pm_LEVELS m)) (pm_level_shift m (pm_LEVELS m)) =
      Ok (pm_VA_MAX_BITS m)"
    using assms(2,4) by (simp add: assms(1) shift_at_def)
next
  fix l sz
  assume "pm_level_supports_leaf m l sz"
  from assms(5) [OF this] show "l \<le> pm_LEVELS m" "\<exists>k. pm_level_shift m l = Ok k \<and> page_bytes E sz = 2 ^ k"
    by (simp_all add: assms(1) shift_at_def)
qed

lemma metas_consistent:
  assumes "ext_ok E"
  shows "3 \<le> n \<Longrightarrow> va = 12 + 9 * n \<Longrightarrow> meta_consistent E (vtd_meta 9 n va)"
    and "3 \<le> n \<Longrightarrow> va = 12 + 9 * n \<Longrightarrow> meta_consistent E (amd_meta 9 n va)"
    and "3 \<le> n \<Longrightarrow> va = 12 + 9 * n \<Longrightarrow> meta_consistent E (rv_meta 9 n va)"
    and "3 \<le> n \<Longrightarrow> va = 3 + 9 * n + (if n = 5 then 4 else 9) \<Longrightarrow> meta_consistent E (smmu_meta_4k n va pa)"
    and "va = 47 + r \<Longrightarrow> meta_consistent E (smmu_meta_16k va pa r)"
    and "va = 42 + r \<Longrightarrow> meta_consistent E (smmu_meta_64k va pa r)"
  using assms
  by (intro meta_consistentI [where b = 12 and w = 9] meta_consistentI [where b = 14 and w = 11]
        meta_consistentI [where b = 16 and w = 13];
      auto simp: vtd_meta_def amd_meta_def rv_meta_def smmu_meta_4k_def smmu_meta_16k_def smmu_meta_64k_def
        leaf_level_def ext_ok_def)+

lemma flags_access:
  assumes A: "access_ok A" and that: "x \<in> set (access_named A)"
  shows "af_contains A (let a1 = if r then af_union A (af_empty A) (af_READ A) else af_empty A
      in if w then af_union A a1 (af_WRITE A) else a1) x \<longleftrightarrow> x = af_READ A \<and> r \<or> x = af_WRITE A \<and> w"
proof -
  have n: "af_READ A \<in> set (access_named A)" "af_WRITE A \<in> set (access_named A)"
    by (simp_all add: access_named_def)
  show ?thesis
    using access_ok_contains [OF A n(1) that] access_ok_contains [OF A n(2) that] access_ok_neq [OF A]
    by (auto simp: Let_def access_ok_contains(1) [OF A n(1) that] access_ok_contains(1) [OF A n(2) that])
qed

section \<open>Properties\<close>

text \<open>C29. A VT-d second-level leaf built for a page-aligned physical address below \<open>2 ^ 52\<close> reads
  back that address and exactly the read and write permissions it was given (execute and user
  permissions are not encoded), has the super-page bit exactly when it is not a 4 KiB leaf, and
  at the level of its size it is classified as a leaf when it grants an access and as invalid
  when it grants none; a table entry for that address reads it back and is a table at every
  level above the first.\<close>

theorem vtd_pte_roundtrip:
  assumes "access_ok A" and "4096 dvd p" and "p < 2 ^ 52" and "leaf_level l sz"
  shows "pte_paddr (vtd_new_leaf A p f sz) = p \<and>
    (\<forall>x \<in> set (access_named A). af_contains A (sf_access (vtd_flags_from_bits A wb (vtd_new_leaf A p f sz))) x \<longleftrightarrow>
       (x = af_READ A \<or> x = af_WRITE A) \<and> af_contains A (sf_access f) x) \<and>
    (bit (vtd_new_leaf A p f sz) 7 \<longleftrightarrow> sz \<noteq> Size4K) \<and>
    vtd_entry_kind (vtd_new_leaf A p f sz) l = (if vtd_usable A f then KindLeaf else KindInvalid) \<and>
    pte_paddr (vtd_new_table p k) = p \<and>
    (2 \<le> k \<and> k \<le> 5 \<longrightarrow> vtd_entry_kind (vtd_new_table p k) k = KindTable)"
proof -
  note p = assms(2,3)
  have fl: "sf_access (vtd_flags_from_bits A wb e) =
      (let a1 = if bit e 0 then af_union A (af_empty A) (af_READ A) else af_empty A
       in if bit e 1 then af_union A a1 (af_WRITE A) else a1)" for e
    by (simp add: vtd_flags_from_bits_def vtd_const_bits Let_def)
  have "vtd_entry_kind (vtd_new_leaf A p f sz) l = KindInvalid" if "\<not> vtd_usable A f"
    using that by (auto simp: vtd_entry_kind_def vtd_is_present_iff vtd_leaf_bit(2) [OF p]
        vtd_leaf_bits_iff vtd_usable_def)
  then show ?thesis
    using vtd_pte.leaf_addr [OF p] vtd_pte.table_addr [OF p] vtd_pte.leaf_kind [OF p _ assms(4), of A f]
      vtd_pte.table_kind [OF p, of k]
    by (auto simp: fl flags_access [OF assms(1)] vtd_leaf_bit(2) [OF p] vtd_leaf_bits_iff)
qed

lemma vtd_pte_roundtrip_witness:
  "pte_paddr (vtd_new_leaf std_access 0x12345000 \<lparr>sf_access = {READ_bit, EXECUTE_bit}, sf_attrs = ()\<rparr> Size4K) = 0x12345000 \<and>
   sf_access (vtd_flags_from_bits std_access () (vtd_new_leaf std_access 0x12345000
     \<lparr>sf_access = {READ_bit, EXECUTE_bit}, sf_attrs = ()\<rparr> Size4K)) \<noteq> {READ_bit, EXECUTE_bit}"
proof -
  have l: "leaf_level 1 Size4K" by (simp add: leaf_level_def)
  show ?thesis
    using vtd_pte_roundtrip [OF std_access_ok _ _ l, of "0x12345000"
        "\<lparr>sf_access = {READ_bit, EXECUTE_bit}, sf_attrs = ()\<rparr>" "()" 2]
    by (auto simp: std_access_def access_named_def)
qed

text \<open>C30. An AMD-Vi leaf built for a page-aligned physical address below \<open>2 ^ 52\<close> reads back that
  address and exactly the read and write permissions it was given, is present whatever it
  grants, and is a leaf at the level of its size; a table entry built for level 2 to 5 reads
  back its address, names the level below as next and is a table at its own level.\<close>

theorem amd_pte_roundtrip:
  assumes "access_ok A" and "4096 dvd p" and "p < 2 ^ 52" and "leaf_level l sz"
  shows "pte_paddr (amd_new_leaf A p f sz) = p \<and>
    (\<forall>x \<in> set (access_named A). af_contains A (sf_access (amd_flags_from_bits A wb (amd_new_leaf A p f sz))) x \<longleftrightarrow>
       (x = af_READ A \<or> x = af_WRITE A) \<and> af_contains A (sf_access f) x) \<and>
    amd_is_present (amd_new_leaf A p f sz) \<and>
    amd_entry_kind (amd_new_leaf A p f sz) (of_nat l) = KindLeaf \<and>
    (2 \<le> k \<and> k \<le> 5 \<longrightarrow> pte_paddr (amd_new_table p (of_nat k)) = p \<and>
       next_level (amd_new_table p (of_nat k)) = of_nat (k - 1) \<and>
       amd_entry_kind (amd_new_table p (of_nat k)) (of_nat k) = KindTable)"
proof -
  note p = assms(2,3)
  have fl: "sf_access (amd_flags_from_bits A wb e) =
      (let a1 = if bit e 61 then af_union A (af_empty A) (af_READ A) else af_empty A
       in if bit e 62 then af_union A a1 (af_WRITE A) else a1)" for e
    by (simp add: amd_flags_from_bits_def amd_const_bits Let_def)
  have acc: "\<forall>x \<in> set (access_named A). af_contains A (sf_access (amd_flags_from_bits A wb (amd_new_leaf A p f sz))) x \<longleftrightarrow>
       (x = af_READ A \<or> x = af_WRITE A) \<and> af_contains A (sf_access f) x"
    by (auto simp: fl flags_access [OF assms(1)] amd_leaf_bit(2) [OF p] amd_leaf_bits_iff)
  have "next_level (amd_new_table p (of_nat k)) = of_nat (k - 1)" if "2 \<le> k" "k \<le> 5"
  proof -
    have "k \<in> {2, 3, 4, 5}" using that by auto
    then show ?thesis by (auto simp: next_level_table [OF p] saturating_dec_def)
  qed
  moreover have "amd_is_present (amd_new_leaf A p f sz)"
    by (simp add: amd_is_present_def amd_const_bits amd_leaf_bit(2) [OF p] amd_leaf_bits_iff)
  ultimately show ?thesis
    using acc amd_pte.leaf_addr [OF p, of A f sz] amd_pte.table_addr [OF p, of k]
      amd_pte.leaf_kind [OF p TrueI assms(4), of A f] amd_pte.table_kind [OF p, of k]
    by (intro conjI impI) simp_all
qed

lemma amd_pte_roundtrip_witness:
  "amd_entry_kind (amd_new_leaf std_access 0x200000 \<lparr>sf_access = {}, sf_attrs = ()\<rparr> Size2M) 2 = KindLeaf \<and>
   next_level (amd_new_table 0x200000 4) = 3"
  using amd_pte_roundtrip [OF std_access_ok, of "0x200000" 2 Size2M "\<lparr>sf_access = {}, sf_attrs = ()\<rparr>" "()" 4]
  by (simp add: leaf_level_def)

text \<open>Every table geometry of the crate (VT-d, AMD-Vi, RISC-V and SMMUv3, fifteen in all) is
  consistent: the shift of each level is the shift of the level below plus its index width, the
  topmost index ends at the declared virtual address width, and a leaf size admitted at a level
  is the size that level's entries cover.\<close>

theorem geometries_consistent:
  assumes "ext_ok E"
  shows "\<forall>m \<in> set (all_metas 9). meta_consistent E m"
  by (simp add: all_metas_def metas_consistent [OF assms])

lemma geometries_consistent_witness:
  "meta_consistent std_ext (smmu_meta_16k 52 52 5)"
  using geometries_consistent [OF std_ext_ok] by (simp add: all_metas_def)

end
