(* ===== verification/Vtd_Descriptors.thy ===== *)
theory Vtd_Descriptors
  imports Paging X86_Interrupt
begin

text \<open>
  The fixed-width hardware descriptors of \<open>intel/ctrl.rs\<close>: root and context entries, interrupt
  remapping entries and messages, queued-invalidation descriptors, table base registers and
  fault records, each built from and read as 64-bit words.
\<close>

section \<open>Table backings\<close>

definition QI_ENTRY_BYTES :: usize where "QI_ENTRY_BYTES = 16"
definition QI_MIN_ENTRIES :: usize where "QI_MIN_ENTRIES = 256"
definition IQA_SIZE_MASK :: u64 where "IQA_SIZE_MASK = 0x7"
definition IRTA_SIZE_MASK :: u64 where "IRTA_SIZE_MASK = 0xf"
definition IRTA_EIME :: u64 where "IRTA_EIME = push_bit 11 1"
definition INTERRUPT_REMAP_ENTRY_BYTES :: usize where "INTERRUPT_REMAP_ENTRY_BYTES = 16"
definition INTERRUPT_REMAP_MIN_ENTRIES :: usize where "INTERRUPT_REMAP_MIN_ENTRIES = 2"
definition INTERRUPT_REMAP_MAX_ENTRIES :: usize where "INTERRUPT_REMAP_MAX_ENTRIES = 65536"
definition ROOT_ENTRY_BYTES :: usize where "ROOT_ENTRY_BYTES = 16"
definition ROOT_ENTRY_COUNT :: usize where "ROOT_ENTRY_COUNT = 256"
definition CONTEXT_ENTRY_BYTES :: usize where "CONTEXT_ENTRY_BYTES = 16"
definition CONTEXT_ENTRY_COUNT :: usize where "CONTEXT_ENTRY_COUNT = 256"
definition PAGE_ADDR_MASK :: u64 where "PAGE_ADDR_MASK = NOT 0xfff"
definition TABLE_ADDR_MASK :: u64 where "TABLE_ADDR_MASK = 0x000ffffffffff000"

lemma TABLE_ADDR_MASK_eq: "TABLE_ADDR_MASK = ADDR_FIELD"
  by (simp add: TABLE_ADDR_MASK_def ADDR_FIELD_def)

type_synonym root_table = descriptor_table_backing
type_synonym context_table = descriptor_table_backing
type_synonym interrupt_remap_table = descriptor_table_backing

definition root_table_new :: "ext_ops \<Rightarrow> addr_range \<Rightarrow> addr_range \<Rightarrow> root_table result" where
  "root_table_new E phys virt =
     dtb_new_aligned E ROOT_ENTRY_BYTES phys virt ROOT_ENTRY_COUNT (page_bytes E Size4K)"

definition root_entry_vaddr :: "ext_ops \<Rightarrow> root_table \<Rightarrow> u8 \<Rightarrow> virt_addr result" where
  "root_entry_vaddr E t bus = dtb_entry_vaddr E ROOT_ENTRY_BYTES t (unat bus)"

definition context_table_new :: "ext_ops \<Rightarrow> addr_range \<Rightarrow> addr_range \<Rightarrow> context_table result" where
  "context_table_new E phys virt =
     dtb_new_aligned E CONTEXT_ENTRY_BYTES phys virt CONTEXT_ENTRY_COUNT (page_bytes E Size4K)"

definition context_entry_index :: "pci_device \<Rightarrow> u8" where
  "context_entry_index client = push_bit 3 (pci_device_number client) OR pci_function client"

definition client_entry_vaddr :: "ext_ops \<Rightarrow> context_table \<Rightarrow> pci_device \<Rightarrow> virt_addr result" where
  "client_entry_vaddr E t client =
     dtb_entry_vaddr E CONTEXT_ENTRY_BYTES t (unat (context_entry_index client))"

definition irt_new :: "ext_ops \<Rightarrow> addr_range \<Rightarrow> addr_range \<Rightarrow> usize \<Rightarrow> interrupt_remap_table result" where
  "irt_new E phys virt entry_count =
     (if \<not> (INTERRUPT_REMAP_MIN_ENTRIES \<le> entry_count \<and> entry_count \<le> INTERRUPT_REMAP_MAX_ENTRIES) \<or>
         \<not> is_power_of_two entry_count
      then Err ErrInvalidRange
      else dtb_new_aligned E INTERRUPT_REMAP_ENTRY_BYTES phys virt entry_count (page_bytes E Size4K))"

text \<open>The subtraction traps for a table of one entry, which \<open>irt_new\<close> refuses.\<close>

definition irta_size :: "interrupt_remap_table \<Rightarrow> u64 result" where
  "irta_size t =
     (let tz = trailing_zeros64 (dtb_entry_count t)
      in if tz = 0 then Panic else Ok (word_of_nat (tz - 1) AND IRTA_SIZE_MASK))"

definition irt_entry_vaddr :: "ext_ops \<Rightarrow> interrupt_remap_table \<Rightarrow> u16 \<Rightarrow> virt_addr result" where
  "irt_entry_vaddr E t entry = dtb_entry_vaddr E INTERRUPT_REMAP_ENTRY_BYTES t (unat entry)"

section \<open>Root and context entries\<close>

record words128 =
  w_low :: u64
  w_high :: u64

definition disabled :: words128 where
  "disabled = \<lparr>w_low = 0, w_high = 0\<rparr>"

definition ROOT_ENTRY_PRESENT :: u64 where "ROOT_ENTRY_PRESENT = push_bit 0 1"
definition CONTEXT_PRESENT :: u64 where "CONTEXT_PRESENT = push_bit 0 1"
definition CONTEXT_TRANSLATION_TYPE_SHIFT :: nat where "CONTEXT_TRANSLATION_TYPE_SHIFT = 2"
definition CONTEXT_TRANSLATION_TYPE_MULTI_LEVEL :: u64 where "CONTEXT_TRANSLATION_TYPE_MULTI_LEVEL = 0"
definition CONTEXT_TRANSLATION_TYPE_PASS_THROUGH :: u64 where "CONTEXT_TRANSLATION_TYPE_PASS_THROUGH = 2"
definition CONTEXT_ADDRESS_WIDTH_MASK :: u64 where "CONTEXT_ADDRESS_WIDTH_MASK = 0x7"
definition CONTEXT_DOMAIN_ID_SHIFT :: nat where "CONTEXT_DOMAIN_ID_SHIFT = 8"

definition root_from_context_table :: "ext_ops \<Rightarrow> context_table \<Rightarrow> words128 result" where
  "root_from_context_table E t =
     (let root = r_start (dtb_phys t)
      in if \<not> addr_is_aligned E root (page_bytes E Size4K) then Err InvalidAddress
         else Ok \<lparr>w_low = (word_of_nat root AND TABLE_ADDR_MASK) OR ROOT_ENTRY_PRESENT, w_high = 0\<rparr>)"

definition root_present :: "words128 \<Rightarrow> bool" where
  "root_present e \<longleftrightarrow> w_low e AND ROOT_ENTRY_PRESENT \<noteq> 0"

definition root_context_table :: "words128 \<Rightarrow> phys_addr option" where
  "root_context_table e = (if root_present e then Some (unat (w_low e AND TABLE_ADDR_MASK)) else None)"

fun agaw_bits :: "vtd_width \<Rightarrow> u64" where
  "agaw_bits Bits39 = 1"
| "agaw_bits Bits48 = 2"
| "agaw_bits Bits57 = 3"

definition context_from_domain :: "ext_ops \<Rightarrow> vtd_domain \<Rightarrow> words128 result" where
  "context_from_domain E d =
     (let root = vd_root d
      in if \<not> addr_is_aligned E root (page_bytes E Size4K) then Err InvalidAddress
         else Ok
           \<lparr>w_low = (word_of_nat root AND TABLE_ADDR_MASK) OR CONTEXT_PRESENT OR
                     push_bit CONTEXT_TRANSLATION_TYPE_SHIFT CONTEXT_TRANSLATION_TYPE_MULTI_LEVEL,
            w_high = agaw_bits (vd_width d) OR
                     push_bit CONTEXT_DOMAIN_ID_SHIFT (ucast (dom_id VTD_DOMAIN_MASK (vd_id d)))\<rparr>)"

definition context_pass_through :: words128 where
  "context_pass_through =
     \<lparr>w_low = CONTEXT_PRESENT OR push_bit CONTEXT_TRANSLATION_TYPE_SHIFT CONTEXT_TRANSLATION_TYPE_PASS_THROUGH,
      w_high = 0\<rparr>"

definition context_from_binding ::
    "ext_ops \<Rightarrow> (pci_device, vtd_domain) binding \<Rightarrow> vtd_ecap \<Rightarrow> words128 result" where
  "context_from_binding E b cap =
     (if b_selector b \<noteq> Default then Err FeatureUnavailable
      else
        (case b_target b of
           Abort \<Rightarrow> Ok disabled
         | PassThrough \<Rightarrow> if ecap_pass_through cap then Ok context_pass_through else Err FeatureUnavailable
         | ToDomain d \<Rightarrow> context_from_domain E d))"

definition context_present :: "words128 \<Rightarrow> bool" where
  "context_present e \<longleftrightarrow> w_low e AND CONTEXT_PRESENT \<noteq> 0"

definition context_translation_type :: "words128 \<Rightarrow> u8" where
  "context_translation_type e = ucast (drop_bit CONTEXT_TRANSLATION_TYPE_SHIFT (w_low e) AND 0x7)"

definition context_domain_id :: "words128 \<Rightarrow> u16" where
  "context_domain_id e = ucast (drop_bit CONTEXT_DOMAIN_ID_SHIFT (w_high e) AND 0xffff)"

definition context_address_width_bits :: "words128 \<Rightarrow> u8" where
  "context_address_width_bits e =
     (let aw = (ucast (w_high e AND CONTEXT_ADDRESS_WIDTH_MASK) :: u8)
      in if aw = 1 then 39 else if aw = 2 then 48 else if aw = 3 then 57 else 30)"

definition context_page_table_root :: "words128 \<Rightarrow> phys_addr option" where
  "context_page_table_root e =
     (if context_present e \<and> context_translation_type e = ucast CONTEXT_TRANSLATION_TYPE_MULTI_LEVEL
      then Some (unat (w_low e AND TABLE_ADDR_MASK)) else None)"

section \<open>Interrupt remapping\<close>

definition IRTE_PRESENT :: u64 where "IRTE_PRESENT = push_bit 0 1"
definition IRTE_DESTINATION_MODE_LOGICAL :: u64 where "IRTE_DESTINATION_MODE_LOGICAL = push_bit 2 1"
definition IRTE_REDIRECTION_HINT :: u64 where "IRTE_REDIRECTION_HINT = push_bit 3 1"
definition IRTE_TRIGGER_MODE_LEVEL :: u64 where "IRTE_TRIGGER_MODE_LEVEL = push_bit 4 1"
definition IRTE_DELIVERY_MODE_SHIFT :: nat where "IRTE_DELIVERY_MODE_SHIFT = 5"
definition IRTE_VECTOR_SHIFT :: nat where "IRTE_VECTOR_SHIFT = 16"
definition IRTE_DESTINATION_SHIFT :: nat where "IRTE_DESTINATION_SHIFT = 32"
definition IRTE_SOURCE_ID_SHIFT :: nat where "IRTE_SOURCE_ID_SHIFT = 0"
definition IRTE_SOURCE_ID_QUALIFIER_SHIFT :: nat where "IRTE_SOURCE_ID_QUALIFIER_SHIFT = 16"
definition IRTE_SOURCE_VALIDATION_TYPE_SHIFT :: nat where "IRTE_SOURCE_VALIDATION_TYPE_SHIFT = 18"
definition IRTE_SOURCE_VALIDATION_VERIFY_SOURCE_ID :: u64 where "IRTE_SOURCE_VALIDATION_VERIFY_SOURCE_ID = 1"
definition IRTE_SOURCE_QUALIFIER_ALL_BITS :: u64 where "IRTE_SOURCE_QUALIFIER_ALL_BITS = 0"

record remap_target =
  rt_destination :: u32
  rt_vector :: x86_vector
  rt_delivery_mode :: delivery_mode
  rt_trigger_mode :: trigger_mode
  rt_destination_mode_logical :: bool
  rt_redirection_hint :: bool

definition remap_target_new :: "u32 \<Rightarrow> x86_vector \<Rightarrow> delivery_mode \<Rightarrow> remap_target" where
  "remap_target_new destination vector m =
     \<lparr>rt_destination = destination, rt_vector = vector, rt_delivery_mode = m, rt_trigger_mode = Edge,
      rt_destination_mode_logical = False, rt_redirection_hint = False\<rparr>"

definition remap_target_from_delivery :: "msi_delivery \<Rightarrow> remap_target" where
  "remap_target_from_delivery d =
     \<lparr>rt_destination = ucast (dest_id (md_destination d)), rt_vector = md_vector d,
      rt_delivery_mode = md_delivery_mode d, rt_trigger_mode = md_trigger_mode d,
      rt_destination_mode_logical = dest_is_logical (md_destination d),
      rt_redirection_hint = md_redirection_hint d\<rparr>"

definition with_trigger_mode :: "trigger_mode \<Rightarrow> remap_target \<Rightarrow> remap_target" where
  "with_trigger_mode m t = t\<lparr>rt_trigger_mode := m\<rparr>"

definition with_logical_destination_mode :: "bool \<Rightarrow> remap_target \<Rightarrow> remap_target" where
  "with_logical_destination_mode enabled t = t\<lparr>rt_destination_mode_logical := enabled\<rparr>"

definition with_redirection_hint :: "bool \<Rightarrow> remap_target \<Rightarrow> remap_target" where
  "with_redirection_hint enabled t = t\<lparr>rt_redirection_hint := enabled\<rparr>"

text \<open>The delivery of an MSI is the target built step by step from its parts.\<close>

lemma remap_target_from_delivery_built:
  "remap_target_from_delivery d =
     with_redirection_hint (md_redirection_hint d)
       (with_logical_destination_mode (dest_is_logical (md_destination d))
         (with_trigger_mode (md_trigger_mode d)
           (remap_target_new (ucast (dest_id (md_destination d))) (md_vector d) (md_delivery_mode d))))"
  by (simp add: remap_target_from_delivery_def remap_target_new_def with_trigger_mode_def
      with_logical_destination_mode_def with_redirection_hint_def)

definition source_validation_high :: "u16 \<Rightarrow> u64" where
  "source_validation_high source_id =
     push_bit IRTE_SOURCE_ID_SHIFT (ucast source_id) OR
     push_bit IRTE_SOURCE_ID_QUALIFIER_SHIFT IRTE_SOURCE_QUALIFIER_ALL_BITS OR
     push_bit IRTE_SOURCE_VALIDATION_TYPE_SHIFT IRTE_SOURCE_VALIDATION_VERIFY_SOURCE_ID"

definition irte_from_target :: "pci_device \<Rightarrow> remap_target \<Rightarrow> words128" where
  "irte_from_target source target =
     (let l0 = IRTE_PRESENT OR
               push_bit IRTE_DELIVERY_MODE_SHIFT (delivery_code (rt_delivery_mode target)) OR
               push_bit IRTE_VECTOR_SHIFT (ucast (vec_get (rt_vector target))) OR
               push_bit IRTE_DESTINATION_SHIFT (ucast (rt_destination target));
          l1 = if rt_destination_mode_logical target then l0 OR IRTE_DESTINATION_MODE_LOGICAL else l0;
          l2 = if rt_redirection_hint target then l1 OR IRTE_REDIRECTION_HINT else l1;
          l3 = if rt_trigger_mode target = Level then l2 OR IRTE_TRIGGER_MODE_LEVEL else l2
      in \<lparr>w_low = l3, w_high = source_validation_high (as_u16 (pci_bdf source))\<rparr>)"

definition irte_from_delivery :: "pci_device \<Rightarrow> msi_delivery \<Rightarrow> words128" where
  "irte_from_delivery source d = irte_from_target source (remap_target_from_delivery d)"

definition irte_fixed :: "pci_device \<Rightarrow> msi_destination \<Rightarrow> u8 \<Rightarrow> words128 result" where
  "irte_fixed source destination vector =
     (case x86_vector_new vector of
        Ok v \<Rightarrow> Ok (irte_from_target source
                  (remap_target_from_delivery (msi_delivery_new destination v Fixed)))
      | Err e \<Rightarrow> Err ErrInvalidRange
      | Panic \<Rightarrow> Panic)"

definition irte_present :: "words128 \<Rightarrow> bool" where
  "irte_present e \<longleftrightarrow> w_low e AND IRTE_PRESENT \<noteq> 0"

definition REMAPPED_MSI_INDEX_HIGH_BIT :: u64 where "REMAPPED_MSI_INDEX_HIGH_BIT = push_bit 2 1"
definition REMAPPED_MSI_SUBHANDLE_VALID :: u64 where "REMAPPED_MSI_SUBHANDLE_VALID = push_bit 3 1"
definition REMAPPED_MSI_INTERRUPT_FORMAT :: u64 where "REMAPPED_MSI_INTERRUPT_FORMAT = push_bit 4 1"
definition REMAPPED_MSI_INDEX_SHIFT :: nat where "REMAPPED_MSI_INDEX_SHIFT = 5"
definition REMAPPED_MSI_INDEX_LOW_MASK :: u16 where "REMAPPED_MSI_INDEX_LOW_MASK = 0x7fff"

definition remapped_msi_message :: "u16 \<Rightarrow> u16 \<Rightarrow> msi_message" where
  "remapped_msi_message entry subhandle =
     \<lparr>msi_address = 0xfee00000 OR REMAPPED_MSI_SUBHANDLE_VALID OR REMAPPED_MSI_INTERRUPT_FORMAT OR
        ((drop_bit 15 (ucast entry) AND 0x1) * REMAPPED_MSI_INDEX_HIGH_BIT) OR
        push_bit REMAPPED_MSI_INDEX_SHIFT (ucast (entry AND REMAPPED_MSI_INDEX_LOW_MASK)),
      msi_data = ucast subhandle\<rparr>"

record remapped_msi =
  rm_entry :: u16
  rm_subhandle :: u16
  rm_message :: msi_message

definition remapped_msi_new :: "u16 \<Rightarrow> u16 \<Rightarrow> remapped_msi" where
  "remapped_msi_new entry subhandle =
     \<lparr>rm_entry = entry, rm_subhandle = subhandle, rm_message = remapped_msi_message entry subhandle\<rparr>"

section \<open>Queued invalidation\<close>

definition QI_CC_TYPE :: u64 where "QI_CC_TYPE = 0x1"
definition QI_IOTLB_TYPE :: u64 where "QI_IOTLB_TYPE = 0x2"
definition QI_IEC_TYPE :: u64 where "QI_IEC_TYPE = 0x4"
definition QI_CC_GLOBAL :: u64 where "QI_CC_GLOBAL = push_bit 4 1"
definition QI_CC_DEVICE :: u64 where "QI_CC_DEVICE = push_bit 4 3"
definition QI_CC_SID_SHIFT :: nat where "QI_CC_SID_SHIFT = 32"
definition QI_IOTLB_GLOBAL :: u64 where "QI_IOTLB_GLOBAL = push_bit 4 1"
definition QI_IOTLB_DOMAIN :: u64 where "QI_IOTLB_DOMAIN = push_bit 4 2"
definition QI_IOTLB_PAGE :: u64 where "QI_IOTLB_PAGE = push_bit 4 3"
definition QI_IOTLB_DW :: u64 where "QI_IOTLB_DW = push_bit 6 1"
definition QI_IOTLB_DR :: u64 where "QI_IOTLB_DR = push_bit 7 1"
definition QI_IOTLB_DID_SHIFT :: nat where "QI_IOTLB_DID_SHIFT = 16"
definition QI_IEC_SELECTIVE :: u64 where "QI_IEC_SELECTIVE = push_bit 4 1"
definition QI_IEC_IDX_SHIFT :: nat where "QI_IEC_IDX_SHIFT = 32"
definition IVA_AM_MASK :: u64 where "IVA_AM_MASK = 0x3f"

definition iotlb_drain_bits :: "vtd_cap \<Rightarrow> u64" where
  "iotlb_drain_bits cap =
     (let b0 = 0;
          b1 = if cap_read_draining cap then b0 OR QI_IOTLB_DR else b0
      in if cap_write_draining cap then b1 OR QI_IOTLB_DW else b1)"

definition qi_context_global :: words128 where
  "qi_context_global = \<lparr>w_low = QI_CC_TYPE OR QI_CC_GLOBAL, w_high = 0\<rparr>"

definition qi_context_device :: "pci_device \<Rightarrow> words128" where
  "qi_context_device client =
     \<lparr>w_low = QI_CC_TYPE OR QI_CC_DEVICE OR push_bit QI_CC_SID_SHIFT (ucast (as_u16 (pci_bdf client))),
      w_high = 0\<rparr>"

definition qi_iotlb_global :: "vtd_cap \<Rightarrow> words128" where
  "qi_iotlb_global cap = \<lparr>w_low = QI_IOTLB_TYPE OR QI_IOTLB_GLOBAL OR iotlb_drain_bits cap, w_high = 0\<rparr>"

definition qi_iotlb_domain :: "io_domain \<Rightarrow> vtd_cap \<Rightarrow> words128" where
  "qi_iotlb_domain domain cap =
     \<lparr>w_low = QI_IOTLB_TYPE OR QI_IOTLB_DOMAIN OR iotlb_drain_bits cap OR
        push_bit QI_IOTLB_DID_SHIFT (ucast (dom_id VTD_DOMAIN_MASK domain)),
      w_high = 0\<rparr>"

definition qi_iotlb_page_with_address_mask ::
    "io_domain \<Rightarrow> u64 \<Rightarrow> u8 \<Rightarrow> vtd_cap \<Rightarrow> words128 result" where
  "qi_iotlb_page_with_address_mask domain iova address_mask cap =
     (if \<not> cap_page_selective_invalidation cap \<or> cap_max_address_mask_value cap < address_mask \<or>
         ucast IVA_AM_MASK < address_mask
      then Err (error_from_vtd PageSelectiveInvalidationUnavailable)
      else Ok
        \<lparr>w_low = QI_IOTLB_TYPE OR QI_IOTLB_PAGE OR iotlb_drain_bits cap OR
           push_bit QI_IOTLB_DID_SHIFT (ucast (dom_id VTD_DOMAIN_MASK domain)),
         w_high = (iova AND PAGE_ADDR_MASK) OR ucast (address_mask AND ucast IVA_AM_MASK)\<rparr>)"

definition qi_iotlb_page :: "io_domain \<Rightarrow> u64 \<Rightarrow> page_size \<Rightarrow> vtd_cap \<Rightarrow> words128 result" where
  "qi_iotlb_page domain iova granule cap =
     res_bind (ok_or (cap_page_selective_address_mask cap granule)
       (error_from_vtd PageSelectiveInvalidationUnavailable)) (\<lambda>address_mask.
     qi_iotlb_page_with_address_mask domain iova address_mask cap)"

definition qi_interrupt_entry_cache :: "u16 \<Rightarrow> words128" where
  "qi_interrupt_entry_cache entry =
     \<lparr>w_low = QI_IEC_TYPE OR QI_IEC_SELECTIVE OR push_bit QI_IEC_IDX_SHIFT (ucast entry), w_high = 0\<rparr>"

text \<open>The two words of a descriptor as the sixteen bytes of a ring entry, low byte first.\<close>

definition qi_bytes :: "words128 \<Rightarrow> u8 list" where
  "qi_bytes d = le_bytes (w_low d) @ le_bytes (w_high d)"

definition queued_invalidation_table_address :: "ext_ops \<Rightarrow> command_queue_backing \<Rightarrow> u64 result" where
  "queued_invalidation_table_address E b =
     (if cqb_entry_bytes b \<noteq> QI_ENTRY_BYTES then Err InvalidGranule
      else if cqb_entry_count b < QI_MIN_ENTRIES \<or> \<not> is_power_of_two (cqb_entry_count b)
      then Err ErrInvalidRange
      else if \<not> addr_is_aligned E (r_start (cqb_phys b)) (page_bytes E Size4K) then Err InvalidAddress
      else
        let encoded = word_of_nat (trailing_zeros64 (cqb_entry_count b div QI_MIN_ENTRIES)) :: u64
        in if IQA_SIZE_MASK < encoded then Err ErrInvalidRange
           else Ok ((word_of_nat (r_start (cqb_phys b)) AND PAGE_ADDR_MASK) OR encoded))"

section \<open>Fault records\<close>

definition FSTS_PFO :: u32 where "FSTS_PFO = push_bit 0 1"
definition FSTS_PPF :: u32 where "FSTS_PPF = push_bit 1 1"
definition FSTS_AFO :: u32 where "FSTS_AFO = push_bit 2 1"
definition FSTS_APF :: u32 where "FSTS_APF = push_bit 3 1"
definition FSTS_IQE :: u32 where "FSTS_IQE = push_bit 4 1"
definition FSTS_ICE :: u32 where "FSTS_ICE = push_bit 5 1"
definition FSTS_ITE :: u32 where "FSTS_ITE = push_bit 6 1"
definition FSTS_PRO :: u32 where "FSTS_PRO = push_bit 7 1"
definition FRCDL_FAULT_INFO_MASK :: u64 where "FRCDL_FAULT_INFO_MASK = NOT 0xfff"
definition FRCDH_FAULT :: u64 where "FRCDH_FAULT = push_bit 63 1"
definition FRCDH_TYPE_1 :: u64 where "FRCDH_TYPE_1 = push_bit 62 1"
definition FRCDH_REASON_SHIFT :: nat where "FRCDH_REASON_SHIFT = 32"
definition FRCDH_REASON_MASK :: u64 where "FRCDH_REASON_MASK = 0xff"
definition FRCDH_PRIVILEGE :: u64 where "FRCDH_PRIVILEGE = push_bit 31 1"
definition FRCDH_EXECUTE :: u64 where "FRCDH_EXECUTE = push_bit 30 1"
definition FRCDH_TYPE_2 :: u64 where "FRCDH_TYPE_2 = push_bit 28 1"
definition FRCDH_SOURCE_ID_MASK :: u64 where "FRCDH_SOURCE_ID_MASK = 0xffff"

datatype fault_reason =
    Primary u8 | PrimaryFaultOverflow | AdvancedFaultOverflow | AdvancedPendingFault
  | InvalidationQueueError | InvalidationCompletionError | InvalidationTimeout | PageRequestOverflow

record 'f vtd_fault =
  vf_reason :: fault_reason
  vf_source_id :: "u16 option"
  vf_client :: "pci_device option"
  vf_iova :: "u64 option"
  vf_access :: 'f
  vf_record_index :: "u16 option"
  vf_overflow :: bool
  vf_pending :: bool

definition fault_status_reason :: "u32 \<Rightarrow> fault_reason option" where
  "fault_status_reason status =
     (if status AND FSTS_PFO \<noteq> 0 then Some PrimaryFaultOverflow
      else if status AND FSTS_AFO \<noteq> 0 then Some AdvancedFaultOverflow
      else if status AND FSTS_APF \<noteq> 0 then Some AdvancedPendingFault
      else if status AND FSTS_IQE \<noteq> 0 then Some InvalidationQueueError
      else if status AND FSTS_ICE \<noteq> 0 then Some InvalidationCompletionError
      else if status AND FSTS_ITE \<noteq> 0 then Some InvalidationTimeout
      else if status AND FSTS_PRO \<noteq> 0 then Some PageRequestOverflow
      else None)"

definition decode_fault_status :: "'f access_ops \<Rightarrow> u32 \<Rightarrow> 'f vtd_fault option" where
  "decode_fault_status A status =
     (case fault_status_reason status of
        None \<Rightarrow> None
      | Some reason \<Rightarrow> Some
          \<lparr>vf_reason = reason, vf_source_id = None, vf_client = None, vf_iova = None,
           vf_access = af_empty A, vf_record_index = None,
           vf_overflow = (reason = PrimaryFaultOverflow \<or> reason = AdvancedFaultOverflow),
           vf_pending = (status AND FSTS_PPF \<noteq> 0)\<rparr>)"

definition decode_primary_fault :: "'f access_ops \<Rightarrow> u16 \<Rightarrow> u16 \<Rightarrow> u64 \<Rightarrow> u64 \<Rightarrow> 'f vtd_fault" where
  "decode_primary_fault A segment index low high =
     (let raw_reason = ucast (drop_bit FRCDH_REASON_SHIFT high AND FRCDH_REASON_MASK);
          source_id = ucast (high AND FRCDH_SOURCE_ID_MASK);
          client = pci_from_segment_bdf segment (Bdf source_id);
          iova = low AND FRCDL_FAULT_INFO_MASK;
          a0 = af_empty A;
          a1 = if high AND (FRCDH_TYPE_1 OR FRCDH_TYPE_2) \<noteq> 0 then af_union A a0 (af_READ A) else a0;
          a2 = if high AND FRCDH_EXECUTE \<noteq> 0
               then af_union A a1 (af_union A (af_READ A) (af_EXECUTE A)) else a1;
          a3 = if af_is_empty A a2 then af_union A a2 (af_WRITE A) else a2;
          a4 = if high AND FRCDH_PRIVILEGE = 0 then af_union A a3 (af_USER A) else a3
      in \<lparr>vf_reason = Primary raw_reason, vf_source_id = Some source_id, vf_client = Some client,
          vf_iova = Some iova, vf_access = a4, vf_record_index = Some index, vf_overflow = False,
          vf_pending = True\<rparr>)"

section \<open>Bits of the constants\<close>

lemma descriptor_const_bits [field_simps_bits]:
  "bit ROOT_ENTRY_PRESENT n \<longleftrightarrow> n = 0" "bit CONTEXT_PRESENT n \<longleftrightarrow> n = 0" "bit IRTE_PRESENT n \<longleftrightarrow> n = 0"
  "bit IRTE_DESTINATION_MODE_LOGICAL n \<longleftrightarrow> n = 2" "bit IRTE_REDIRECTION_HINT n \<longleftrightarrow> n = 3"
  "bit IRTE_TRIGGER_MODE_LEVEL n \<longleftrightarrow> n = 4"
  "bit REMAPPED_MSI_INDEX_HIGH_BIT n \<longleftrightarrow> n = 2" "bit REMAPPED_MSI_SUBHANDLE_VALID n \<longleftrightarrow> n = 3"
  "bit REMAPPED_MSI_INTERRUPT_FORMAT n \<longleftrightarrow> n = 4"
  "bit QI_IOTLB_DW n \<longleftrightarrow> n = 6" "bit QI_IOTLB_DR n \<longleftrightarrow> n = 7"
  "bit QI_CC_GLOBAL n \<longleftrightarrow> n = 4" "bit QI_IOTLB_GLOBAL n \<longleftrightarrow> n = 4" "bit QI_IEC_SELECTIVE n \<longleftrightarrow> n = 4"
  unfolding ROOT_ENTRY_PRESENT_def CONTEXT_PRESENT_def IRTE_PRESENT_def IRTE_DESTINATION_MODE_LOGICAL_def
    IRTE_REDIRECTION_HINT_def IRTE_TRIGGER_MODE_LEVEL_def REMAPPED_MSI_INDEX_HIGH_BIT_def
    REMAPPED_MSI_SUBHANDLE_VALID_def REMAPPED_MSI_INTERRUPT_FORMAT_def QI_IOTLB_DW_def QI_IOTLB_DR_def
    QI_CC_GLOBAL_def QI_IOTLB_GLOBAL_def QI_IEC_SELECTIVE_def bit_push_bit_1_iff by auto

lemma present_bits [field_simps_bits]:
  "e AND ROOT_ENTRY_PRESENT = 0 \<longleftrightarrow> \<not> bit e 0" "e AND CONTEXT_PRESENT = 0 \<longleftrightarrow> \<not> bit e 0"
  "e AND IRTE_PRESENT = 0 \<longleftrightarrow> \<not> bit e 0"
  unfolding ROOT_ENTRY_PRESENT_def CONTEXT_PRESENT_def IRTE_PRESENT_def and_push_bit_1_eq_0 by auto

lemma qi_code_bits:
  "bit QI_CC_TYPE n \<longleftrightarrow> n = 0" "bit QI_IOTLB_TYPE n \<longleftrightarrow> n = 1" "bit QI_IEC_TYPE n \<longleftrightarrow> n = 2"
  "bit QI_CC_DEVICE n \<longleftrightarrow> n = 4 \<or> n = 5" "bit QI_IOTLB_DOMAIN n \<longleftrightarrow> n = 5"
  "bit QI_IOTLB_PAGE n \<longleftrightarrow> n = 4 \<or> n = 5"
proof -
  have eqs: "QI_CC_TYPE = push_bit 0 1" "QI_IOTLB_TYPE = push_bit 1 1" "QI_IEC_TYPE = push_bit 2 1"
    "QI_CC_DEVICE = push_bit 4 1 OR push_bit 5 1" "QI_IOTLB_DOMAIN = push_bit 5 1"
    "QI_IOTLB_PAGE = push_bit 4 1 OR push_bit 5 1"
    by (simp_all add: QI_CC_TYPE_def QI_IOTLB_TYPE_def QI_IEC_TYPE_def QI_CC_DEVICE_def
        QI_IOTLB_DOMAIN_def QI_IOTLB_PAGE_def)
  show "bit QI_CC_TYPE n \<longleftrightarrow> n = 0" "bit QI_IOTLB_TYPE n \<longleftrightarrow> n = 1" "bit QI_IEC_TYPE n \<longleftrightarrow> n = 2"
    "bit QI_CC_DEVICE n \<longleftrightarrow> n = 4 \<or> n = 5" "bit QI_IOTLB_DOMAIN n \<longleftrightarrow> n = 5"
    "bit QI_IOTLB_PAGE n \<longleftrightarrow> n = 4 \<or> n = 5"
    unfolding eqs bit_or_iff bit_push_bit_1_iff by auto
qed

lemma PAGE_ADDR_MASK_bit: "bit PAGE_ADDR_MASK n \<longleftrightarrow> 12 \<le> n \<and> n < 64"
proof -
  have eq: "PAGE_ADDR_MASK = NOT (mask 12)"
    by (simp add: PAGE_ADDR_MASK_def mask_eq_exp_minus_1)
  show ?thesis unfolding eq by (auto simp: bit_simps)
qed

lemma drain_bit: "bit (iotlb_drain_bits cap) n \<longleftrightarrow> n = 7 \<and> bit cap 55 \<or> n = 6 \<and> bit cap 54"
  by (auto simp: iotlb_drain_bits_def Let_def bit_or_iff descriptor_const_bits cap_flag_bits)

section \<open>Context entries\<close>

lemma context_from_domain_Ok:
  assumes "ext_ok E" and "vd_root d < 2 ^ 52"
  shows "context_from_domain E d = (if 4096 dvd vd_root d then Ok \<lparr>w_low = (word_of_nat (vd_root d) AND ADDR_FIELD) OR CONTEXT_PRESENT,
      w_high = agaw_bits (vd_width d) OR push_bit 8 (ucast (dom_id VTD_DOMAIN_MASK (vd_id d)))\<rparr> else Err InvalidAddress)"
  using assms
  by (simp add: context_from_domain_def Let_def ext_ok_aligned_4K TABLE_ADDR_MASK_eq mod_eq_0_iff_dvd
      CONTEXT_TRANSLATION_TYPE_MULTI_LEVEL_def CONTEXT_DOMAIN_ID_SHIFT_def)

lemma agaw_bits_bit: "bit (agaw_bits w) n \<Longrightarrow> n < 2"
proof -
  have "agaw_bits w < 2 ^ 2" by (cases w) simp_all
  then show "bit (agaw_bits w) n \<Longrightarrow> n < 2" by (rule less_power_bit)
qed

lemma dom_id_16: "bit (dom_id VTD_DOMAIN_MASK d) n \<longleftrightarrow> n < 16 \<and> bit d n"
  unfolding dom_id_def VTD_DOMAIN_MASK_def and_mask_numerals by (simp add: bit_simps)

lemma context_words_fields:
  fixes w :: vtd_width and i :: u16
  defines "h \<equiv> agaw_bits w OR push_bit 8 (ucast i)"
  shows "ucast (drop_bit CONTEXT_DOMAIN_ID_SHIFT h AND 0xffff) = i"
    and "h AND CONTEXT_ADDRESS_WIDTH_MASK = agaw_bits w"
proof -
  show "ucast (drop_bit CONTEXT_DOMAIN_ID_SHIFT h AND 0xffff) = i"
    unfolding h_def CONTEXT_DOMAIN_ID_SHIFT_def and_mask_numerals
    by (rule bit_word_eqI) (auto simp: bit_simps dest: agaw_bits_bit)
  show "h AND CONTEXT_ADDRESS_WIDTH_MASK = agaw_bits w"
    unfolding h_def CONTEXT_ADDRESS_WIDTH_MASK_def and_mask_numerals
    by (rule bit_word_eqI) (auto simp: bit_simps dest: agaw_bits_bit)
qed

definition domain_entry_ok :: "vtd_domain \<Rightarrow> words128 \<Rightarrow> bool" where
  "domain_entry_ok d e \<longleftrightarrow>
     context_present e \<and> context_page_table_root e = Some (vd_root d) \<and>
     context_domain_id e = ucast (dom_id VTD_DOMAIN_MASK (vd_id d)) \<and>
     context_address_width_bits e = width_bits (vd_width d)"

lemma domain_entry:
  assumes "4096 dvd vd_root d" and "vd_root d < 2 ^ 52"
    and e: "e = \<lparr>w_low = (word_of_nat (vd_root d) AND ADDR_FIELD) OR CONTEXT_PRESENT,
      w_high = agaw_bits (vd_width d) OR push_bit 8 (ucast (dom_id VTD_DOMAIN_MASK (vd_id d)))\<rparr>"
  shows "domain_entry_ok d e"
proof -
  have out: "n < 12 \<or> 52 \<le> n" if "bit CONTEXT_PRESENT n" for n
    using that by (simp add: descriptor_const_bits)
  have low: "n < 12 \<Longrightarrow> bit (w_low e) n \<longleftrightarrow> n = 0" for n
    unfolding e words128.simps descriptor_const_bits(2) [symmetric]
    by (rule addr_or_flags(2) [OF assms(1,2) out]) auto
  have root: "unat (w_low e AND ADDR_FIELD) = vd_root d"
    by (simp add: e addr_or_flags(1) [OF assms(1,2) out] page_addr_word(2) [OF assms(1,2)])
  have tt: "context_translation_type e = 0"
    unfolding context_translation_type_def CONTEXT_TRANSLATION_TYPE_SHIFT_def and_mask_numerals
    by (rule bit_word_eqI) (auto simp: bit_simps low)
  have id16: "dom_id VTD_DOMAIN_MASK (vd_id d) = ucast (ucast (dom_id VTD_DOMAIN_MASK (vd_id d)) :: u16)"
    by (rule bit_word_eqI) (auto simp: bit_simps dom_id_16)
  have high: "w_high e = agaw_bits (vd_width d) OR
      push_bit 8 (ucast (ucast (dom_id VTD_DOMAIN_MASK (vd_id d)) :: u16))"
    unfolding e words128.simps by (rule bit_word_eqI) (auto simp: bit_simps dom_id_16)
  have "context_domain_id e = ucast (dom_id VTD_DOMAIN_MASK (vd_id d))"
    unfolding context_domain_id_def high by (rule context_words_fields(1))
  moreover have "context_address_width_bits e = width_bits (vd_width d)"
    unfolding context_address_width_bits_def high context_words_fields(2)
    by (cases "vd_width d") (simp_all add: Let_def)
  ultimately show ?thesis
    using root tt low by (simp add: domain_entry_ok_def context_present_def present_bits
        context_page_table_root_def CONTEXT_TRANSLATION_TYPE_MULTI_LEVEL_def TABLE_ADDR_MASK_eq)
qed

lemma pass_through_entry:
  "context_present context_pass_through" "context_translation_type context_pass_through = 2"
  "context_page_table_root context_pass_through = None"
  by (simp_all add: context_present_def context_pass_through_def context_translation_type_def
      context_page_table_root_def CONTEXT_PRESENT_def CONTEXT_TRANSLATION_TYPE_SHIFT_def
      CONTEXT_TRANSLATION_TYPE_PASS_THROUGH_def CONTEXT_TRANSLATION_TYPE_MULTI_LEVEL_def)

section \<open>Properties\<close>

text \<open>C13. The context entry of a binding says what was asked: a non-default selector is refused;
  an abort gives a non-present entry; pass-through gives a present entry of translation type 2
  without page table, and only when the unit supports it; a domain with a page-aligned root below
  \<open>2 ^ 52\<close> gives a present entry whose fields read back the root, the 16-bit domain identifier
  and the address width, and a misaligned root is refused.\<close>

theorem context_entry_of_binding:
  assumes "ext_ok E" and "\<forall>d. b_target b = ToDomain d \<longrightarrow> vd_root d < 2 ^ 52"
  shows "if b_selector b \<noteq> Default then context_from_binding E b cap = Err FeatureUnavailable
    else case b_target b of
        Abort \<Rightarrow> \<exists>e. context_from_binding E b cap = Ok e \<and> \<not> context_present e
      | PassThrough \<Rightarrow>
          if bit cap 6 then \<exists>e. context_from_binding E b cap = Ok e \<and> context_present e \<and>
            context_translation_type e = 2 \<and> context_page_table_root e = None
          else context_from_binding E b cap = Err FeatureUnavailable
      | ToDomain d \<Rightarrow>
          if 4096 dvd vd_root d then \<exists>e. context_from_binding E b cap = Ok e \<and> context_present e \<and>
            context_page_table_root e = Some (vd_root d) \<and>
            context_domain_id e = ucast (dom_id VTD_DOMAIN_MASK (vd_id d)) \<and>
            context_address_width_bits e = width_bits (vd_width d)
          else context_from_binding E b cap = Err InvalidAddress"
proof (cases "b_target b")
  case (ToDomain d)
  then have "vd_root d < 2 ^ 52" using assms(2) by blast
  then show ?thesis
    using ToDomain context_from_domain_Ok [OF assms(1), of d] domain_entry [of d]
    by (auto simp: context_from_binding_def domain_entry_ok_def)
qed (use pass_through_entry in \<open>auto simp: context_from_binding_def cap_flag_bits ecap_flag_bits
    context_present_def disabled_def\<close>)

definition wit_domain :: vtd_domain where
  "wit_domain = \<lparr>vd_id = 5, vd_root = 0x7000, vd_width = Bits48, vd_stage = Stage2\<rparr>"

definition wit_binding :: "(pci_device, vtd_domain) binding" where
  "wit_binding = \<lparr>b_client = PciDevice 0x00000310, b_selector = Default, b_target = ToDomain wit_domain\<rparr>"

lemma context_entry_of_binding_witness:
  "\<exists>e. context_from_binding std_ext wit_binding 0 = Ok e \<and> context_present e \<and>
     context_page_table_root e = Some 0x7000 \<and> context_domain_id e = 5 \<and> context_address_width_bits e = 48"
proof -
  have "\<forall>d. b_target wit_binding = ToDomain d \<longrightarrow> vd_root d < 2 ^ 52"
    by (simp add: wit_binding_def wit_domain_def)
  from context_entry_of_binding [OF std_ext_ok this, of 0]
  show ?thesis
    by (simp add: wit_binding_def wit_domain_def dom_id_def VTD_DOMAIN_MASK_def)
qed

lemma remapped_message_bits:
  "bit (msi_address (remapped_msi_message entry subhandle)) n \<longleftrightarrow>
     bit MSI_ADDRESS_BASE n \<or> n = 3 \<or> n = 4 \<or> n = 2 \<and> bit entry 15 \<or> 5 \<le> n \<and> n < 20 \<and> bit entry (n - 5)"
proof -
  have ob: "(drop_bit 15 (ucast entry) AND 0x1 :: u64) = of_bool (bit entry 15)"
    unfolding and_mask_numerals
    by (rule bit_word_eqI) (auto simp: bit_simps bit_1_iff bit_0 [symmetric] simp del: bit_0)
  have base: "(0xfee00000 :: u64) = MSI_ADDRESS_BASE" by (simp add: MSI_ADDRESS_BASE_def)
  show ?thesis
    unfolding remapped_msi_message_def base REMAPPED_MSI_INDEX_LOW_MASK_def ob
      REMAPPED_MSI_INDEX_SHIFT_def msi_message.simps and_mask_numerals(10)
    by (auto simp: bit_or_iff descriptor_const_bits bit_push_bit_iff bit_unsigned_iff bit_take_bit_iff)
qed

text \<open>A remapped MSI message carries its entry index and sub-handle without loss: bits 19:5 of
  the address are the low fifteen bits of the index and bit 2 its top bit, bits 3 and 4 (sub-handle
  valid, remappable format) are set, the data is the sub-handle; so different entries or
  sub-handles never share a message.\<close>

theorem remapped_msi_lossless:
  "(let m = rm_message (remapped_msi_new entry subhandle) in
      drop_bit 20 (msi_address m) = 0xfee \<and> bit (msi_address m) 3 \<and> bit (msi_address m) 4 \<and>
      take_bit 15 (drop_bit 5 (msi_address m)) = ucast (entry AND 0x7fff) \<and>
      (bit (msi_address m) 2 \<longleftrightarrow> bit entry 15) \<and> msi_data m = ucast subhandle) \<and>
   (rm_message (remapped_msi_new e s) = rm_message (remapped_msi_new e' s') \<longleftrightarrow> e = e' \<and> s = s')"
proof -
  note a = remapped_message_bits
  have fee: "(0xfee :: u64) = drop_bit 20 MSI_ADDRESS_BASE" by (simp add: MSI_ADDRESS_BASE_def)
  let ?a = "msi_address (remapped_msi_message entry subhandle)"
  have "drop_bit 20 ?a = 0xfee"
    unfolding fee by (rule bit_word_eqI) (auto simp: bit_drop_bit_eq a)
  moreover have idx: "take_bit 15 (drop_bit 5 (msi_address (remapped_msi_message entry subhandle))) = ucast (entry AND 0x7fff)"
    for entry subhandle
    unfolding and_mask_numerals
    by (rule bit_word_eqI) (auto simp: bit_simps a MSI_ADDRESS_BASE_bit)
  moreover have "e = e'" if "msi_address (remapped_msi_message e s) = msi_address (remapped_msi_message e' s')"
  proof (rule bit_word_eqI)
    fix n
    assume "n < LENGTH(16)"
    then consider "n < 15" | "n = 15" by fastforce
    then show "bit e n \<longleftrightarrow> bit e' n"
    proof cases
      case 1
      then show ?thesis using that a [of e s "n + 5"] a [of e' s' "n + 5"] by (simp add: MSI_ADDRESS_BASE_bit)
    next
      case 2
      then show ?thesis using that a [of e s 2] a [of e' s' 2] by (simp add: MSI_ADDRESS_BASE_bit)
    qed
  qed
  moreover have "s = s'" if "(ucast s :: u32) = ucast s'"
  proof (rule unat_inject)
    have "unat (ucast x :: u32) = unat x" for x :: u16
      using unsigned_less [of x, where ?'a = nat] by (simp add: unat_ucast_mod)
    with that show "unat s = unat s'" by metis
  qed
  ultimately show ?thesis
    by (auto simp: Let_def remapped_msi_new_def a MSI_ADDRESS_BASE_bit) (auto simp: remapped_msi_message_def)
qed

lemma delivery_code_64: "(delivery_code m :: u64) < 2 ^ 3"
  by (cases m) simp_all

lemma irte_low_bit:
  "bit (w_low (irte_from_target source t)) n \<longleftrightarrow>
     n = 0 \<or> n = 2 \<and> rt_destination_mode_logical t \<or> n = 3 \<and> rt_redirection_hint t \<or>
     n = 4 \<and> rt_trigger_mode t = Level \<or>
     5 \<le> n \<and> n < 8 \<and> bit (delivery_code (rt_delivery_mode t) :: u64) (n - 5) \<or>
     16 \<le> n \<and> n < 24 \<and> bit (vec_get (rt_vector t)) (n - 16) \<or>
     32 \<le> n \<and> n < 64 \<and> bit (rt_destination t) (n - 32)"
proof -
  have code: "bit (push_bit 5 (delivery_code (rt_delivery_mode t)) :: u64) n \<longleftrightarrow>
      5 \<le> n \<and> n < 8 \<and> bit (delivery_code (rt_delivery_mode t) :: u64) (n - 5)"
    using less_power_bit [OF delivery_code_64 [of "rt_delivery_mode t"], of "n - 5"]
    by (auto simp: bit_push_bit_iff)
  have vec: "bit (push_bit 16 (ucast (vec_get (rt_vector t))) :: u64) n \<longleftrightarrow>
      16 \<le> n \<and> n < 24 \<and> bit (vec_get (rt_vector t)) (n - 16)"
    by (auto simp: bit_push_bit_iff bit_unsigned_iff dest: bit_imp_le_length)
  have dst: "bit (push_bit 32 (ucast (rt_destination t)) :: u64) n \<longleftrightarrow>
      32 \<le> n \<and> n < 64 \<and> bit (rt_destination t) (n - 32)"
    by (auto simp: bit_push_bit_iff bit_unsigned_iff)
  show ?thesis
    unfolding irte_from_target_def Let_def words128.simps IRTE_DELIVERY_MODE_SHIFT_def IRTE_VECTOR_SHIFT_def
      IRTE_DESTINATION_SHIFT_def
    by (simp add: bit_or_iff descriptor_const_bits code vec dst) blast
qed

lemma irte_high_bit:
  "bit (w_high (irte_from_target source t)) n \<longleftrightarrow>
     n < 16 \<and> bit (as_u16 (pci_bdf source)) n \<or> n = 18"
proof -
  have "push_bit IRTE_SOURCE_VALIDATION_TYPE_SHIFT IRTE_SOURCE_VALIDATION_VERIFY_SOURCE_ID = (push_bit 18 1 :: u64)"
    by (simp add: IRTE_SOURCE_VALIDATION_TYPE_SHIFT_def IRTE_SOURCE_VALIDATION_VERIFY_SOURCE_ID_def)
  then show ?thesis
    unfolding irte_from_target_def source_validation_high_def Let_def words128.simps bit_or_iff
    by (auto simp only: bit_push_bit_1_iff) (auto simp: bit_push_bit_iff bit_unsigned_iff
        IRTE_SOURCE_ID_SHIFT_def IRTE_SOURCE_QUALIFIER_ALL_BITS_def dest: bit_imp_le_length)
qed

text \<open>C31. An interrupt-remapping entry is present and holds every field of its target at its
  position (destination mode, redirection hint and trigger mode in bits 2, 3 and 4, delivery mode
  in bits 7:5, vector in bits 23:16, destination in bits 63:32), and accepts interrupts of its
  source requester only: the high word holds the requester identifier in bits 15:0, source
  validation type 1 (verify all bits) in bits 19:16, and nothing else.\<close>

theorem irte_fields:
  "(let e = irte_from_target source t in
     irte_present e \<and>
     (bit (w_low e) 2 \<longleftrightarrow> rt_destination_mode_logical t) \<and> (bit (w_low e) 3 \<longleftrightarrow> rt_redirection_hint t) \<and>
     (bit (w_low e) 4 \<longleftrightarrow> rt_trigger_mode t = Level) \<and>
     take_bit 3 (drop_bit 5 (w_low e)) = delivery_code (rt_delivery_mode t) \<and>
     ucast (drop_bit 16 (w_low e)) = vec_get (rt_vector t) \<and>
     ucast (drop_bit 32 (w_low e)) = rt_destination t \<and>
     ucast (w_high e) = as_u16 (pci_bdf source) \<and> drop_bit 16 (w_high e) = 4)"
proof -
  let ?e = "irte_from_target source t"
  have "take_bit 3 (drop_bit 5 (w_low ?e)) = delivery_code (rt_delivery_mode t)"
    using less_power_bit [OF delivery_code_64 [of "rt_delivery_mode t"]]
    by (intro bit_word_eqI) (fastforce simp: bit_simps irte_low_bit)
  moreover have "ucast (drop_bit 16 (w_low ?e)) = vec_get (rt_vector t)"
    by (rule bit_word_eqI) (auto simp: bit_simps irte_low_bit)
  moreover have "ucast (drop_bit 32 (w_low ?e)) = rt_destination t"
    by (rule bit_word_eqI) (auto simp: bit_simps irte_low_bit)
  moreover have "ucast (w_high ?e) = as_u16 (pci_bdf source)"
    by (rule bit_word_eqI) (auto simp: bit_simps irte_high_bit)
  moreover have "drop_bit 16 (w_high ?e) = push_bit 2 1"
    by (rule bit_word_eqI) (unfold bit_push_bit_1_iff, auto simp: bit_drop_bit_eq irte_high_bit)
  ultimately show ?thesis
    by (simp add: Let_def irte_present_def present_bits irte_low_bit)
qed

lemma iova_mask_bits:
  fixes address_mask :: u8
  assumes "address_mask \<le> 0x3f"
  shows "take_bit 6 ((iova AND PAGE_ADDR_MASK) OR ucast (address_mask AND ucast IVA_AM_MASK)) = (ucast address_mask :: u64)"
    and "((iova AND PAGE_ADDR_MASK) OR ucast (address_mask AND ucast IVA_AM_MASK)) AND PAGE_ADDR_MASK = iova AND PAGE_ADDR_MASK"
proof -
  have am: "(ucast IVA_AM_MASK :: u8) = 0x3f" by (simp add: IVA_AM_MASK_def)
  have "address_mask < 2 ^ 6" using assms by (simp add: word_less_nat_alt word_le_nat_alt)
  then have b: "bit address_mask n \<Longrightarrow> n < 6" for n by (rule less_power_bit)
  show "take_bit 6 ((iova AND PAGE_ADDR_MASK) OR ucast (address_mask AND ucast IVA_AM_MASK)) = (ucast address_mask :: u64)"
    unfolding am and_mask_numerals
    by (rule bit_word_eqI) (auto simp: bit_simps PAGE_ADDR_MASK_bit dest: b)
  show "((iova AND PAGE_ADDR_MASK) OR ucast (address_mask AND ucast IVA_AM_MASK)) AND PAGE_ADDR_MASK = iova AND PAGE_ADDR_MASK"
    unfolding am and_mask_numerals
    by (rule bit_word_eqI) (auto simp: bit_simps PAGE_ADDR_MASK_bit dest: b)
qed

lemma qi_iotlb_low:
  fixes cap :: vtd_cap and domain :: io_domain
  defines "l \<equiv> QI_IOTLB_TYPE OR QI_IOTLB_PAGE OR iotlb_drain_bits cap OR
           push_bit QI_IOTLB_DID_SHIFT (ucast (dom_id VTD_DOMAIN_MASK domain))"
  shows "take_bit 6 l = 0x32" and "ucast (drop_bit 16 l) = (ucast domain :: u16)" and "drop_bit 32 l = 0"
    and "bit l 6 \<longleftrightarrow> bit cap 54" and "bit l 7 \<longleftrightarrow> bit cap 55"
proof -
  have lb: "bit l n \<longleftrightarrow> n = 1 \<or> n = 4 \<or> n = 5 \<or> n = 7 \<and> bit cap 55 \<or> n = 6 \<and> bit cap 54 \<or>
      16 \<le> n \<and> n < 32 \<and> bit domain (n - 16)" for n
    by (auto simp: l_def bit_or_iff qi_code_bits drain_bit bit_push_bit_iff bit_unsigned_iff dom_id_16
        QI_IOTLB_DID_SHIFT_def)
  have c: "(0x32 :: u64) = push_bit 1 1 OR push_bit 4 1 OR push_bit 5 1" by simp
  show "take_bit 6 l = 0x32"
    unfolding c by (rule bit_word_eqI) (unfold bit_or_iff bit_push_bit_1_iff bit_take_bit_iff lb, auto)
  show "ucast (drop_bit 16 l) = (ucast domain :: u16)"
    by (rule bit_word_eqI) (auto simp: bit_simps lb)
  show "drop_bit 32 l = 0" by (rule bit_word_eqI) (auto simp: bit_simps lb)
  show "bit l 6 \<longleftrightarrow> bit cap 54" "bit l 7 \<longleftrightarrow> bit cap 55" by (auto simp: lb)
qed

text \<open>A page-selective IOTLB descriptor is produced exactly when the unit supports
  page-selective invalidation with an address mask at least as large as the one asked; it then
  names type 2 and granularity 3, the drain bits of the unit, the 16-bit domain, the page address
  unchanged above bit 11 and the address mask in its six bits.\<close>

theorem qi_page_descriptor:
  "(if bit cap 39 \<and> am \<le> cap_max_address_mask_value cap \<and> am \<le> 63
    then \<exists>d. qi_iotlb_page_with_address_mask domain iova am cap = Ok d \<and>
      take_bit 6 (w_low d) = 0x32 \<and> (bit (w_low d) 6 \<longleftrightarrow> bit cap 54) \<and> (bit (w_low d) 7 \<longleftrightarrow> bit cap 55) \<and>
      ucast (drop_bit 16 (w_low d)) = (ucast domain :: u16) \<and> drop_bit 32 (w_low d) = 0 \<and>
      take_bit 6 (w_high d) = ucast am \<and> w_high d AND PAGE_ADDR_MASK = iova AND PAGE_ADDR_MASK
    else qi_iotlb_page_with_address_mask domain iova am cap = Err FeatureUnavailable)"
proof -
  have am: "(ucast IVA_AM_MASK :: u8) = 0x3f" by (simp add: IVA_AM_MASK_def)
  show ?thesis
  proof (cases "bit cap 39 \<and> am \<le> cap_max_address_mask_value cap \<and> am \<le> 63")
    case True
    then show ?thesis
      using iova_mask_bits [of am iova] qi_iotlb_low [of cap domain]
      by (simp add: qi_iotlb_page_with_address_mask_def cap_flag_bits am not_less)
  next
    case False
    then show ?thesis
      by (auto simp: qi_iotlb_page_with_address_mask_def cap_flag_bits am not_less)
  qed
qed

lemma qi_page_descriptor_witness:
  "\<exists>d. qi_iotlb_page_with_address_mask 0x10007 0x200000 9 (push_bit 39 1 OR push_bit 48 18) = Ok d \<and>
     take_bit 6 (w_high d) = 9"
  using qi_page_descriptor [of "push_bit 39 1 OR push_bit 48 18" 9 "0x10007" "0x200000"]
  by (auto simp: cap_max_address_mask_value_def CAP_MAMV_SHIFT_def CAP_MAMV_MASK_def)

section \<open>Fault decoding and table base registers\<close>

lemma fault_const_bits [field_simps_bits]:
  "s AND FSTS_PFO = 0 \<longleftrightarrow> \<not> bit s 0" "s AND FSTS_PPF = 0 \<longleftrightarrow> \<not> bit s 1" "s AND FSTS_AFO = 0 \<longleftrightarrow> \<not> bit s 2"
  "s AND FSTS_APF = 0 \<longleftrightarrow> \<not> bit s 3" "s AND FSTS_IQE = 0 \<longleftrightarrow> \<not> bit s 4" "s AND FSTS_ICE = 0 \<longleftrightarrow> \<not> bit s 5"
  "s AND FSTS_ITE = 0 \<longleftrightarrow> \<not> bit s 6" "s AND FSTS_PRO = 0 \<longleftrightarrow> \<not> bit s 7"
  "h AND FRCDH_FAULT = 0 \<longleftrightarrow> \<not> bit h 63" "h AND FRCDH_PRIVILEGE = 0 \<longleftrightarrow> \<not> bit h 31"
  "h AND FRCDH_EXECUTE = 0 \<longleftrightarrow> \<not> bit h 30"
  unfolding FSTS_PFO_def FSTS_PPF_def FSTS_AFO_def FSTS_APF_def FSTS_IQE_def FSTS_ICE_def FSTS_ITE_def
    FSTS_PRO_def FRCDH_FAULT_def FRCDH_PRIVILEGE_def FRCDH_EXECUTE_def and_push_bit_1_eq_0 by simp_all

lemma fault_type_bits: "h AND (FRCDH_TYPE_1 OR FRCDH_TYPE_2) = 0 \<longleftrightarrow> \<not> bit h 62 \<and> \<not> bit h 28"
proof -
  have "h AND (FRCDH_TYPE_1 OR FRCDH_TYPE_2) = (h AND FRCDH_TYPE_1) OR (h AND FRCDH_TYPE_2)"
    by (simp add: bit.conj_disj_distrib)
  then show ?thesis
    unfolding FRCDH_TYPE_1_def FRCDH_TYPE_2_def by (simp only: or_eq_0_iff and_push_bit_1_eq_0)
qed

lemma fault_access:
  assumes A: "access_ok A" and x: "x \<in> set (access_named A)"
  shows "af_contains A (vf_access (decode_primary_fault A segment index low high)) x \<longleftrightarrow>
    x = af_READ A \<and> (bit high 62 \<or> bit high 28 \<or> bit high 30) \<or> x = af_EXECUTE A \<and> bit high 30 \<or>
    x = af_WRITE A \<and> \<not> (bit high 62 \<or> bit high 28 \<or> bit high 30) \<or> x = af_USER A \<and> \<not> bit high 31"
proof -
  have n: "af_READ A \<in> set (access_named A)" "af_WRITE A \<in> set (access_named A)"
    "af_EXECUTE A \<in> set (access_named A)" "af_USER A \<in> set (access_named A)"
    by (simp_all add: access_named_def)
  have assoc: "af_union A f (af_union A g h) = af_union A (af_union A f g) h" for f g h
    using A by (simp add: access_ok_def)
  have ie: "af_is_empty A (af_empty A)" and ine: "\<And>f y. y \<in> set (access_named A) \<Longrightarrow> \<not> af_is_empty A (af_union A f y)"
    using A by (auto simp: access_ok_def)
  note c = access_ok_contains(1) [OF A _ x] access_ok_contains(2) [OF A x x]
  show ?thesis
    unfolding decode_primary_fault_def Let_def vtd_fault.simps fault_type_bits fault_const_bits assoc
    by (cases "bit high 62 \<or> bit high 28"; cases "bit high 30"; cases "bit high 31")
      (auto simp: c n ie ine)
qed

text \<open>C32. A fault record is decoded without loss: the reason is bits 39:32 of its high word, the
  requester its low sixteen bits in the segment of the unit, the address its low word cut to page
  granularity; the access is a read when a type bit or the execute bit is set, an execute when the
  execute bit is set, a write when none is, and a user access when the privilege bit is clear. A
  status word without a primary fault yields a fault exactly when one of bits 0 and 2 to 7 is set.\<close>

theorem fault_decoding:
  assumes "access_ok A"
  shows "(let f = decode_primary_fault A segment index low high in
      vf_reason f = Primary (ucast (drop_bit 32 high)) \<and> vf_source_id f = Some (ucast high) \<and>
      map_option pci_bdf (vf_client f) = Some (Bdf (ucast high)) \<and>
      map_option pci_segment (vf_client f) = Some segment \<and>
      vf_iova f = Some (push_bit 12 (drop_bit 12 low)) \<and> vf_record_index f = Some index \<and>
      (af_contains A (vf_access f) (af_READ A) \<longleftrightarrow> bit high 62 \<or> bit high 28 \<or> bit high 30) \<and>
      (af_contains A (vf_access f) (af_EXECUTE A) \<longleftrightarrow> bit high 30) \<and>
      (af_contains A (vf_access f) (af_WRITE A) \<longleftrightarrow> \<not> (bit high 62 \<or> bit high 28 \<or> bit high 30)) \<and>
      (af_contains A (vf_access f) (af_USER A) \<longleftrightarrow> \<not> bit high 31)) \<and>
    (decode_fault_status A status = None \<longleftrightarrow> (\<forall>n \<in> {0, 2, 3, 4, 5, 6, 7}. \<not> bit status n))"
proof -
  have r: "(ucast (drop_bit FRCDH_REASON_SHIFT high AND FRCDH_REASON_MASK) :: u8) = ucast (drop_bit 32 high)"
    unfolding FRCDH_REASON_SHIFT_def FRCDH_REASON_MASK_def and_mask_numerals
    by (rule bit_word_eqI) (auto simp: bit_simps)
  have s: "(ucast (high AND FRCDH_SOURCE_ID_MASK) :: u16) = ucast high"
    unfolding FRCDH_SOURCE_ID_MASK_def and_mask_numerals by (rule bit_word_eqI) (auto simp: bit_simps)
  have i: "low AND FRCDL_FAULT_INFO_MASK = push_bit 12 (drop_bit 12 low)"
    unfolding FRCDL_FAULT_INFO_MASK_def PAGE_ADDR_MASK_def [symmetric]
    by (rule bit_word_eqI) (auto simp: bit_simps PAGE_ADDR_MASK_bit)
  have none: "decode_fault_status A status = None \<longleftrightarrow> (\<forall>n \<in> {0, 2, 3, 4, 5, 6, 7}. \<not> bit status n)"
    unfolding decode_fault_status_def fault_status_reason_def fault_const_bits by auto
  show ?thesis
    using access_ok_neq [OF assms]
    by (simp add: Let_def fault_access [OF assms] access_named_def none)
      (simp add: decode_primary_fault_def Let_def r s i)
qed

lemma fault_decoding_witness:
  "READ_bit \<in> vf_access (decode_primary_fault std_access 0 0 0 (push_bit 62 1)) \<and>
   WRITE_bit \<notin> vf_access (decode_primary_fault std_access 0 0 0 (push_bit 62 1))"
  using fault_decoding [OF std_access_ok, of 0 0 0 "push_bit 62 1" 0]
  unfolding Let_def bit_push_bit_1_iff by (simp add: std_access_def)

lemma trailing_zeros_power: "trailing_zeros64 (2 ^ k) = k"
  by (simp add: trailing_zeros64_def)

lemma page_mask_or_small:
  assumes "4096 dvd p" and "p < 2 ^ 64" and "\<And>n. bit (e :: u64) n \<Longrightarrow> n < 12"
  shows "unat (((word_of_nat p AND PAGE_ADDR_MASK) OR e) AND PAGE_ADDR_MASK) = p"
    and "k \<le> 12 \<Longrightarrow> take_bit k ((word_of_nat p AND PAGE_ADDR_MASK) OR e) = take_bit k e"
proof -
  obtain q where "p = 2 ^ 12 * q" using assms(1) by (auto simp: dvd_def)
  then have "p = push_bit 12 q" by (simp add: push_bit_eq_mult mult.commute)
  then have low: "bit (word_of_nat p :: u64) n \<Longrightarrow> 12 \<le> n" for n by (simp add: bit_simps)
  have "((word_of_nat p AND PAGE_ADDR_MASK) OR e) AND PAGE_ADDR_MASK = (word_of_nat p :: u64)"
    by (rule bit_word_eqI) (use low assms(3) in \<open>force simp: bit_and_iff bit_or_iff PAGE_ADDR_MASK_bit\<close>)
  then show "unat (((word_of_nat p AND PAGE_ADDR_MASK) OR e) AND PAGE_ADDR_MASK) = p"
    using assms(2) by (simp add: unat_of_nat)
  show "k \<le> 12 \<Longrightarrow> take_bit k ((word_of_nat p AND PAGE_ADDR_MASK) OR e) = take_bit k e"
    by (rule bit_word_eqI) (auto simp: bit_take_bit_iff bit_or_iff bit_and_iff PAGE_ADDR_MASK_bit)
qed

lemma irt_size_encoded:
  assumes "irt_new E phys virt n = Ok t"
  shows "\<exists>s. irta_size t = Ok s \<and> unat s \<le> 15 \<and> dtb_entry_count t = 2 ^ (unat s + 1)"
proof -
  have n: "2 \<le> n" "n \<le> 65536" "is_power_of_two n" "dtb_entry_count t = n"
    using assms by (auto simp: irt_new_def dtb_new_aligned_def res_bind_Ok_iff INTERRUPT_REMAP_MIN_ENTRIES_def
        INTERRUPT_REMAP_MAX_ENTRIES_def split: if_splits)
  then obtain k where k: "n = 2 ^ k" by (auto simp: is_power_of_two_iff)
  have k1: "1 \<le> k" using n(1) k by (cases k) auto
  have k16: "k \<le> 16" using n(2) k power_le_imp_le_exp [of 2 k 16] by simp
  have s: "irta_size t = Ok (take_bit 4 (word_of_nat (k - 1)))"
    using k k1 n(4) by (simp add: irta_size_def trailing_zeros_power IRTA_SIZE_MASK_def and_mask_numerals)
  have "unat (take_bit 4 (word_of_nat (k - 1)) :: u64) = (k - 1) mod 16"
    by (simp add: unsigned_take_bit_eq unsigned_of_nat take_bit_take_bit) (simp add: take_bit_eq_mod)
  also have "\<dots> = k - 1" using k1 k16 by simp
  finally show ?thesis using s k k1 k16 n(4) by (cases k) auto
qed

text \<open>The size fields of the table base registers mean what the hardware takes them to mean: a
  queue address that is accepted holds the physical base of the ring and, in bits 2:0, the number
  \<open>k\<close> with \<open>entry_count = 2 ^ (8 + k)\<close>; and the size of an accepted interrupt-remapping table is
  the number \<open>s\<close>, at most 15, with \<open>entry_count = 2 ^ (s + 1)\<close>.\<close>

theorem table_sizes_encoded:
  assumes "cqb_ok E b" and "queued_invalidation_table_address E b = Ok v"
    and "irt_new E phys virt n = Ok t"
  shows "unat (v AND PAGE_ADDR_MASK) = r_start (cqb_phys b) \<and>
    cqb_entry_count b = 2 ^ (8 + unat (take_bit 3 v)) \<and>
    (\<exists>s. irta_size t = Ok s \<and> unat s \<le> 15 \<and> dtb_entry_count t = 2 ^ (unat s + 1))"
proof -
  have "cqb_entry_bytes b = 16" and phys: "r_start (cqb_phys b) < 2 ^ 64" and ext: "ext_ok E"
    and "cqb_entry_count b * cqb_entry_bytes b < 2 ^ 64"
    using assms(1,2) by (auto simp: cqb_ok_def valid_range_def usize_bound_def QI_ENTRY_BYTES_def
        queued_invalidation_table_address_def split: if_splits)
  then have cnt: "cqb_entry_count b < 2 ^ 60" by simp
  let ?m = "trailing_zeros64 (cqb_entry_count b div QI_MIN_ENTRIES)"
  let ?e = "word_of_nat ?m :: u64"
  have q: "256 \<le> cqb_entry_count b" "is_power_of_two (cqb_entry_count b)" "4096 dvd r_start (cqb_phys b)"
      "?e \<le> 7" "v = (word_of_nat (r_start (cqb_phys b)) AND PAGE_ADDR_MASK) OR ?e"
    using assms(2) by (auto simp: queued_invalidation_table_address_def Let_def QI_MIN_ENTRIES_def
        IQA_SIZE_MASK_def not_less ext_ok_aligned_4K [OF ext] mod_eq_0_iff_dvd split: if_splits)
  obtain c where c: "cqb_entry_count b = 2 ^ c" using q(2) by (auto simp: is_power_of_two_iff)
  have c8: "8 \<le> c" using q(1) c power_le_imp_le_exp [of 2 8 c] by simp
  have c60: "c < 60" using cnt c power_less_imp_less_exp [of 2 c 60] by simp
  have "cqb_entry_count b div QI_MIN_ENTRIES = 2 ^ (c - 8)"
    using c c8 power_diff [of "2 :: nat" 8 c] by (simp add: QI_MIN_ENTRIES_def)
  then have m: "?m = c - 8" by (simp only: trailing_zeros_power)
  have "c - 8 < 2 ^ 64" using c60 by (rule order_less_trans [OF le_less_trans [OF diff_le_self]]) simp
  then have ue: "unat ?e = c - 8" by (simp add: m unat_of_nat)
  have "?e < 2 ^ 3" using q(4) by (simp add: word_less_nat_alt word_le_nat_alt)
  then have low: "bit ?e i \<Longrightarrow> i < 3" for i by (rule less_power_bit)
  have e3: "take_bit 3 ?e = ?e" by (rule bit_word_eqI) (auto simp: bit_take_bit_iff dest: low)
  have low12: "bit ?e i \<Longrightarrow> i < 12" for i by (drule low) simp
  have v: "unat (v AND PAGE_ADDR_MASK) = r_start (cqb_phys b)" "take_bit 3 v = ?e"
    unfolding q(5)
    by (rule page_mask_or_small(1) [OF q(3) phys low12], assumption)
      (subst page_mask_or_small(2) [OF q(3) phys low12], assumption, simp, rule e3)
  show ?thesis using v c c8 ue irt_size_encoded [OF assms(3)] by simp
qed

lemma table_sizes_encoded_witness:
  "\<exists>v. queued_invalidation_table_address std_ext \<lparr>cqb_phys = \<lparr>r_start = 4096, r_end = 16384\<rparr>,
       cqb_virt = \<lparr>r_start = 65536, r_end = 77824\<rparr>, cqb_entry_count = 512, cqb_entry_bytes = 16\<rparr> = Ok v \<and>
     (512 :: nat) = 2 ^ (8 + unat (take_bit 3 v))"
proof -
  let ?b = "\<lparr>cqb_phys = \<lparr>r_start = 4096, r_end = 16384\<rparr>, cqb_virt = \<lparr>r_start = 65536, r_end = 77824\<rparr>,
    cqb_entry_count = 512, cqb_entry_bytes = 16\<rparr>"
  have ok: "cqb_ok std_ext ?b"
    by (simp add: cqb_ok_def std_ext_ok valid_range_def usize_bound_def is_power_of_two_def)
  have tz: "trailing_zeros64 2 = 1" using trailing_zeros_power [of 1] by simp
  obtain v where v: "queued_invalidation_table_address std_ext ?b = Ok v"
    by (simp add: queued_invalidation_table_address_def QI_ENTRY_BYTES_def QI_MIN_ENTRIES_def
        is_power_of_two_def std_ext_def IQA_SIZE_MASK_def tz)
  have "irt_new std_ext \<lparr>r_start = 4096, r_end = 8192\<rparr> \<lparr>r_start = 65536, r_end = 69632\<rparr> 256 =
      Ok \<lparr>dtb_phys = \<lparr>r_start = 4096, r_end = 8192\<rparr>, dtb_virt = \<lparr>r_start = 65536, r_end = 69632\<rparr>,
        dtb_entry_count = 256\<rparr>"
    by (simp add: irt_new_def dtb_new_aligned_def std_ext_def is_power_of_two_def checked_mul_usize_def
        usize_bound_def wrapping_sub_usize_def INTERRUPT_REMAP_MIN_ENTRIES_def
        INTERRUPT_REMAP_MAX_ENTRIES_def INTERRUPT_REMAP_ENTRY_BYTES_def)
  from table_sizes_encoded [OF ok v this] show ?thesis using v by auto
qed

end
