(* ===== verification/Memory.thy ===== *)
theory Memory
  imports Vtd_Descriptors
begin

text \<open>
  The memory and the registers the driver works on. Memory is a map from addresses to bytes, read
  and written by the volatile 64-bit accesses of the source (little-endian, as on every target of
  this code). The mapped register window is \<open>kore_memory::Mapping\<close>, whose accessors are
  parameters: each may fail and may change the whole state, since the device runs on.
\<close>

section \<open>Memory\<close>

record 'd world =
  w_mem :: "usize \<Rightarrow> u8"
  w_dev :: 'd

definition store8 :: "virt_addr \<Rightarrow> u8 \<Rightarrow> 'd world \<Rightarrow> 'd world" where
  "store8 va v w = w\<lparr>w_mem := (w_mem w)(va := v)\<rparr>"

definition store64 :: "virt_addr \<Rightarrow> u64 \<Rightarrow> 'd world \<Rightarrow> 'd world" where
  "store64 va v w =
     w\<lparr>w_mem := (\<lambda>a. if va \<le> a \<and> a < va + 8 then ucast (drop_bit (8 * (a - va)) v) else w_mem w a)\<rparr>"

definition load64 :: "virt_addr \<Rightarrow> 'd world \<Rightarrow> u64" where
  "load64 va w = word_of_le (map (\<lambda>i. w_mem w (va + i)) [0..<8])"

lemma load64_cong:
  "(\<And>a. va \<le> a \<Longrightarrow> a < va + 8 \<Longrightarrow> w_mem w a = w_mem w' a) \<Longrightarrow> load64 va w = load64 va w'"
  unfolding load64_def by (rule arg_cong [where f = word_of_le]) simp

lemma load64_store64_same [simp]: "load64 va (store64 va v w) = v"
proof -
  have "map (\<lambda>i. w_mem (store64 va v w) (va + i)) [0..<8] = le_bytes v"
    by (simp add: store64_def le_bytes_def)
  then show ?thesis unfolding load64_def by (simp only: word_of_le_bytes)
qed

lemma load64_store64_other [simp]:
  "va + 8 \<le> vb \<or> vb + 8 \<le> va \<Longrightarrow> load64 va (store64 vb v w) = load64 va w"
  by (rule load64_cong) (auto simp: store64_def)

lemma store_frames [simp]:
  "\<not> (va \<le> a \<and> a < va + 8) \<Longrightarrow> w_mem (store64 va v w) a = w_mem w a"
  "a \<noteq> va \<Longrightarrow> w_mem (store8 va x w) a = w_mem w a"
  "w_dev (store64 va v w) = w_dev w" "w_dev (store8 va x w) = w_dev w"
  by (auto simp: store64_def store8_def)

section \<open>Two-word entries\<close>

definition write_128 :: "virt_addr \<Rightarrow> u64 \<Rightarrow> u64 \<Rightarrow> 'd world \<Rightarrow> 'd world" where
  "write_128 va low high w = store64 (va + 8) high (store64 va low w)"

definition read_128 :: "virt_addr \<Rightarrow> 'd world \<Rightarrow> words128" where
  "read_128 va w = \<lparr>w_low = load64 va w, w_high = load64 (va + 8) w\<rparr>"

lemma read_write_128 [simp]:
  "read_128 va (write_128 va low high w) = \<lparr>w_low = low, w_high = high\<rparr>"
  "va + 16 \<le> vb \<or> vb + 16 \<le> va \<Longrightarrow> read_128 va (write_128 vb low high w) = read_128 va w"
  by (auto simp: read_128_def write_128_def)

lemma write_128_frame [simp]:
  "\<not> (va \<le> a \<and> a < va + 16) \<Longrightarrow> w_mem (write_128 va low high w) a = w_mem w a"
  "w_dev (write_128 va low high w) = w_dev w"
  by (auto simp: write_128_def)

lemma read_128_cong:
  "(\<And>a. va \<le> a \<Longrightarrow> a < va + 16 \<Longrightarrow> w_mem w a = w_mem w' a) \<Longrightarrow> read_128 va w = read_128 va w'"
  by (auto simp: read_128_def intro!: load64_cong)

text \<open>The table accesses: the address is computed first, and an error of it leaves memory alone.\<close>

definition write_entry_at :: "virt_addr result \<Rightarrow> words128 \<Rightarrow> (unit, error, 'd world) st" where
  "write_entry_at va e = st_bind (st_lift va) (\<lambda>a. st_modify (write_128 a (w_low e) (w_high e)))"

definition read_entry_at :: "virt_addr result \<Rightarrow> (words128, error, 'd world) st" where
  "read_entry_at va = st_bind (st_lift va) (\<lambda>a. st_gets (read_128 a))"

definition write_root_entry :: "ext_ops \<Rightarrow> root_table \<Rightarrow> u8 \<Rightarrow> words128 \<Rightarrow> (unit, error, 'd world) st" where
  "write_root_entry E t bus e = write_entry_at (root_entry_vaddr E t bus) e"

definition read_root_entry :: "ext_ops \<Rightarrow> root_table \<Rightarrow> u8 \<Rightarrow> (words128, error, 'd world) st" where
  "read_root_entry E t bus = read_entry_at (root_entry_vaddr E t bus)"

definition write_context_entry ::
    "ext_ops \<Rightarrow> context_table \<Rightarrow> pci_device \<Rightarrow> words128 \<Rightarrow> (unit, error, 'd world) st" where
  "write_context_entry E t client e = write_entry_at (client_entry_vaddr E t client) e"

definition read_context_entry ::
    "ext_ops \<Rightarrow> context_table \<Rightarrow> pci_device \<Rightarrow> (words128, error, 'd world) st" where
  "read_context_entry E t client = read_entry_at (client_entry_vaddr E t client)"

definition write_interrupt_remap_entry ::
    "ext_ops \<Rightarrow> interrupt_remap_table \<Rightarrow> u16 \<Rightarrow> words128 \<Rightarrow> (unit, error, 'd world) st" where
  "write_interrupt_remap_entry E t entry e = write_entry_at (irt_entry_vaddr E t entry) e"

section \<open>The mapped register window\<close>

text \<open>
  \<open>mp_raw_store64\<close> is the volatile store through a pointer into the mapped window.
\<close>

record 'w mapping =
  mp_paddr :: phys_addr
  mp_range :: addr_range
  mp_read32 :: "usize \<Rightarrow> (u32, paging_error, 'w) st"
  mp_write32 :: "usize \<Rightarrow> u32 \<Rightarrow> (unit, paging_error, 'w) st"
  mp_read64 :: "usize \<Rightarrow> (u64, paging_error, 'w) st"
  mp_write64 :: "usize \<Rightarrow> u64 \<Rightarrow> (unit, paging_error, 'w) st"
  mp_raw_store64 :: "virt_addr \<Rightarrow> u64 \<Rightarrow> 'w \<Rightarrow> 'w"

text \<open>
  A VT-d unit reads its tables and its queue; in the modes used here it writes neither. So an
  access of a register does not change memory.
\<close>

definition registers_only :: "'d world mapping \<Rightarrow> bool" where
  "registers_only R \<longleftrightarrow>
     (\<forall>i w. w_mem (snd (mp_read32 R i w)) = w_mem w) \<and> (\<forall>i v w. w_mem (snd (mp_write32 R i v w)) = w_mem w) \<and>
     (\<forall>i w. w_mem (snd (mp_read64 R i w)) = w_mem w) \<and> (\<forall>i v w. w_mem (snd (mp_write64 R i v w)) = w_mem w) \<and>
     (\<forall>a v w. w_mem (mp_raw_store64 R a v w) = w_mem w)"

section \<open>Operations that keep a property of the state\<close>

definition keeps :: "('s \<Rightarrow> bool) \<Rightarrow> ('a, 'e, 's) st \<Rightarrow> bool" where
  "keeps I m \<longleftrightarrow> (\<forall>s. I s \<longrightarrow> I (snd (m s)))"

named_theorems keeps_rules \<open>a composed operation keeps what its parts keep\<close>

lemma keepsD: "keeps I m \<Longrightarrow> m s = (r, t) \<Longrightarrow> I s \<Longrightarrow> I t"
  by (auto simp: keeps_def dest: spec [of _ s])

lemma keeps_pure [keeps_rules, simp]:
  "keeps I (st_ret x)" "keeps I (st_err e)" "keeps I (st_lift r)" "keeps I (st_gets g)"
  by (simp_all add: keeps_def)

lemma keeps_modify [keeps_rules]: "(\<And>s. I s \<Longrightarrow> I (f s)) \<Longrightarrow> keeps I (st_modify f)"
  by (simp add: keeps_def)

lemma keeps_bind [keeps_rules]:
  assumes "keeps I m" and "\<And>x. keeps I (f x)"
  shows "keeps I (st_bind m f)"
proof -
  have "I (snd (st_bind m f s))" if "I s" for s
  proof -
    obtain r t where mt: "m s = (r, t)" by (metis prod.collapse)
    have "I t" using keepsD [OF assms(1) mt that] .
    then show ?thesis using mt assms(2) by (cases r) (auto simp: st_bind_def keeps_def)
  qed
  then show ?thesis by (simp add: keeps_def)
qed

lemma keeps_then [keeps_rules]: "keeps I m \<Longrightarrow> keeps I k \<Longrightarrow> keeps I (st_then m k)"
  by (simp add: st_then_def keeps_bind)

lemma keeps_if [keeps_rules]: "keeps I m \<Longrightarrow> keeps I k \<Longrightarrow> keeps I (if c then m else k)"
  by simp

end
