(* ===== verification/Vtd_Registers.thy ===== *)
theory Vtd_Registers
  imports Memory Command_Queue
begin

text \<open>
  \<open>VtdRegisterWindow\<close> of \<open>intel/ctrl.rs\<close>: the register accesses of a VT-d unit, the programming
  sequences of its global command register, the fault event registers and the submission of one
  invalidation descriptor. Disabling interrupts around a sequence has no effect here. A polling
  loop is a recursion on the number of polls left.
\<close>

section \<open>Registers\<close>

definition REG_VERSION :: usize where "REG_VERSION = 0x00"
definition REG_CAP :: usize where "REG_CAP = 0x08"
definition REG_ECAP :: usize where "REG_ECAP = 0x10"
definition REG_GCMD :: usize where "REG_GCMD = 0x18"
definition REG_GSTS :: usize where "REG_GSTS = 0x1c"
definition REG_RTADDR :: usize where "REG_RTADDR = 0x20"
definition REG_FSTS :: usize where "REG_FSTS = 0x34"
definition REG_FECTL :: usize where "REG_FECTL = 0x38"
definition REG_FEDATA :: usize where "REG_FEDATA = 0x3c"
definition REG_FEADDR :: usize where "REG_FEADDR = 0x40"
definition REG_FEUADDR :: usize where "REG_FEUADDR = 0x44"
definition REG_IQH :: usize where "REG_IQH = 0x80"
definition REG_IQT :: usize where "REG_IQT = 0x88"
definition REG_IQA :: usize where "REG_IQA = 0x90"
definition REG_IRTA :: usize where "REG_IRTA = 0xb8"

definition GCMD_TE :: u32 where "GCMD_TE = push_bit 31 1"
definition GCMD_SRTP :: u32 where "GCMD_SRTP = push_bit 30 1"
definition GCMD_QIE :: u32 where "GCMD_QIE = push_bit 26 1"
definition GCMD_IRE :: u32 where "GCMD_IRE = push_bit 25 1"
definition GCMD_SIRTP :: u32 where "GCMD_SIRTP = push_bit 24 1"
definition GSTS_TES :: u32 where "GSTS_TES = push_bit 31 1"
definition GSTS_RTPS :: u32 where "GSTS_RTPS = push_bit 30 1"
definition GSTS_QIES :: u32 where "GSTS_QIES = push_bit 26 1"
definition GSTS_IRES :: u32 where "GSTS_IRES = push_bit 25 1"
definition GSTS_IRTPS :: u32 where "GSTS_IRTPS = push_bit 24 1"
definition FECTL_INTERRUPT_MASK :: u32 where "FECTL_INTERRUPT_MASK = push_bit 31 1"
definition REGISTER_TRANSITION_POLL_LIMIT :: usize where "REGISTER_TRANSITION_POLL_LIMIT = 1000000"

section \<open>Accessors\<close>

definition st_map_err :: "('e \<Rightarrow> 'f) \<Rightarrow> ('a, 'e, 's) st \<Rightarrow> ('a, 'f, 's) st" where
  "st_map_err f m s = (case m s of (r, s') \<Rightarrow> (res_map_err f r, s'))"

definition st_map :: "('a \<Rightarrow> 'b) \<Rightarrow> ('a, 'e, 's) st \<Rightarrow> ('b, 'e, 's) st" where
  "st_map f m = st_bind m (\<lambda>x. st_ret (f x))"

definition read32 :: "'w mapping \<Rightarrow> usize \<Rightarrow> (u32, error, 'w) st" where
  "read32 R offset = st_map_err error_from_paging (mp_read32 R offset)"

definition write32 :: "'w mapping \<Rightarrow> usize \<Rightarrow> u32 \<Rightarrow> (unit, error, 'w) st" where
  "write32 R offset v = st_map_err error_from_paging (mp_write32 R offset v)"

definition read64 :: "'w mapping \<Rightarrow> usize \<Rightarrow> (u64, error, 'w) st" where
  "read64 R offset = st_map_err error_from_paging (mp_read64 R offset)"

definition write64 :: "'w mapping \<Rightarrow> usize \<Rightarrow> u64 \<Rightarrow> (unit, error, 'w) st" where
  "write64 R offset v = st_map_err error_from_paging (mp_write64 R offset v)"

definition write64_shared :: "ext_ops \<Rightarrow> 'w mapping \<Rightarrow> usize \<Rightarrow> u64 \<Rightarrow> (unit, error, 'w) st" where
  "write64_shared E R offset v =
     st_bind (st_lift (ok_or (checked_add_usize offset 8) AddressOverflow)) (\<lambda>end'.
     if range_size E (mp_range R) < end' then st_err ErrInvalidRange
     else
       st_bind (st_lift (ok_or (addr_checked_add E (r_start (mp_range R)) offset) AddressOverflow)) (\<lambda>addr.
       st_modify (mp_raw_store64 R addr v)))"

definition unit_version :: "'w mapping \<Rightarrow> (vtd_version, error, 'w) st" where
  "unit_version R = read32 R REG_VERSION"

definition capability :: "'w mapping \<Rightarrow> (vtd_cap, error, 'w) st" where
  "capability R = read64 R REG_CAP"

definition extended_capability :: "'w mapping \<Rightarrow> (vtd_ecap, error, 'w) st" where
  "extended_capability R = read64 R REG_ECAP"

definition global_status :: "'w mapping \<Rightarrow> (u32, error, 'w) st" where
  "global_status R = read32 R REG_GSTS"

definition global_command :: "'w mapping \<Rightarrow> u32 \<Rightarrow> (unit, error, 'w) st" where
  "global_command R c = write32 R REG_GCMD c"

definition fault_status :: "'w mapping \<Rightarrow> (u32, error, 'w) st" where
  "fault_status R = read32 R REG_FSTS"

definition invalidate_queue_head :: "'w mapping \<Rightarrow> (usize, error, 'w) st" where
  "invalidate_queue_head R = st_map unat (read64 R REG_IQH)"

definition invalidate_queue_tail :: "'w mapping \<Rightarrow> (usize, error, 'w) st" where
  "invalidate_queue_tail R = st_map unat (read64 R REG_IQT)"

definition write_invalidate_queue_tail :: "'w mapping \<Rightarrow> usize \<Rightarrow> (unit, error, 'w) st" where
  "write_invalidate_queue_tail R tail = write64 R REG_IQT (word_of_nat tail)"

definition write_invalidate_queue_tail_shared ::
    "ext_ops \<Rightarrow> 'w mapping \<Rightarrow> usize \<Rightarrow> (unit, error, 'w) st" where
  "write_invalidate_queue_tail_shared E R tail = write64_shared E R REG_IQT (word_of_nat tail)"

section \<open>Programming sequences\<close>

fun wait_global_status_poll :: "nat \<Rightarrow> 'w mapping \<Rightarrow> u32 \<Rightarrow> u32 \<Rightarrow> (unit, error, 'w) st" where
  "wait_global_status_poll n R m expected w =
     (if n = 0 then (Err (error_from_vtd RegisterTransitionTimeout), w)
      else
        st_bind (global_status R) (\<lambda>status.
          if status AND m = expected AND m then st_ret ()
          else wait_global_status_poll (n - 1) R m expected) w)"

declare wait_global_status_poll.simps [simp del]

definition wait_global_status :: "'w mapping \<Rightarrow> u32 \<Rightarrow> u32 \<Rightarrow> (unit, error, 'w) st" where
  "wait_global_status R m expected = wait_global_status_poll REGISTER_TRANSITION_POLL_LIMIT R m expected"

definition set_root_entry_table :: "ext_ops \<Rightarrow> 'w mapping \<Rightarrow> phys_addr \<Rightarrow> (unit, error, 'w) st" where
  "set_root_entry_table E R root =
     (if \<not> addr_is_aligned E root (page_bytes E Size4K) then st_err (error_from_vtd UnsupportedGranule)
      else
        st_then (write64 R REG_RTADDR (word_of_nat root)) (
        st_bind (global_status R) (\<lambda>status.
        st_then (global_command R (status OR GCMD_SRTP)) (
        wait_global_status R GSTS_RTPS GSTS_RTPS))))"

definition set_queued_invalidation_table ::
    "ext_ops \<Rightarrow> 'w mapping \<Rightarrow> command_queue_backing \<Rightarrow> (unit, error, 'w) st" where
  "set_queued_invalidation_table E R b =
     st_bind (st_lift (queued_invalidation_table_address E b)) (\<lambda>iqa.
     st_then (write64 R REG_IQA iqa) (write64 R REG_IQT 0))"

definition set_root_table :: "ext_ops \<Rightarrow> 'w mapping \<Rightarrow> root_table \<Rightarrow> (unit, error, 'w) st" where
  "set_root_table E R t = set_root_entry_table E R (r_start (dtb_phys t))"

definition set_translation_enabled :: "'w mapping \<Rightarrow> bool \<Rightarrow> (unit, error, 'w) st" where
  "set_translation_enabled R enabled =
     (let status_bit = if enabled then GSTS_TES else 0
      in st_bind (global_status R) (\<lambda>status.
         st_then (global_command R (if enabled then status OR GCMD_TE else status AND NOT GCMD_TE)) (
         wait_global_status R GSTS_TES status_bit)))"

definition set_queued_invalidation_enabled :: "'w mapping \<Rightarrow> bool \<Rightarrow> (unit, error, 'w) st" where
  "set_queued_invalidation_enabled R enabled =
     (let status_bit = if enabled then GSTS_QIES else 0
      in st_bind (global_status R) (\<lambda>status.
         st_then (global_command R (if enabled then status OR GCMD_QIE else status AND NOT GCMD_QIE)) (
         wait_global_status R GSTS_QIES status_bit)))"

definition set_interrupt_remapping_enabled :: "'w mapping \<Rightarrow> bool \<Rightarrow> (unit, error, 'w) st" where
  "set_interrupt_remapping_enabled R enabled =
     (let status_bit = if enabled then GSTS_IRES else 0
      in st_bind (global_status R) (\<lambda>status.
         st_then (global_command R (if enabled then status OR GCMD_IRE else status AND NOT GCMD_IRE)) (
         wait_global_status R GSTS_IRES status_bit)))"

definition set_interrupt_remap_table ::
    "'w mapping \<Rightarrow> interrupt_remap_table \<Rightarrow> bool \<Rightarrow> (unit, error, 'w) st" where
  "set_interrupt_remap_table R t extended_interrupt_mode =
     st_bind (st_lift (irta_size t)) (\<lambda>sz.
     let value = (word_of_nat (r_start (dtb_phys t)) AND PAGE_ADDR_MASK) OR sz;
         value' = if extended_interrupt_mode then value OR IRTA_EIME else value
     in st_then (write64 R REG_IRTA value') (
        st_bind (global_status R) (\<lambda>status.
        st_then (global_command R (status OR GCMD_SIRTP)) (
        wait_global_status R GSTS_IRTPS GSTS_IRTPS))))"

section \<open>The fault event\<close>

definition configure_fault_event :: "'w mapping \<Rightarrow> interrupt_route \<Rightarrow> (unit, error, 'w) st" where
  "configure_fault_event R route =
     (case route of
        RouteDisabled \<Rightarrow> write32 R REG_FECTL FECTL_INTERRUPT_MASK
      | RouteMsi message \<Rightarrow>
          st_then (write32 R REG_FEDATA (msi_data message)) (
          st_then (write32 R REG_FEADDR (ucast (msi_address message))) (
          st_then (write32 R REG_FEUADDR (ucast (drop_bit 32 (msi_address message)))) (
          write32 R REG_FECTL 0))))"

definition fault_event_message :: "'w mapping \<Rightarrow> (msi_message, error, 'w) st" where
  "fault_event_message R =
     st_bind (read32 R REG_FEDATA) (\<lambda>data.
     st_bind (read32 R REG_FEADDR) (\<lambda>low.
     st_bind (read32 R REG_FEUADDR) (\<lambda>high.
     st_ret \<lparr>msi_address = ucast low OR push_bit 32 (ucast high), msi_data = data\<rparr>)))"

definition fault_event_route :: "'w mapping \<Rightarrow> (interrupt_route, error, 'w) st" where
  "fault_event_route R =
     st_bind (read32 R REG_FECTL) (\<lambda>c.
     if c AND FECTL_INTERRUPT_MASK \<noteq> 0 then st_ret RouteDisabled
     else st_map RouteMsi (fault_event_message R))"

section \<open>Submitting a descriptor\<close>

text \<open>
  The closures handed to the queue: \<open>tail_result\<close> of the source is the second component of the
  state they work on, since the closure that writes the tail register cannot return its error.
  The error check reads the fault status and ignores its value, as the source does.
\<close>

definition on_world :: "('a, error, 'w) st \<Rightarrow> ('a, error, 'w \<times> unit result) st" where
  "on_world m = (\<lambda>(w, tr). case m w of (r, w') \<Rightarrow> (r, (w', tr)))"

definition qi_hw ::
    "'d world mapping \<Rightarrow> (usize \<Rightarrow> (unit, error, 'd world) st) \<Rightarrow> ('d world \<times> unit result) cq_hw" where
  "qi_hw R write_tail =
     \<lparr>hw_read_head = on_world (invalidate_queue_head R),
      hw_write_tail = (\<lambda>tail (w, _). case write_tail tail w of (r, w') \<Rightarrow> (w', r)),
      hw_check_error = on_world (st_map (\<lambda>_. ()) (fault_status R)),
      hw_store = (\<lambda>va b (w, tr). (store8 va b w, tr))\<rparr>"

definition submit_to :: "ext_ops \<Rightarrow> words128 \<Rightarrow> 'h cq_hw \<Rightarrow> (unit, error, command_queue \<times> 'h) st" where
  "submit_to E d hw = cq_submit E hw (qi_bytes d)"

declare submit_to_def [simp]

definition submit_with ::
    "ext_ops \<Rightarrow> 'd world mapping \<Rightarrow> (usize \<Rightarrow> (unit, error, 'd world) st) \<Rightarrow> words128 \<Rightarrow>
     (unit, error, command_queue \<times> 'd world) st" where
  "submit_with E R write_tail d = (\<lambda>(q, w).
     case submit_to E d (qi_hw R write_tail) (q, (w, Ok ())) of
       (Ok _, (q', (w', tail_result))) \<Rightarrow> (tail_result, (q', w'))
     | (Err e, (q', (w', _))) \<Rightarrow> (Err e, (q', w'))
     | (Panic, (q', (w', _))) \<Rightarrow> (Panic, (q', w')))"

definition window_submit ::
    "ext_ops \<Rightarrow> 'd world mapping \<Rightarrow> words128 \<Rightarrow> (unit, error, command_queue \<times> 'd world) st" where
  "window_submit E R d = submit_with E R (write_invalidate_queue_tail R) d"

definition on_window :: "('a, error, 'w) st \<Rightarrow> ('a, error, 'q \<times> 'w) st" where
  "on_window m = (\<lambda>(q, w). case m w of (r, w') \<Rightarrow> (r, (q, w')))"

definition compose_interrupt_remap ::
    "ext_ops \<Rightarrow> 'd world mapping \<Rightarrow> interrupt_remap_table \<Rightarrow> u16 \<Rightarrow> u16 \<Rightarrow> words128 \<Rightarrow>
     (remapped_msi, error, command_queue \<times> 'd world) st" where
  "compose_interrupt_remap E R t entry subhandle remap =
     st_then (on_window (write_interrupt_remap_entry E t entry remap)) (
     st_then (window_submit E R (qi_interrupt_entry_cache entry)) (
     st_ret (remapped_msi_new entry subhandle)))"

definition write_binding_context ::
    "ext_ops \<Rightarrow> 'd world mapping \<Rightarrow> context_table \<Rightarrow> (pci_device, vtd_domain) binding \<Rightarrow>
     (unit, error, 'd world) st" where
  "write_binding_context E R t b =
     st_bind (extended_capability R) (\<lambda>cap.
     st_bind (st_lift (context_from_binding E b cap)) (\<lambda>e.
     write_context_entry E t (b_client b) e))"

definition window_invalidate_context_global ::
    "ext_ops \<Rightarrow> 'd world mapping \<Rightarrow> (unit, error, command_queue \<times> 'd world) st" where
  "window_invalidate_context_global E R = window_submit E R qi_context_global"

definition window_invalidate_context_device ::
    "ext_ops \<Rightarrow> 'd world mapping \<Rightarrow> pci_device \<Rightarrow> (unit, error, command_queue \<times> 'd world) st" where
  "window_invalidate_context_device E R client = window_submit E R (qi_context_device client)"

definition window_invalidate_iotlb_global ::
    "ext_ops \<Rightarrow> 'd world mapping \<Rightarrow> vtd_cap \<Rightarrow> (unit, error, command_queue \<times> 'd world) st" where
  "window_invalidate_iotlb_global E R cap = window_submit E R (qi_iotlb_global cap)"

definition window_invalidate_iotlb_domain ::
    "ext_ops \<Rightarrow> 'd world mapping \<Rightarrow> io_domain \<Rightarrow> vtd_cap \<Rightarrow> (unit, error, command_queue \<times> 'd world) st" where
  "window_invalidate_iotlb_domain E R domain cap = window_submit E R (qi_iotlb_domain domain cap)"

definition window_invalidate_iotlb_page ::
    "ext_ops \<Rightarrow> 'd world mapping \<Rightarrow> io_domain \<Rightarrow> u64 \<Rightarrow> page_size \<Rightarrow> vtd_cap \<Rightarrow>
     (unit, error, command_queue \<times> 'd world) st" where
  "window_invalidate_iotlb_page E R domain iova granule cap =
     st_bind (st_lift (qi_iotlb_page domain iova granule cap)) (window_submit E R)"

end
