(* ===== verification/Range_Plan.thy ===== *)
theory Range_Plan
  imports Vtd_Descriptors
begin

text \<open>
  \<open>VtdIotlbRangePlan\<close> of \<open>intel/ctrl.rs\<close>: a range of 4 KiB pages is cut into naturally aligned
  power-of-two blocks, each the operand of one page-selective invalidation descriptor.
\<close>

section \<open>The plan\<close>

record range_block =
  bk_page :: usize
  bk_mask :: u8

record range_plan =
  rp_next_page :: usize
  rp_remaining_pages :: usize
  rp_min_mask :: u8
  rp_max_mask :: u8

text \<open>\<open>1usize << k\<close>, which traps on a shift of 64 or more, and the trapping subtraction.\<close>

definition shl_one_usize :: "u8 \<Rightarrow> (usize, 'e) res" where
  "shl_one_usize k = (if unat k < 64 then Ok (2 ^ unat k) else Panic)"

definition sub_usize :: "usize \<Rightarrow> usize \<Rightarrow> (usize, 'e) res" where
  "sub_usize a b = (if b \<le> a then Ok (a - b) else Panic)"

definition floor_log2_usize :: "usize \<Rightarrow> (u8, 'e) res" where
  "floor_log2_usize v = res_map word_of_nat (sub_usize 63 (leading_zeros64 v))"

definition iotlb_granule_address_mask :: "page_size \<Rightarrow> u8 option" where
  "iotlb_granule_address_mask sz =
     (case sz of Size4K \<Rightarrow> Some 0 | Size2M \<Rightarrow> Some 9 | Size1G \<Rightarrow> Some 18 | _ \<Rightarrow> None)"

definition range_plan_new :: "usize \<Rightarrow> usize \<Rightarrow> u8 \<Rightarrow> u8 \<Rightarrow> range_plan result" where
  "range_plan_new start_page page_count min_mask max_mask =
     (let plan = \<lparr>rp_next_page = start_page, rp_remaining_pages = page_count, rp_min_mask = min_mask,
                  rp_max_mask = max_mask\<rparr>
      in if page_count = 0 then Ok (plan\<lparr>rp_remaining_pages := 0\<rparr>)
         else if max_mask < min_mask then Err FeatureUnavailable
         else
           res_bind (ok_or (checked_shl_usize 1 (unat min_mask)) AddressOverflow) (\<lambda>min_pages.
           if start_page AND (min_pages - 1) \<noteq> 0 \<or> page_count AND (min_pages - 1) \<noteq> 0
           then Err ErrInvalidRange
           else Ok plan))"

definition next_address_mask :: "range_plan \<Rightarrow> (u8, 'e) res" where
  "next_address_mask p =
     res_bind (floor_log2_usize (rp_remaining_pages p)) (\<lambda>remaining_mask.
     let alignment_mask =
       (if rp_next_page p = 0 then 63 else word_of_nat (min (trailing_zeros64 (rp_next_page p)) 63))
     in Ok (max (min (min remaining_mask alignment_mask) (rp_max_mask p)) (rp_min_mask p)))"

definition next_block :: "range_plan \<Rightarrow> (range_block option \<times> range_plan, 'e) res" where
  "next_block p =
     (if rp_remaining_pages p = 0 then Ok (None, p)
      else
        res_bind (next_address_mask p) (\<lambda>mask.
        res_bind (shl_one_usize mask) (\<lambda>pages.
        res_bind (sub_usize (rp_remaining_pages p) pages) (\<lambda>left.
        Ok (Some \<lparr>bk_page = rp_next_page p, bk_mask = mask\<rparr>,
            p\<lparr>rp_next_page := saturating_add_usize (rp_next_page p) pages,
              rp_remaining_pages := left\<rparr>)))))"

text \<open>Every block takes at least one page, so a loop over the blocks ends.\<close>

lemma next_block_decreases:
  "next_block p = Ok (Some b, p') \<Longrightarrow> rp_remaining_pages p' < rp_remaining_pages p"
  by (auto simp: next_block_def res_bind_Ok_iff shl_one_usize_def sub_usize_def split: if_splits)

function descriptor_count_from :: "range_plan \<Rightarrow> usize \<Rightarrow> (usize, 'e) res" where
  "descriptor_count_from p count =
     (case next_block p of
        Ok (Some b, p') \<Rightarrow> descriptor_count_from p' (saturating_add_usize count 1)
      | Ok (None, p') \<Rightarrow> Ok count
      | Err e \<Rightarrow> Err e
      | Panic \<Rightarrow> Panic)"
  by pat_completeness auto
termination
  by (relation "measure (\<lambda>(p, _). rp_remaining_pages p)") (auto dest: next_block_decreases)

declare descriptor_count_from.simps [simp del]

definition descriptor_count :: "range_plan \<Rightarrow> (usize, 'e) res" where
  "descriptor_count p = descriptor_count_from p 0"

section \<open>The blocks of a plan\<close>

text \<open>The list of the blocks a loop over the plan sees, the specification of both loops.\<close>

function plan_blocks :: "range_plan \<Rightarrow> (range_block list, 'e) res" where
  "plan_blocks p =
     (case next_block p of
        Ok (Some b, p') \<Rightarrow> res_map (Cons b) (plan_blocks p')
      | Ok (None, p') \<Rightarrow> Ok []
      | Err e \<Rightarrow> Err e
      | Panic \<Rightarrow> Panic)"
  by pat_completeness auto
termination
  by (relation "measure rp_remaining_pages") (auto dest: next_block_decreases)

declare plan_blocks.simps [simp del]

definition plan_ok :: "range_plan \<Rightarrow> bool" where
  "plan_ok p \<longleftrightarrow>
     rp_min_mask p \<le> rp_max_mask p \<and> unat (rp_max_mask p) < 64 \<and>
     2 ^ unat (rp_min_mask p) dvd rp_next_page p \<and> 2 ^ unat (rp_min_mask p) dvd rp_remaining_pages p \<and>
     rp_next_page p + rp_remaining_pages p < usize_bound"

definition block_pages :: "range_block \<Rightarrow> nat set" where
  "block_pages b = {bk_page b ..< bk_page b + 2 ^ unat (bk_mask b)}"

definition block_ok :: "u8 \<Rightarrow> u8 \<Rightarrow> range_block \<Rightarrow> bool" where
  "block_ok mn mx b \<longleftrightarrow> mn \<le> bk_mask b \<and> bk_mask b \<le> mx \<and> 2 ^ unat (bk_mask b) dvd bk_page b"

text \<open>The blocks follow each other from page \<open>a\<close> to page \<open>e\<close>.\<close>

fun tiles :: "nat \<Rightarrow> range_block list \<Rightarrow> nat \<Rightarrow> bool" where
  "tiles a [] e \<longleftrightarrow> a = e"
| "tiles a (b # bs) e \<longleftrightarrow> bk_page b = a \<and> tiles (a + 2 ^ unat (bk_mask b)) bs e"

lemma tiles_le: "tiles a bs e \<Longrightarrow> a \<le> e"
  by (induction bs arbitrary: a) (auto intro: add_leD1)

lemma tiles_union: "tiles a bs e \<Longrightarrow> (\<Union>b \<in> set bs. block_pages b) = {a ..< e}"
proof (induction bs arbitrary: a)
  case (Cons b bs)
  have t: "bk_page b = a" "tiles (a + 2 ^ unat (bk_mask b)) bs e" using Cons.prems by auto
  have "block_pages b \<union> (\<Union>b \<in> set bs. block_pages b) = {a ..< a + 2 ^ unat (bk_mask b)} \<union> {a + 2 ^ unat (bk_mask b) ..< e}"
    unfolding Cons.IH [OF t(2)] by (simp only: block_pages_def t(1))
  also have "\<dots> = {a ..< e}" using tiles_le [OF t(2)] by (intro ivl_disj_un) simp_all
  finally show ?case by simp
qed simp

lemma tiles_disjoint:
  assumes "tiles a bs e" and "i < j" and "j < length bs"
  shows "block_pages (bs ! i) \<inter> block_pages (bs ! j) = {}"
  using assms
proof (induction bs arbitrary: a i j)
  case (Cons b bs)
  show ?case
  proof (cases i)
    case 0
    have "bs ! (j - 1) \<in> set bs" using Cons.prems by simp
    then have "block_pages (bs ! (j - 1)) \<subseteq> {a + 2 ^ unat (bk_mask b) ..< e}"
      using tiles_union [of "a + 2 ^ unat (bk_mask b)" bs e] Cons.prems(1) by auto
    then show ?thesis using 0 Cons.prems by (cases j) (auto simp: block_pages_def)
  next
    case (Suc k)
    then show ?thesis
      using Cons.IH [of "a + 2 ^ unat (bk_mask b)" k "j - 1"] Cons.prems by (cases j) auto
  qed
qed simp

lemma unat_min: "unat (min a b) = min (unat a) (unat (b :: 'a::len word))"
  by (simp add: min_def word_le_nat_alt)

lemma unat_max: "unat (max a b) = max (unat a) (unat (b :: 'a::len word))"
  by (simp add: max_def word_le_nat_alt)

lemma floor_log2_usize_eq:
  assumes "0 < v" and "v < usize_bound"
  shows "\<exists>k. floor_log2_usize v = Ok k \<and> 2 ^ unat k \<le> v \<and> v < 2 ^ Suc (unat k)"
proof -
  have l: "bit_len v \<le> 64" "0 < bit_len v"
    using assms bit_len_le [of v 64] bit_len_pos by (simp_all add: usize_bound_def)
  then have "63 - (64 - bit_len v) = bit_len v - 1" "64 - bit_len v \<le> 63" by simp_all
  then have f: "floor_log2_usize v = Ok (word_of_nat (bit_len v - 1))"
    by (simp add: floor_log2_usize_def sub_usize_def leading_zeros64_def)
  obtain j where j: "bit_len v = Suc j" using l(2) by (cases "bit_len v") auto
  then have u: "unat (word_of_nat j :: u8) = j"
    using l(1) by (simp add: unat_of_nat)
  show ?thesis using f u bit_len_bounds [OF assms(1)] j by auto
qed

lemma alignment_mask_bound:
  assumes "m \<le> unat (if a = 0 then 63 else word_of_nat (min (trailing_zeros64 a) 63) :: u8)"
  shows "2 ^ m dvd a"
proof (cases "a = 0")
  case False
  have "unat (word_of_nat (min (trailing_zeros64 a) 63) :: u8) = min (trailing_zeros64 a) 63"
    by (simp add: unat_of_nat)
  then have "m \<le> ctz a" using assms False by (simp add: trailing_zeros64_def)
  then show ?thesis using power_dvd_iff_le_ctz [of a m] False by simp
qed simp

lemma alignment_mask_reach:
  assumes "2 ^ m dvd a" and "m < 64"
  shows "m \<le> unat (if a = 0 then 63 else word_of_nat (min (trailing_zeros64 a) 63) :: u8)"
proof (cases "a = 0")
  case False
  have "unat (word_of_nat (min (trailing_zeros64 a) 63) :: u8) = min (trailing_zeros64 a) 63"
    by (simp add: unat_of_nat)
  moreover have "m \<le> ctz a" using power_dvd_iff_le_ctz [of a m] False assms(1) by simp
  ultimately show ?thesis using assms(2) False by (simp add: trailing_zeros64_def)
qed (use assms in simp)

lemma next_block_ok:
  assumes "plan_ok p" and "0 < rp_remaining_pages p"
  obtains b where "(next_block p :: (range_block option \<times> range_plan, 'e) res) = Ok (Some b, p\<lparr>rp_next_page := rp_next_page p + 2 ^ unat (bk_mask b),
      rp_remaining_pages := rp_remaining_pages p - 2 ^ unat (bk_mask b)\<rparr>)"
    and "bk_page b = rp_next_page p" and "block_ok (rp_min_mask p) (rp_max_mask p) b"
    and "2 ^ unat (bk_mask b) \<le> rp_remaining_pages p"
    and "plan_ok (p\<lparr>rp_next_page := rp_next_page p + 2 ^ unat (bk_mask b),
      rp_remaining_pages := rp_remaining_pages p - 2 ^ unat (bk_mask b)\<rparr>)"
proof -
  let ?a = "rp_next_page p" and ?r = "rp_remaining_pages p" and ?mn = "rp_min_mask p" and ?mx = "rp_max_mask p"
  let ?al = "if ?a = 0 then 63 else word_of_nat (min (trailing_zeros64 ?a) 63) :: u8"
  have p: "unat ?mn \<le> unat ?mx" "unat ?mx < 64" "2 ^ unat ?mn dvd ?a" "2 ^ unat ?mn dvd ?r" "?a + ?r < usize_bound"
    using assms(1) by (auto simp: plan_ok_def word_le_nat_alt)
  obtain k where k: "(floor_log2_usize ?r :: (u8, 'e) res) = Ok k" "2 ^ unat k \<le> ?r" "?r < 2 ^ Suc (unat k)"
    using floor_log2_usize_eq [of ?r] assms(2) p(5) by auto
  define m where "m = max (min (min k ?al) ?mx) ?mn"
  have "2 ^ unat ?mn \<le> ?r" using p(4) assms(2) by (rule dvd_imp_le)
  then have "(2 :: nat) ^ unat ?mn < 2 ^ Suc (unat k)" using k(3) by linarith
  then have "unat ?mn < Suc (unat k)" by (rule power_less_imp_less_exp [rotated]) simp
  then have "unat ?mn \<le> unat k" by simp
  moreover have "unat ?mn \<le> unat ?al" using alignment_mask_reach [OF p(3)] p(1,2) by simp
  ultimately have um: "unat m = min (min (unat k) (unat ?al)) (unat ?mx)"
    using p(1) unfolding m_def unat_max unat_min by simp
  have "2 ^ unat m dvd ?a" using um by (intro alignment_mask_bound) simp
  have "(2 :: nat) ^ unat m \<le> 2 ^ unat k" using um by (intro power_increasing) simp_all
  then have fits: "2 ^ unat m \<le> ?r" using k(2) by linarith
  have mn: "unat ?mn \<le> unat m" using um \<open>unat ?mn \<le> unat k\<close> \<open>unat ?mn \<le> unat ?al\<close> p(1) by simp
  let ?b = "\<lparr>bk_page = ?a, bk_mask = m\<rparr>"
  have mask: "(next_address_mask p :: (u8, 'e) res) = Ok m"
    using k(1) by (simp add: next_address_mask_def m_def Let_def)
  have ok: "block_ok ?mn ?mx ?b"
    using um mn \<open>2 ^ unat m dvd ?a\<close> by (simp add: block_ok_def word_le_nat_alt)
  have "2 ^ unat ?mn dvd (2 ^ unat m :: nat)" using mn by (rule le_imp_power_dvd)
  then have inv': "plan_ok (p\<lparr>rp_next_page := ?a + 2 ^ unat m, rp_remaining_pages := ?r - 2 ^ unat m\<rparr>)"
    using assms(1) fits by (auto simp: plan_ok_def intro: dvd_diff_nat)
  have "(next_block p :: (range_block option \<times> range_plan, 'e) res) = Ok (Some ?b, p\<lparr>rp_next_page := ?a + 2 ^ unat m, rp_remaining_pages := ?r - 2 ^ unat m\<rparr>)"
    using assms(2) mask um p(2,5) fits
    by (simp add: next_block_def shl_one_usize_def sub_usize_def saturating_add_usize_def)
  then show ?thesis using that [of ?b] ok inv' fits by simp
qed

section \<open>What a plan invalidates\<close>

lemma plan_blocks_ok:
  assumes "plan_ok p"
  shows "\<exists>bs. (plan_blocks p :: (range_block list, 'e) res) = Ok bs \<and>
    tiles (rp_next_page p) bs (rp_next_page p + rp_remaining_pages p) \<and>
    (\<forall>b \<in> set bs. block_ok (rp_min_mask p) (rp_max_mask p) b)"
  using assms
proof (induction "rp_remaining_pages p" arbitrary: p rule: less_induct)
  case less
  show ?case
  proof (cases "rp_remaining_pages p = 0")
    case True
    then show ?thesis by (simp add: plan_blocks.simps [of p] next_block_def)
  next
    case False
    then obtain b where b: "(next_block p :: (range_block option \<times> range_plan, 'e) res) =
          Ok (Some b, p\<lparr>rp_next_page := rp_next_page p + 2 ^ unat (bk_mask b),
          rp_remaining_pages := rp_remaining_pages p - 2 ^ unat (bk_mask b)\<rparr>)"
        "bk_page b = rp_next_page p" "block_ok (rp_min_mask p) (rp_max_mask p) b"
        "2 ^ unat (bk_mask b) \<le> rp_remaining_pages p"
        "plan_ok (p\<lparr>rp_next_page := rp_next_page p + 2 ^ unat (bk_mask b),
          rp_remaining_pages := rp_remaining_pages p - 2 ^ unat (bk_mask b)\<rparr>)"
      using next_block_ok [OF less.prems, where 'e = 'e] by auto
    then show ?thesis
      using less.hyps [OF _ b(5)] False by (auto simp: plan_blocks.simps [of p])
  qed
qed

lemma descriptor_count_from_eq:
  "count < usize_bound \<Longrightarrow>
     descriptor_count_from p count = res_map (\<lambda>bs. min (count + length bs) (usize_bound - 1)) (plan_blocks p)"
proof (induction "rp_remaining_pages p" arbitrary: p count rule: less_induct)
  case less
  show ?case
  proof (cases "next_block p :: (range_block option \<times> range_plan, 'a) res")
    case (Ok r)
    show ?thesis
    proof (cases "fst r")
      case None
      then show ?thesis
        using Ok less.prems by (cases r) (simp add: descriptor_count_from.simps [of p] plan_blocks.simps [of p])
    next
      case (Some b)
      have "saturating_add_usize count 1 < usize_bound" by (simp add: saturating_add_usize_def usize_bound_def)
      moreover have "rp_remaining_pages (snd r) < rp_remaining_pages p"
        using next_block_decreases Ok Some by (metis prod.collapse)
      ultimately have "descriptor_count_from (snd r) (saturating_add_usize count 1) = res_map
          (\<lambda>bs. min (saturating_add_usize count 1 + length bs) (usize_bound - 1)) (plan_blocks (snd r) :: (_, 'a) res)"
        using less.hyps by blast
      then show ?thesis
        using Ok Some by (cases r; cases "plan_blocks (snd r) :: (_, 'a) res")
          (auto simp: descriptor_count_from.simps [of p] plan_blocks.simps [of p] saturating_add_usize_def)
    qed
  qed (simp_all add: descriptor_count_from.simps [of p] plan_blocks.simps [of p])
qed

lemma range_plan_new_ok:
  assumes "range_plan_new a n mn mx = Ok p" and "a + n < usize_bound" and "unat mx < 64" and "0 < n"
  shows "plan_ok p \<and> rp_next_page p = a \<and> rp_remaining_pages p = n \<and> rp_min_mask p = mn \<and> rp_max_mask p = mx"
proof -
  have mn: "mn \<le> mx" "unat mn < 64"
    using assms by (auto simp: range_plan_new_def Let_def not_less word_le_nat_alt split: if_splits)
  have "(2 :: nat) ^ unat mn < usize_bound"
    unfolding usize_bound_def using mn(2) by (intro power_strict_increasing) simp_all
  then have "checked_shl_usize 1 (unat mn) = Some (2 ^ unat mn)"
    using mn(2) by (simp add: checked_shl_usize_def)
  then have "a mod 2 ^ unat mn = 0 \<and> n mod 2 ^ unat mn = 0 \<and>
      p = \<lparr>rp_next_page = a, rp_remaining_pages = n, rp_min_mask = mn, rp_max_mask = mx\<rparr>"
    using assms(1,4) mn(1) and_mask_nat [of a "unat mn"] and_mask_nat [of n "unat mn"]
    by (simp add: range_plan_new_def Let_def split: if_splits)
  then show ?thesis using assms(2,3) mn by (auto simp: plan_ok_def)
qed

text \<open>C12. A plan for the pages \<open>a\<close> to \<open>a + n - 1\<close> invalidates exactly these pages: the loop over its
  blocks ends and never traps, the blocks follow each other from the first page to the last without
  gap or overlap, each is naturally aligned to its size and its address mask lies between the
  granule of the mapping and the largest mask of the hardware; and the descriptor count announced
  before the loop is the number of blocks.\<close>

theorem range_plan_exact:
  assumes "range_plan_new a n mn mx = Ok p" and "a + n < usize_bound" and "unat mx < 64" and "0 < n"
  shows "\<exists>bs. (plan_blocks p :: range_block list result) = Ok bs \<and>
    (\<Union>b \<in> set bs. block_pages b) = {a ..< a + n} \<and>
    (\<forall>j < length bs. \<forall>i < j. block_pages (bs ! i) \<inter> block_pages (bs ! j) = {}) \<and>
    (\<forall>b \<in> set bs. mn \<le> bk_mask b \<and> bk_mask b \<le> mx \<and> 2 ^ unat (bk_mask b) dvd bk_page b) \<and>
    (descriptor_count p :: usize result) = Ok (min (length bs) (usize_bound - 1))"
proof -
  have p: "plan_ok p" "rp_next_page p = a" "rp_remaining_pages p = n" "rp_min_mask p = mn" "rp_max_mask p = mx"
    using range_plan_new_ok [OF assms] by auto
  obtain bs where bs: "(plan_blocks p :: range_block list result) = Ok bs" "tiles a bs (a + n)"
      "\<forall>b \<in> set bs. block_ok mn mx b"
    using plan_blocks_ok [OF p(1), where 'e = error] p by auto
  have "(descriptor_count p :: usize result) = Ok (min (length bs) (usize_bound - 1))"
    using bs(1) descriptor_count_from_eq [of 0 p, where 'a = error]
    by (simp add: descriptor_count_def usize_bound_def)
  then show ?thesis
    using bs tiles_union [OF bs(2)] tiles_disjoint [OF bs(2)] by (auto simp: block_ok_def)
qed

lemma range_plan_exact_witness:
  "\<exists>p bs. range_plan_new 512 1536 9 18 = Ok p \<and> (plan_blocks p :: range_block list result) = Ok bs \<and>
     (\<Union>b \<in> set bs. block_pages b) = {512 ..< 2048}"
proof -
  have p: "range_plan_new 512 1536 9 18 =
      Ok \<lparr>rp_next_page = 512, rp_remaining_pages = 1536, rp_min_mask = 9, rp_max_mask = 18\<rparr>"
    using and_mask_nat [of 512 9] and_mask_nat [of 1536 9]
    by (simp add: range_plan_new_def checked_shl_usize_def usize_bound_def)
  from range_plan_exact [OF p] p show ?thesis by (auto simp: usize_bound_def)
qed

end
