(* ===== verification/Vtd_Unit.thy ===== *)
theory Vtd_Unit
  imports Vtd_Registers Range_Plan
begin

text \<open>
  \<open>VtdUnit\<close>, \<open>VtdQueuedInvalidator\<close> and \<open>VtdDomainController\<close> of \<open>intel/ctrl.rs\<close>, with the request
  and outcome types of \<open>src/ctrl.rs\<close>. The register window of the unit never changes and is the
  argument \<open>R\<close>; what changes is the unit's record and the world.
\<close>

section \<open>Requests\<close>

datatype 'c invalidate_request =
    InvGlobal
  | InvAddressSpace
  | InvLeaf u64 page_size
  | InvDevice 'c
  | InvDeviceLeaf 'c u64 page_size

datatype invalidate_scope = ScopeGlobal | ScopeDomain | ScopeLeaf | ScopeDevice | ScopeDeviceLeaf

record invalidate_outcome =
  io_scope :: invalidate_scope
  io_queued :: bool

section \<open>The unit\<close>

record vtd_unit =
  vu_info :: vtd_info
  vu_root_table :: root_table
  vu_context_tables :: "context_table option list"
  vu_queue :: command_queue
  vu_interrupt_remap_table :: "interrupt_remap_table option"

definition vtd_unit_new :: "nat \<Rightarrow> vtd_info \<Rightarrow> root_table \<Rightarrow> vtd_unit" where
  "vtd_unit_new QN info root =
     \<lparr>vu_info = info, vu_root_table = root, vu_context_tables = replicate ROOT_ENTRY_COUNT None,
      vu_queue = cq_new QN, vu_interrupt_remap_table = None\<rparr>"

type_synonym ('a, 'd) unit_op = "('a, error, vtd_unit \<times> 'd world) st"

definition on_regs :: "('a, error, 'd world) st \<Rightarrow> ('a, 'd) unit_op" where
  "on_regs m = (\<lambda>(u, w). case m w of (r, w') \<Rightarrow> (r, (u, w')))"

definition on_unit_queue :: "('a, error, command_queue \<times> 'd world) st \<Rightarrow> ('a, 'd) unit_op" where
  "on_unit_queue m = (\<lambda>(u, w). case m (vu_queue u, w) of (r, (q, w')) \<Rightarrow> (r, (u\<lparr>vu_queue := q\<rparr>, w')))"

definition unit_info :: "(vtd_info, 'd) unit_op" where
  "unit_info = st_gets (\<lambda>(u, w). vu_info u)"

definition install_interrupt_remap_table :: "interrupt_remap_table \<Rightarrow> (unit, 'd) unit_op" where
  "install_interrupt_remap_table t = st_modify (\<lambda>(u, w). (u\<lparr>vu_interrupt_remap_table := Some t\<rparr>, w))"

definition set_context_table :: "u8 \<Rightarrow> context_table \<Rightarrow> (unit, 'd) unit_op" where
  "set_context_table bus t =
     (\<lambda>(u, w). case arr_set (vu_context_tables u) (unat bus) (Some t) of
        Ok ts \<Rightarrow> (Ok (), (u\<lparr>vu_context_tables := ts\<rparr>, w))
      | Err e \<Rightarrow> (Err e, (u, w))
      | Panic \<Rightarrow> (Panic, (u, w)))"

definition install_context_table :: "ext_ops \<Rightarrow> u8 \<Rightarrow> context_table \<Rightarrow> (unit, 'd) unit_op" where
  "install_context_table E bus t =
     st_bind (st_gets (\<lambda>(u, w). vu_root_table u)) (\<lambda>root.
     st_bind (st_lift (root_from_context_table E t)) (\<lambda>e.
     st_then (on_regs (write_root_entry E root bus e)) (
     set_context_table bus t)))"

definition context_table :: "u8 \<Rightarrow> (context_table option, 'd) unit_op" where
  "context_table bus = (\<lambda>(u, w). (arr_get (vu_context_tables u) (unat bus), (u, w)))"

definition init_queue :: "command_queue_backing \<Rightarrow> (unit, 'd) unit_op" where
  "init_queue b = on_unit_queue (\<lambda>(q, w). case cq_init b q of (r, q') \<Rightarrow> (r, (q', w)))"

definition install_queued_invalidation ::
    "ext_ops \<Rightarrow> 'd world mapping \<Rightarrow> command_queue_backing \<Rightarrow> (unit, 'd) unit_op" where
  "install_queued_invalidation E R b =
     st_bind (st_lift (queued_invalidation_table_address E b)) (\<lambda>_.
     st_then (init_queue b) (
     st_then (on_regs (set_queued_invalidation_table E R b)) (
     on_regs (set_queued_invalidation_enabled R True))))"

definition enable_translation :: "ext_ops \<Rightarrow> 'd world mapping \<Rightarrow> (unit, 'd) unit_op" where
  "enable_translation E R =
     st_bind (st_gets (\<lambda>(u, w). vu_root_table u)) (\<lambda>root.
     st_then (on_regs (set_root_table E R root)) (
     st_bind (st_gets (\<lambda>(u, w). cq_is_active (vu_queue u))) (\<lambda>active.
     if \<not> active then st_err ControllerUnavailable
     else
       st_bind (on_regs (global_status R)) (\<lambda>status.
       st_then (if status AND GSTS_QIES = 0 then on_regs (set_queued_invalidation_enabled R True)
                else st_ret ()) (
       on_regs (set_translation_enabled R True))))))"

definition validate_client :: "vtd_info \<Rightarrow> pci_device \<Rightarrow> unit result" where
  "validate_client info client =
     (case ii_segment (vi_base info) of
        None \<Rightarrow> Ok ()
      | Some segment \<Rightarrow> if segment \<noteq> pci_segment client then Err InvalidClient else Ok ())"

definition context_table_for_client :: "pci_device \<Rightarrow> (context_table, 'd) unit_op" where
  "context_table_for_client client =
     st_bind (context_table (pci_bus client)) (\<lambda>t. st_lift (ok_or t ControllerUnavailable))"

section \<open>Invalidation\<close>

definition unit_submit :: "ext_ops \<Rightarrow> 'd world mapping \<Rightarrow> words128 \<Rightarrow> (unit, 'd) unit_op" where
  "unit_submit E R d =
     on_unit_queue (submit_with E R (write_invalidate_queue_tail_shared E R) d)"

definition unit_invalidate_context_device ::
    "ext_ops \<Rightarrow> 'd world mapping \<Rightarrow> pci_device \<Rightarrow> (unit, 'd) unit_op" where
  "unit_invalidate_context_device E R client = unit_submit E R (qi_context_device client)"

definition invalidate_iotlb_domain ::
    "ext_ops \<Rightarrow> 'd world mapping \<Rightarrow> io_domain \<Rightarrow> (unit, 'd) unit_op" where
  "invalidate_iotlb_domain E R domain =
     st_bind unit_info (\<lambda>info. unit_submit E R (qi_iotlb_domain domain (vi_cap info)))"

definition invalidate_iotlb_global :: "ext_ops \<Rightarrow> 'd world mapping \<Rightarrow> (unit, 'd) unit_op" where
  "invalidate_iotlb_global E R =
     st_bind unit_info (\<lambda>info. unit_submit E R (qi_iotlb_global (vi_cap info)))"

text \<open>The recurring fallback: the whole domain is invalidated and its scope reported.\<close>

definition domain_fallback ::
    "ext_ops \<Rightarrow> 'd world mapping \<Rightarrow> io_domain \<Rightarrow> (invalidate_scope, 'd) unit_op" where
  "domain_fallback E R domain = st_then (invalidate_iotlb_domain E R domain) (st_ret ScopeDomain)"

definition invalidate_iotlb_page ::
    "ext_ops \<Rightarrow> 'd world mapping \<Rightarrow> io_domain \<Rightarrow> u64 \<Rightarrow> page_size \<Rightarrow> (invalidate_scope, 'd) unit_op" where
  "invalidate_iotlb_page E R domain iova granule =
     st_bind unit_info (\<lambda>info.
     case qi_iotlb_page domain iova granule (vi_cap info) of
       Ok d \<Rightarrow> st_then (unit_submit E R d) (st_ret ScopeLeaf)
     | Err e \<Rightarrow> if e = FeatureUnavailable then domain_fallback E R domain else st_err e
     | Panic \<Rightarrow> st_lift Panic)"

definition IOTLB_RANGE_DOMAIN_INVALIDATION_THRESHOLD :: usize where
  "IOTLB_RANGE_DOMAIN_INVALIDATION_THRESHOLD = 32"

definition block_descriptor :: "io_domain \<Rightarrow> vtd_cap \<Rightarrow> range_block \<Rightarrow> words128 result" where
  "block_descriptor domain cap b =
     res_bind (ok_or (checked_shl_usize (bk_page b) 12) AddressOverflow) (\<lambda>addr.
     qi_iotlb_page_with_address_mask domain (word_of_nat addr) (bk_mask b) cap)"

function invalidate_blocks ::
    "ext_ops \<Rightarrow> 'd world mapping \<Rightarrow> io_domain \<Rightarrow> vtd_cap \<Rightarrow> range_plan \<Rightarrow> (unit, 'd) unit_op" where
  "invalidate_blocks E R domain cap p =
     (case next_block p of
        Ok (Some b, p') \<Rightarrow>
          st_bind (st_lift (block_descriptor domain cap b)) (\<lambda>d.
          st_then (unit_submit E R d) (invalidate_blocks E R domain cap p'))
      | Ok (None, p') \<Rightarrow> st_ret ()
      | Err e \<Rightarrow> st_err e
      | Panic \<Rightarrow> st_lift Panic)"
  by pat_completeness auto
termination
  by (relation "measure (\<lambda>(E, R, domain, cap, p). rp_remaining_pages p)") (auto dest: next_block_decreases)

declare invalidate_blocks.simps [simp del]

definition max_mask_of :: "vtd_cap \<Rightarrow> u8" where
  "max_mask_of cap = min (min (cap_max_address_mask_value cap) (ucast IVA_AM_MASK)) 63"

definition invalidate_iotlb_range ::
    "ext_ops \<Rightarrow> 'd world mapping \<Rightarrow> io_domain \<Rightarrow> u64 \<Rightarrow> page_size \<Rightarrow> usize \<Rightarrow>
     (invalidate_scope, 'd) unit_op" where
  "invalidate_iotlb_range E R domain start sz count_pages =
     (if count_pages = 0 then st_ret ScopeLeaf
      else
        st_bind unit_info (\<lambda>info.
        let cap = vi_cap info
        in case iotlb_granule_address_mask sz of
             None \<Rightarrow> domain_fallback E R domain
           | Some min_mask \<Rightarrow>
               let max_mask = max_mask_of cap
               in st_bind (st_lift (ok_or (checked_shl_usize 1 (unat min_mask)) AddressOverflow)) (\<lambda>page_span.
                  let start_page = drop_bit 12 (unat (start AND PAGE_ADDR_MASK))
                  in if \<not> cap_page_selective_invalidation cap \<or> max_mask < min_mask \<or>
                        start_page AND (page_span - 1) \<noteq> 0
                     then domain_fallback E R domain
                     else
                       st_bind (st_lift (ok_or (checked_mul_usize count_pages page_span) AddressOverflow)) (\<lambda>total.
                       st_bind (st_lift (range_plan_new start_page total min_mask max_mask)) (\<lambda>plan.
                       st_bind (st_lift (descriptor_count plan)) (\<lambda>n.
                       if IOTLB_RANGE_DOMAIN_INVALIDATION_THRESHOLD < n then domain_fallback E R domain
                       else st_then (invalidate_blocks E R domain cap plan) (st_ret ScopeLeaf)))))))"

section \<open>Attaching and detaching a requester\<close>

definition bind_context ::
    "ext_ops \<Rightarrow> 'd world mapping \<Rightarrow> vtd_domain \<Rightarrow> (pci_device, vtd_domain) binding \<Rightarrow> (unit, 'd) unit_op" where
  "bind_context E R active_domain b =
     (if b_selector b \<noteq> Default then st_err FeatureUnavailable
      else
        st_bind unit_info (\<lambda>info.
        st_then (st_lift (validate_client info (b_client b))) (
        if (case b_target b of ToDomain d \<Rightarrow> d \<noteq> active_domain | _ \<Rightarrow> False)
        then st_err InvalidAddressSpace
        else
          st_bind (context_table_for_client (b_client b)) (\<lambda>t.
          st_bind (st_lift (context_from_binding E b (vi_ecap info))) (\<lambda>e.
          st_then (on_regs (write_context_entry E t (b_client b) e)) (
          st_then (unit_invalidate_context_device E R (b_client b)) (
          invalidate_iotlb_domain E R (vd_id active_domain))))))))"

definition unbind_context ::
    "ext_ops \<Rightarrow> 'd world mapping \<Rightarrow> vtd_domain \<Rightarrow> pci_device \<Rightarrow> binding_selector \<Rightarrow> (unit, 'd) unit_op" where
  "unbind_context E R domain client selector =
     (if selector \<noteq> Default then st_err FeatureUnavailable
      else
        st_bind unit_info (\<lambda>info.
        st_then (st_lift (validate_client info client)) (
        st_bind (context_table_for_client client) (\<lambda>t.
        st_then (on_regs (write_context_entry E t client disabled)) (
        st_then (unit_invalidate_context_device E R client) (
        invalidate_iotlb_domain E R (vd_id domain)))))))"

section \<open>Faults\<close>

definition FSTS_FRI_SHIFT :: nat where "FSTS_FRI_SHIFT = 8"
definition FSTS_FRI_MASK :: u32 where "FSTS_FRI_MASK = 0xff"
definition FRCD_ENTRY_STRIDE :: usize where "FRCD_ENTRY_STRIDE = 16"
definition FRCD_LOW_OFFSET :: usize where "FRCD_LOW_OFFSET = 0"
definition FRCD_HIGH_OFFSET :: usize where "FRCD_HIGH_OFFSET = 8"

text \<open>\<open>let _ = m\<close>: the error is dropped.\<close>

definition st_ignore :: "('a, 'e, 's) st \<Rightarrow> (unit, 'e, 's) st" where
  "st_ignore m s = (case m s of (Panic, s') \<Rightarrow> (Panic, s') | (_, s') \<Rightarrow> (Ok (), s'))"

definition clear_fault_status :: "'d world mapping \<Rightarrow> u32 \<Rightarrow> (unit, 'd) unit_op" where
  "clear_fault_status R status =
     (let bits = status AND (FSTS_PFO OR FSTS_AFO OR FSTS_APF OR FSTS_IQE OR FSTS_ICE OR FSTS_ITE OR FSTS_PRO)
      in if bits \<noteq> 0 then st_ignore (on_regs (write32 R REG_FSTS bits)) else st_ret ())"

definition poll_primary_fault ::
    "'f access_ops \<Rightarrow> 'd world mapping \<Rightarrow> u32 \<Rightarrow> ('f vtd_fault option, 'd) unit_op" where
  "poll_primary_fault A R status =
     st_bind unit_info (\<lambda>info.
     let index = ucast (drop_bit FSTS_FRI_SHIFT status AND FSTS_FRI_MASK) :: u16
     in if cap_fault_record_count (vi_cap info) \<le> index then st_err ControllerUnavailable
        else
          let fro = unat (cap_fault_record_register_offset (vi_cap info))
          in st_bind (st_lift (ok_or (checked_add_usize fro (unat index * FRCD_ENTRY_STRIDE)) AddressOverflow)) (\<lambda>rec.
             st_bind (st_lift (ok_or (checked_add_usize rec FRCD_LOW_OFFSET) AddressOverflow)) (\<lambda>low_at.
             st_bind (on_regs (read64 R low_at)) (\<lambda>low.
             st_bind (st_lift (ok_or (checked_add_usize rec FRCD_HIGH_OFFSET) AddressOverflow)) (\<lambda>high_at.
             st_bind (on_regs (read64 R high_at)) (\<lambda>high.
             if high AND FRCDH_FAULT = 0 then st_err ControllerUnavailable
             else
               let segment = (case ii_segment (vi_base info) of None \<Rightarrow> 0 | Some g \<Rightarrow> g);
                   fault = decode_primary_fault A segment index low high
               in st_then (on_regs (write64 R (rec + FRCD_HIGH_OFFSET) high)) (
                  st_ret (Some fault))))))))"

definition poll_fault :: "'f access_ops \<Rightarrow> 'd world mapping \<Rightarrow> ('f vtd_fault option, 'd) unit_op" where
  "poll_fault A R =
     st_bind (on_regs (fault_status R)) (\<lambda>status.
     if status AND FSTS_PPF \<noteq> 0 then poll_primary_fault A R status
     else
       case decode_fault_status A status of
         Some fault \<Rightarrow> st_then (clear_fault_status R status) (st_ret (Some fault))
       | None \<Rightarrow> st_ret None)"

section \<open>The invalidator and the controller of a domain\<close>

text \<open>
  An invalidator is the identifier of its domain; the unit it points to is the state. The hooks
  called by the page-table code drop every error.
\<close>

definition invalidator_invalidate_domain :: "ext_ops \<Rightarrow> 'd world mapping \<Rightarrow> io_domain \<Rightarrow> (unit, 'd) unit_op" where
  "invalidator_invalidate_domain E R domain = invalidate_iotlb_domain E R domain"

definition invalidator_invalidate_page ::
    "ext_ops \<Rightarrow> 'd world mapping \<Rightarrow> io_domain \<Rightarrow> u64 \<Rightarrow> page_size \<Rightarrow> (invalidate_scope, 'd) unit_op" where
  "invalidator_invalidate_page E R domain iova granule = invalidate_iotlb_page E R domain iova granule"

definition invalidator_invalidate_range ::
    "ext_ops \<Rightarrow> 'd world mapping \<Rightarrow> io_domain \<Rightarrow> u64 \<Rightarrow> page_size \<Rightarrow> usize \<Rightarrow>
     (invalidate_scope, 'd) unit_op" where
  "invalidator_invalidate_range E R domain start sz count_pages =
     invalidate_iotlb_range E R domain start sz count_pages"

definition invalidator_flush_page :: "ext_ops \<Rightarrow> 'd world mapping \<Rightarrow> io_domain \<Rightarrow> u64 \<Rightarrow> (unit, 'd) unit_op" where
  "invalidator_flush_page E R domain iova = st_ignore (invalidator_invalidate_page E R domain iova Size4K)"

definition invalidator_flush_all :: "ext_ops \<Rightarrow> 'd world mapping \<Rightarrow> io_domain \<Rightarrow> (unit, 'd) unit_op" where
  "invalidator_flush_all E R domain = st_ignore (invalidator_invalidate_domain E R domain)"

definition invalidator_flush_range ::
    "ext_ops \<Rightarrow> 'd world mapping \<Rightarrow> io_domain \<Rightarrow> u64 \<Rightarrow> page_size \<Rightarrow> usize \<Rightarrow> (unit, 'd) unit_op" where
  "invalidator_flush_range E R domain start sz count_pages =
     st_ignore (invalidator_invalidate_range E R domain start sz count_pages)"

lemmas invalidator_defs = invalidator_invalidate_domain_def invalidator_invalidate_page_def
  invalidator_invalidate_range_def invalidator_flush_page_def invalidator_flush_all_def invalidator_flush_range_def

definition prefer_full_flush :: "usize \<Rightarrow> bool" where
  "prefer_full_flush pending_count \<longleftrightarrow> 32 < pending_count"

definition controller_invalidate ::
    "ext_ops \<Rightarrow> 'd world mapping \<Rightarrow> vtd_domain \<Rightarrow> pci_device invalidate_request \<Rightarrow>
     (invalidate_outcome, 'd) unit_op" where
  "controller_invalidate E R domain request =
     st_bind
       (case request of
          InvGlobal \<Rightarrow> st_then (invalidate_iotlb_global E R) (st_ret ScopeGlobal)
        | InvAddressSpace \<Rightarrow> st_then (invalidate_iotlb_domain E R (vd_id domain)) (st_ret ScopeDomain)
        | InvLeaf iova granule \<Rightarrow> invalidate_iotlb_page E R (vd_id domain) iova granule
        | InvDevice client \<Rightarrow> st_err FeatureUnavailable
        | InvDeviceLeaf client iova granule \<Rightarrow> st_err FeatureUnavailable)
       (\<lambda>scope. st_ret \<lparr>io_scope = scope, io_queued = True\<rparr>)"

end
