(* ===== verification/Vtd_Trace.thy ===== *)
theory Vtd_Trace
  imports Vtd_Unit
begin

text \<open>
  A unit whose register accesses are recorded. The answers of the device are an arbitrary function
  of the accesses so far, so a statement about the record holds for every deterministic device
  whose registers are mapped; the order of the register writes becomes a property of the record.
\<close>

section \<open>Recorded accesses\<close>

datatype reg_access = R32 usize | R64 usize | W32 usize u32 | W64 usize u64

type_synonym answers = "reg_access list \<Rightarrow> usize \<Rightarrow> u64"

definition record_access :: "reg_access \<Rightarrow> reg_access list world \<Rightarrow> reg_access list world" where
  "record_access a w = w\<lparr>w_dev := w_dev w @ [a]\<rparr>"

definition traced :: "addr_range \<Rightarrow> answers \<Rightarrow> reg_access list world mapping" where
  "traced rng ans =
     \<lparr>mp_paddr = r_start rng, mp_range = rng,
      mp_read32 = (\<lambda>i w. (Ok (ucast (ans (w_dev w) i)), record_access (R32 i) w)),
      mp_write32 = (\<lambda>i v w. (Ok (), record_access (W32 i v) w)),
      mp_read64 = (\<lambda>i w. (Ok (ans (w_dev w) i), record_access (R64 i) w)),
      mp_write64 = (\<lambda>i v w. (Ok (), record_access (W64 i v) w)),
      mp_raw_store64 = (\<lambda>a v w. record_access (W64 (a - r_start rng) v) w)\<rparr>"

fun is_write :: "reg_access \<Rightarrow> bool" where
  "is_write (W32 i v) = True"
| "is_write (W64 i v) = True"
| "is_write (R32 i) = False"
| "is_write (R64 i) = False"

definition reg_writes :: "reg_access list world \<Rightarrow> reg_access list" where
  "reg_writes w = filter is_write (w_dev w)"

lemma record_access_simps [simp]:
  "w_mem (record_access a w) = w_mem w" "w_dev (record_access a w) = w_dev w @ [a]"
  "reg_writes (record_access a w) = reg_writes w @ (if is_write a then [a] else [])"
  by (simp_all add: record_access_def reg_writes_def)

lemma traced_registers_only: "registers_only (traced rng ans)"
  by (simp add: registers_only_def traced_def)

named_theorems traced_simps \<open>register accesses of a recorded unit\<close>

lemma traced_access [traced_simps]:
  "read32 (traced rng ans) i w = (Ok (ucast (ans (w_dev w) i)), record_access (R32 i) w)"
  "write32 (traced rng ans) i v w = (Ok (), record_access (W32 i v) w)"
  "read64 (traced rng ans) i w = (Ok (ans (w_dev w) i), record_access (R64 i) w)"
  "write64 (traced rng ans) i v' w = (Ok (), record_access (W64 i v') w)"
  by (simp_all add: read32_def write32_def read64_def write64_def traced_def st_map_err_def)

lemma traced_status [traced_simps]:
  "global_status (traced rng ans) w = (Ok (ucast (ans (w_dev w) REG_GSTS)), record_access (R32 REG_GSTS) w)"
  "global_command (traced rng ans) c w = (Ok (), record_access (W32 REG_GCMD c) w)"
  "fault_status (traced rng ans) w = (Ok (ucast (ans (w_dev w) REG_FSTS)), record_access (R32 REG_FSTS) w)"
  by (simp_all add: global_status_def global_command_def fault_status_def traced_simps)

section \<open>Waiting writes nothing\<close>

lemma wait_global_status_poll_traced:
  "wait_global_status_poll n (traced rng ans) m e w = (r, w') \<Longrightarrow>
     reg_writes w' = reg_writes w \<and> w_mem w' = w_mem w \<and> (r = Ok () \<or> r = Err ControllerUnavailable)"
proof (induction n arbitrary: w)
  case (Suc n)
  show ?case
  proof (cases "ucast (ans (w_dev w) REG_GSTS) AND m = e AND m")
    case True
    then show ?thesis
      using Suc.prems by (auto simp: wait_global_status_poll.simps [of "Suc n"] st_bind_def traced_simps)
  next
    case False
    then have "wait_global_status_poll n (traced rng ans) m e (record_access (R32 REG_GSTS) w) = (r, w')"
      using Suc.prems by (simp add: wait_global_status_poll.simps [of "Suc n"] st_bind_def traced_simps)
    from Suc.IH [OF this] show ?thesis by simp
  qed
qed (simp add: wait_global_status_poll.simps)

lemma wait_global_status_traced:
  "wait_global_status (traced rng ans) m e w = (r, w') \<Longrightarrow>
     reg_writes w' = reg_writes w \<and> w_mem w' = w_mem w \<and> (r = Ok () \<or> r = Err ControllerUnavailable)"
  unfolding wait_global_status_def by (rule wait_global_status_poll_traced)

definition status_at :: "answers \<Rightarrow> reg_access list \<Rightarrow> u32" where
  "status_at ans h = ucast (ans h REG_GSTS)"

lemma command_then_wait:
  assumes "st_bind (global_status (traced rng ans)) (\<lambda>s.
      st_then (global_command (traced rng ans) (f s)) (wait_global_status (traced rng ans) m e)) w = (r, w')"
  shows "reg_writes w' = reg_writes w @ [W32 REG_GCMD (f (status_at ans (w_dev w)))] \<and>
    w_mem w' = w_mem w \<and> (r = Ok () \<or> r = Err ControllerUnavailable)"
proof -
  have "wait_global_status (traced rng ans) m e
      (record_access (W32 REG_GCMD (f (status_at ans (w_dev w)))) (record_access (R32 REG_GSTS) w)) = (r, w')"
    using assms by (simp add: st_then_def st_bind_def traced_simps status_at_def)
  from wait_global_status_traced [OF this] show ?thesis by simp
qed

lemma set_root_table_traced:
  assumes "set_root_table E (traced rng ans) t w = (r, w')"
  shows "if addr_is_aligned E (r_start (dtb_phys t)) (page_bytes E Size4K)
    then (\<exists>h. reg_writes w' = reg_writes w @ [W64 REG_RTADDR (word_of_nat (r_start (dtb_phys t))),
        W32 REG_GCMD (status_at ans h OR GCMD_SRTP)]) \<and>
      w_mem w' = w_mem w \<and> (r = Ok () \<or> r = Err ControllerUnavailable)
    else r = Err InvalidGranule \<and> w' = w"
proof (cases "addr_is_aligned E (r_start (dtb_phys t)) (page_bytes E Size4K)")
  case True
  let ?w = "record_access (W64 REG_RTADDR (word_of_nat (r_start (dtb_phys t)))) w"
  have "st_bind (global_status (traced rng ans)) (\<lambda>s.
      st_then (global_command (traced rng ans) (s OR GCMD_SRTP))
        (wait_global_status (traced rng ans) GSTS_RTPS GSTS_RTPS)) ?w = (r, w')"
    using assms True by (simp add: set_root_table_def set_root_entry_table_def st_then_def
        st_bind_cases(1) [OF traced_access(4)])
  from command_then_wait [OF this] show ?thesis using True by auto
qed (use assms in \<open>simp add: set_root_table_def set_root_entry_table_def\<close>)

lemma set_enabled_traced:
  "set_translation_enabled (traced rng ans) True w = (r, w') \<Longrightarrow>
     reg_writes w' = reg_writes w @ [W32 REG_GCMD (status_at ans (w_dev w) OR GCMD_TE)] \<and>
     w_mem w' = w_mem w \<and> (r = Ok () \<or> r = Err ControllerUnavailable)"
  "set_queued_invalidation_enabled (traced rng ans) True w = (r, w') \<Longrightarrow>
     reg_writes w' = reg_writes w @ [W32 REG_GCMD (status_at ans (w_dev w) OR GCMD_QIE)] \<and>
     w_mem w' = w_mem w \<and> (r = Ok () \<or> r = Err ControllerUnavailable)"
  using command_then_wait [of rng ans "\<lambda>s. s OR GCMD_TE" GSTS_TES GSTS_TES w r w']
    command_then_wait [of rng ans "\<lambda>s. s OR GCMD_QIE" GSTS_QIES GSTS_QIES w r w']
  by (simp_all add: set_translation_enabled_def set_queued_invalidation_enabled_def)

section \<open>Enabling translation\<close>

text \<open>The register writes of a complete run, for the three or four status values read.\<close>

definition enable_writes :: "root_table \<Rightarrow> u32 \<Rightarrow> bool \<Rightarrow> u32 \<Rightarrow> u32 \<Rightarrow> reg_access list" where
  "enable_writes t s1 qi s2 s3 =
     [W64 REG_RTADDR (word_of_nat (r_start (dtb_phys t))), W32 REG_GCMD (s1 OR GCMD_SRTP)] @
     (if qi then [W32 REG_GCMD (s2 OR GCMD_QIE)] else []) @ [W32 REG_GCMD (s3 OR GCMD_TE)]"

lemma on_regs_eq: "m w = (r, w') \<Longrightarrow> on_regs m (u, w) = (r, (u, w'))"
  by (simp add: on_regs_def)


definition wit_window :: addr_range where
  "wit_window = \<lparr>r_start = 65536, r_end = 69632\<rparr>"

definition wit_unit :: vtd_unit where
  "wit_unit = vtd_unit_new 256 (vtd_info_from_registers None wit_window 0 None 0 0 False)
     \<lparr>dtb_phys = \<lparr>r_start = 4096, r_end = 8192\<rparr>, dtb_virt = \<lparr>r_start = 131072, r_end = 135168\<rparr>,
      dtb_entry_count = 256\<rparr>"

definition wit_world :: "reg_access list world" where
  "wit_world = \<lparr>w_mem = (\<lambda>_. 0), w_dev = []\<rparr>"


section \<open>The fault event registers\<close>

text \<open>A register file: a register answers the value last written to it.\<close>

fun last_value :: "reg_access list \<Rightarrow> usize \<Rightarrow> u64" where
  "last_value [] i = 0"
| "last_value (a # as) i =
     (case a of W32 j v \<Rightarrow> if i = j then ucast v else last_value as i
      | W64 j v \<Rightarrow> if i = j then v else last_value as i
      | _ \<Rightarrow> last_value as i)"

definition register_file :: answers where
  "register_file h i = last_value (rev h) i"

lemma ucast_ucast_32 [simp]: "(ucast (ucast (v :: u32) :: u64) :: u32) = v"
  by (rule bit_word_eqI) (auto simp: bit_simps)

lemma halves_64: "ucast (ucast (a :: u64) :: u32) OR push_bit 32 (ucast (ucast (drop_bit 32 a) :: u32)) = a"
  by (rule bit_word_eqI) (auto simp: bit_simps)

text \<open>C39. The fault event configuration can be read back: on registers that keep what is written to
  them, reading the route after configuring it yields the configured route, for every 64-bit
  message address and 32-bit data and for a disabled route.\<close>

theorem fault_event_roundtrip:
  "fst (configure_fault_event (traced rng register_file) route w) = Ok () \<and>
   fst (fault_event_route (traced rng register_file)
     (snd (configure_fault_event (traced rng register_file) route w))) = Ok route"
proof (cases route)
  case RouteDisabled
  then show ?thesis
    by (simp add: configure_fault_event_def fault_event_route_def st_bind_def traced_simps register_file_def FECTL_INTERRUPT_MASK_def)
next
  case (RouteMsi m)
  have regs: "REG_FEDATA \<noteq> REG_FEADDR" "REG_FEDATA \<noteq> REG_FEUADDR" "REG_FEDATA \<noteq> REG_FECTL"
    "REG_FEADDR \<noteq> REG_FEUADDR" "REG_FEADDR \<noteq> REG_FECTL" "REG_FEUADDR \<noteq> REG_FECTL"
    by (simp_all add: REG_FEDATA_def REG_FEADDR_def REG_FEUADDR_def REG_FECTL_def)
  show ?thesis
    using RouteMsi
    by (simp add: configure_fault_event_def fault_event_route_def fault_event_message_def st_bind_def
        st_then_def st_map_def traced_simps register_file_def regs regs [symmetric] halves_64)
qed

section \<open>Polling for faults\<close>

lemma fault_bits_mask:
  "FSTS_PFO OR FSTS_AFO OR FSTS_APF OR FSTS_IQE OR FSTS_ICE OR FSTS_ITE OR FSTS_PRO = 0xfd"
  by (simp add: FSTS_PFO_def FSTS_AFO_def FSTS_APF_def FSTS_IQE_def FSTS_ICE_def FSTS_ITE_def FSTS_PRO_def)

lemma decode_fault_status_None_iff:
  "decode_fault_status A status = None \<longleftrightarrow> status AND 0xfd = 0"
proof -
  have "status AND 0xfd = 0 \<longleftrightarrow> status AND FSTS_PFO = 0 \<and> status AND FSTS_AFO = 0 \<and> status AND FSTS_APF = 0 \<and>
      status AND FSTS_IQE = 0 \<and> status AND FSTS_ICE = 0 \<and> status AND FSTS_ITE = 0 \<and> status AND FSTS_PRO = 0"
    unfolding fault_bits_mask [symmetric] bit.conj_disj_distrib or_eq_0_iff by blast
  then show ?thesis by (auto simp: decode_fault_status_def fault_status_reason_def)
qed

lemma fault_record_index:
  fixes status :: u32
  shows "unat (ucast (take_bit 8 (drop_bit 8 status)) :: u16) = unat (take_bit 8 (drop_bit 8 status))"
    and "(ucast (drop_bit FSTS_FRI_SHIFT status AND FSTS_FRI_MASK) :: u16) = ucast (take_bit 8 (drop_bit 8 status))"
    and "unat (take_bit 8 (drop_bit 8 status)) < 256"
proof -
  let ?t = "take_bit 8 (drop_bit 8 status)"
  have m: "drop_bit FSTS_FRI_SHIFT status AND FSTS_FRI_MASK = ?t"
    by (simp add: FSTS_FRI_SHIFT_def FSTS_FRI_MASK_def and_mask_numerals)
  have "?t < 2 ^ 8" by (rule less_power_bitI) (auto simp: bit_take_bit_iff)
  then show lt: "unat ?t < 256" by (simp add: word_less_nat_alt)
  then show "unat (ucast ?t :: u16) = unat ?t"
    unfolding unat_ucast_mod by simp
  show "(ucast (drop_bit FSTS_FRI_SHIFT status AND FSTS_FRI_MASK) :: u16) = ucast ?t"
    unfolding m by (rule refl)
qed

lemma fault_record_offset_bound: "unat (cap_fault_record_register_offset c) < 2 ^ 14"
proof -
  have "drop_bit CAP_FRO_SHIFT c AND CAP_FRO_MASK < 2 ^ 10"
    by (rule less_power_bitI) (simp_all add: CAP_FRO_MASK_def and_mask_numerals bit_take_bit_iff)
  then have "unat (drop_bit CAP_FRO_SHIFT c AND CAP_FRO_MASK) < 1024" by (simp add: word_less_nat_alt)
  then show ?thesis
    unfolding cap_fault_record_register_offset_def by (simp add: unat_word_ariths)
qed

text \<open>C38. Polling reads the fault status once and acts on it. With no bit set it reports nothing; with
  a status fault it reports it and writes back exactly the status bits 0 and 2 to 7 that were set;
  with a primary fault it reads the record the status names, which is refused unless its index is
  below the unit's record count, so every access stays inside the record file, and acknowledges
  the record, and only that, by writing back its high word, provided the record is marked valid.
  No other register is written and memory does not change.\<close>

theorem poll_fault_accesses:
  assumes "poll_fault A (traced rng ans) (u, w) = (r, (u', w'))"
  shows "(let status = ucast (ans (w_dev w) REG_FSTS) :: u32; i = unat (take_bit 8 (drop_bit 8 status));
         at = unat (cap_fault_record_register_offset (vi_cap (vu_info u))) + 16 * i;
         h = w_dev w @ [R32 REG_FSTS]; low = ans h at; high = ans (h @ [R64 at]) (at + 8);
         bits = status AND 0xfd
     in u' = u \<and> w_mem w' = w_mem w \<and>
       (if bit status 1 then
          if unat (cap_fault_record_count (vi_cap (vu_info u))) \<le> i then r = Err ControllerUnavailable \<and> w_dev w' = h
          else if \<not> bit high 63 then r = Err ControllerUnavailable \<and> w_dev w' = h @ [R64 at, R64 (at + 8)]
          else r = Ok (Some (decode_primary_fault A
              (case ii_segment (vi_base (vu_info u)) of None \<Rightarrow> 0 | Some g \<Rightarrow> g) (ucast (take_bit 8 (drop_bit 8 status))) low high)) \<and>
            w_dev w' = h @ [R64 at, R64 (at + 8), W64 (at + 8) high]
        else if bits = 0 then r = Ok None \<and> w_dev w' = h
        else (\<exists>f. decode_fault_status A status = Some f \<and> r = Ok (Some f)) \<and>
          w_dev w' = h @ [W32 REG_FSTS bits]))"
proof -
  let ?s = "ucast (ans (w_dev w) REG_FSTS) :: u32"
  let ?i = "unat (take_bit 8 (drop_bit 8 ?s))"
  let ?fro = "unat (cap_fault_record_register_offset (vi_cap (vu_info u)))"
  have b: "?fro + ?i * 16 + 8 < usize_bound"
    using fault_record_offset_bound [of "vi_cap (vu_info u)"] fault_record_index(3) [of ?s]
    by (simp add: usize_bound_def)
  have ppf: "?s AND FSTS_PPF = 0 \<longleftrightarrow> \<not> bit ?s 1" and fault: "\<And>h. h AND FRCDH_FAULT = 0 \<longleftrightarrow> \<not> bit h 63"
    by (rule fault_const_bits)+
  have le: "cap_fault_record_count c \<le> ucast (take_bit 8 (drop_bit 8 ?s)) \<longleftrightarrow>
      unat (cap_fault_record_count c) \<le> ?i" for c
    by (simp add: word_le_nat_alt fault_record_index(1))
  show ?thesis
  proof (cases "bit ?s 1")
    case True
    let ?at = "?fro + 16 * ?i" and ?h = "w_dev w @ [R32 REG_FSTS]"
    let ?high = "ans (?h @ [R64 ?at]) (?at + 8)"
    let ?w1 = "record_access (R32 REG_FSTS) w"
    have run: "poll_primary_fault A (traced rng ans) ?s (u, ?w1) = (r, (u', w'))"
      using assms True by (simp add: poll_fault_def st_bind_def on_regs_def traced_simps ppf)
    note simps = poll_primary_fault_def unit_info_def st_bind_def st_then_def on_regs_def traced_simps fault le
      fault_record_index(1,2) Let_def checked_add_usize_def FRCD_ENTRY_STRIDE_def FRCD_LOW_OFFSET_def
      FRCD_HIGH_OFFSET_def
    consider (range) "unat (cap_fault_record_count (vi_cap (vu_info u))) \<le> ?i"
      | (clear) "\<not> unat (cap_fault_record_count (vi_cap (vu_info u))) \<le> ?i" "\<not> bit ?high 63"
      | (set) "\<not> unat (cap_fault_record_count (vi_cap (vu_info u))) \<le> ?i" "bit ?high 63" by blast
    then show ?thesis
    proof cases
      case range
      then show ?thesis using run True by (auto simp add: simps)
    next
      case clear
      then show ?thesis using run True b by (auto simp: simps mult.commute [of _ 16])
    next
      case set
      then show ?thesis
        using run True b by (auto simp: simps mult.commute [of _ 16])
    qed
  next
    case False
    then show ?thesis
      using assms decode_fault_status_None_iff [of A ?s]
      by (cases "decode_fault_status A ?s") (auto simp: poll_fault_def clear_fault_status_def st_bind_def st_then_def
          on_regs_def st_ignore_def traced_simps ppf fault_bits_mask Let_def)
  qed
qed

lemma poll_fault_accesses_witness:
  "\<exists>r u' w'. poll_fault std_access (traced wit_window (\<lambda>_ _. 0)) (wit_unit, wit_world) = (r, (u', w')) \<and>
     r = Ok None \<and> w_dev w' = [R32 REG_FSTS]"
proof -
  obtain r s where "poll_fault std_access (traced wit_window (\<lambda>_ _. 0)) (wit_unit, wit_world) = (r, s)"
    by (rule prod.exhaust)
  moreover obtain u' w' where "s = (u', w')" by (rule prod.exhaust)
  ultimately have run: "poll_fault std_access (traced wit_window (\<lambda>_ _. 0)) (wit_unit, wit_world) = (r, (u', w'))"
    by simp
  show ?thesis using poll_fault_accesses [OF run] run by (simp add: Let_def wit_world_def)
qed

end
