(* ===== verification/Vtd_Attach.thy ===== *)
theory Vtd_Attach
  imports Vtd_Trace
begin

text \<open>
  What attaching and detaching a requester does to the context tables in memory. The command ring
  is the only memory a submission writes, so an entry outside it survives the invalidations that
  follow its update.
\<close>

section \<open>A submission writes its ring only\<close>

definition ring_bytes :: "command_queue_backing \<Rightarrow> usize set" where
  "ring_bytes b = {r_start (cqb_virt b) ..< r_end (cqb_virt b)}"

definition queue_keeps :: "command_queue_backing \<Rightarrow> ('h \<Rightarrow> bool) \<Rightarrow> command_queue \<times> 'h \<Rightarrow> bool" where
  "queue_keeps b I = (\<lambda>(q, h). cq_backing q = Some b \<and> I h)"

lemma keeps_queue_parts [keeps_rules]:
  "keeps (queue_keeps b I) fetch_add_claim" "keeps (queue_keeps b I) (wait_for_capacity t n)"
  "keeps (queue_keeps b I) (wait_for_empty s)" "keeps (queue_keeps b I) (wait_to_publish t)"
  "keeps (queue_keeps b I) (set_slot s v)"
  by (auto simp: keeps_def queue_keeps_def fetch_add_claim_def wait_for_capacity_def wait_for_empty_def
      wait_to_publish_def set_slot_def)

lemma keeps_on_queue [keeps_rules]:
  "(\<And>q. cq_backing (f q) = cq_backing q) \<Longrightarrow> keeps (queue_keeps b I) (on_queue f)"
  by (auto simp: keeps_def queue_keeps_def on_queue_def)

lemma keeps_on_hw [keeps_rules]: "keeps I m \<Longrightarrow> keeps (queue_keeps b I) (on_hw m)"
  by (auto simp: keeps_def queue_keeps_def on_hw_def split: prod.splits)

lemma keeps_wait_for_consumed_poll:
  "keeps I (hw_read_head hw) \<Longrightarrow> keeps I (wait_for_consumed_poll n hw s k)"
proof (induction n)
  case (Suc n)
  have "I (snd (wait_for_consumed_poll (Suc n) hw s k h))" if "I h" for h
    using Suc that by (auto simp: wait_for_consumed_poll.simps [of "Suc n"] keeps_def
        split: prod.splits res.splits)
  then show ?case by (simp add: keeps_def)
qed (simp add: keeps_def wait_for_consumed_poll.simps)

lemma store_bytes_keeps:
  assumes "\<And>a v h. a \<in> S \<Longrightarrow> I h \<Longrightarrow> I (hw_store hw a v h)" and "\<forall>i \<in> set is. base + i \<in> S" and "I h"
  shows "I (store_bytes hw base bytes is h)"
  using assms(2,3) by (induction "is" arbitrary: h) (auto intro: assms(1))

lemma keeps_write_slot:
  assumes "cqb_ok E b" and "slot < cqb_entry_count b"
    and "\<And>a v h. a \<in> ring_bytes b \<Longrightarrow> I h \<Longrightarrow> I (hw_store hw a v h)"
  shows "keeps I (write_slot E hw b slot bytes)"
proof -
  have va: "cqb_entry_vaddr E b slot = Ok (r_start (cqb_virt b) + slot * cqb_entry_bytes b)"
    by (rule cqb.entry_addr_Ok [OF assms(1,2)])
  have ring: "\<forall>i \<in> set [0..<cqb_entry_bytes b]. r_start (cqb_virt b) + slot * cqb_entry_bytes b + i \<in> ring_bytes b"
    using cqb.cells_in_range [OF assms(1,2)] by (auto simp: ring_bytes_def cqb.cells_def subset_iff)
  have "I (store_bytes hw (r_start (cqb_virt b) + slot * cqb_entry_bytes b) bytes [0..<cqb_entry_bytes b] h)"
    if "I h" for h
    by (rule store_bytes_keeps [where I = I and S = "ring_bytes b" and hw = hw, OF assms(3) ring that])
  then show ?thesis by (simp add: keeps_def write_slot_def va)
qed

lemma cq_slot_of_less: "is_power_of_two n \<Longrightarrow> cq_slot_of t n < n"
  by (simp add: cq_slot_of_mod is_power_of_two_pos)

lemma cq_submit_keeps:
  assumes ok: "cqb_ok E b" and hd: "keeps I (hw_read_head hw)"
    and tl: "\<And>t h. I h \<Longrightarrow> I (hw_write_tail hw t h)" and er: "keeps I (hw_check_error hw)"
    and st: "\<And>a v h. a \<in> ring_bytes b \<Longrightarrow> I h \<Longrightarrow> I (hw_store hw a v h)"
  shows "keeps (queue_keeps b I) (cq_submit E hw bytes)"
proof -
  have slot: "cq_slot_of t (cqb_entry_count b) < cqb_entry_count b" for t
    using ok by (auto simp: cqb_ok_def intro: cq_slot_of_less)
  have tl': "keeps I (st_modify (hw_write_tail hw t))" for t using tl by (rule keeps_modify)
  have cons: "keeps (queue_keeps b I) (wait_for_consumed hw s k)" for s k
    unfolding wait_for_consumed_def by (intro keeps_on_hw keeps_wait_for_consumed_poll hd)
  have wr: "keeps I (write_slot E hw b (cq_slot_of t (cqb_entry_count b)) bytes)" for t
    using ok slot st by (rule keeps_write_slot)
  have ret: "cq_backing (advance_retired n q) = cq_backing q" for n q by (simp add: advance_retired_def)
  have "keeps (queue_keeps b I) (cq_submit_at E hw bytes b)"
    unfolding cq_submit_at_def Let_def
    by (intro keeps_rules cons tl' er wr) (simp_all add: ret)
  then show ?thesis by (auto simp: keeps_def cq_submit_def queue_keeps_def)
qed

section \<open>Devices that leave memory to the driver\<close>

definition mem_is :: "usize set \<Rightarrow> (usize \<Rightarrow> u8) \<Rightarrow> 'd world \<Rightarrow> bool" where
  "mem_is S m w \<longleftrightarrow> (\<forall>a \<in> S. w_mem w a = m a)"

lemma snd_st_map_err [simp]: "snd (st_map_err f m s) = snd (m s)"
  by (simp add: st_map_err_def split: prod.splits)

lemma keeps_registers [keeps_rules]:
  assumes "registers_only R"
  shows "keeps (mem_is S m) (read32 R i)" "keeps (mem_is S m) (write32 R i v)"
    "keeps (mem_is S m) (read64 R i)" "keeps (mem_is S m) (write64 R i v')"
    "keeps (mem_is S m) (write64_shared E R i v')"
proof -
  show "keeps (mem_is S m) (read32 R i)" "keeps (mem_is S m) (write32 R i v)"
    "keeps (mem_is S m) (read64 R i)" "keeps (mem_is S m) (write64 R i v')"
    using assms by (simp_all add: keeps_def read32_def write32_def read64_def write64_def registers_only_def
        mem_is_def)
  show "keeps (mem_is S m) (write64_shared E R i v')"
    unfolding write64_shared_def using assms
    by (intro keeps_rules) (simp add: registers_only_def mem_is_def)
qed

lemma keeps_on_world: "keeps I m \<Longrightarrow> keeps (\<lambda>(w, tr). I w) (on_world m)"
  by (auto simp: keeps_def on_world_def split: prod.splits)

lemma keeps_st_map: "keeps I m \<Longrightarrow> keeps I (st_map f m)"
  unfolding st_map_def by (intro keeps_rules)

lemma submit_with_keeps:
  assumes ok: "cqb_ok E b" and R: "registers_only R" and disj: "S \<inter> ring_bytes b = {}"
    and wt: "\<And>t. keeps (mem_is S m) (write_tail t)"
  shows "keeps (queue_keeps b (mem_is S m)) (submit_with E R write_tail d)"
proof -
  let ?hw = "qi_hw R write_tail" and ?I = "\<lambda>(w, tr :: unit result). mem_is S m w"
  have "keeps (queue_keeps b ?I) (cq_submit E ?hw (qi_bytes d))"
  proof (rule cq_submit_keeps [OF ok])
    show "keeps ?I (hw_read_head ?hw)" "keeps ?I (hw_check_error ?hw)"
      unfolding qi_hw_def cq_hw.simps invalidate_queue_head_def fault_status_def
      by (intro keeps_on_world keeps_st_map keeps_registers R)+
  next
    fix t and h :: "'a world \<times> unit result"
    assume "?I h"
    then show "?I (hw_write_tail ?hw t h)"
      using wt [of t] by (cases h; cases "write_tail t (fst h)") (auto simp: qi_hw_def dest: keepsD)
  next
    fix a v and h :: "'a world \<times> unit result"
    assume "a \<in> ring_bytes b" and "?I h"
    then show "?I (hw_store ?hw a v h)"
      using disj by (cases h) (auto simp: qi_hw_def mem_is_def store8_def)
  qed
  then have 1: "queue_keeps b (mem_is S m) (snd (submit_with E R write_tail d (q, w)))"
    if "queue_keeps b (mem_is S m) (q, w)" for q w
  proof -
    let ?m = "cq_submit E ?hw (qi_bytes d) (q, (w, Ok ()))"
    obtain r t where "?m = (r, t)" by (rule prod.exhaust)
    moreover obtain q' h' where "t = (q', h')" by (rule prod.exhaust)
    moreover obtain w' tr where "h' = (w', tr)" by (rule prod.exhaust)
    ultimately have run: "?m = (r, (q', (w', tr)))" by simp
    have "queue_keeps b ?I (q, (w, Ok ()))" using that by (simp add: queue_keeps_def)
    then have "queue_keeps b ?I (q', (w', tr))"
      by (rule keepsD [OF \<open>keeps (queue_keeps b ?I) (cq_submit E ?hw (qi_bytes d))\<close> run])
    then show ?thesis by (cases r) (simp_all add: submit_with_def run queue_keeps_def)
  qed
  then show ?thesis by (simp add: keeps_def)
qed

section \<open>Attaching and detaching\<close>

text \<open>
  The situation in which the unit runs: an accepted queue and an accepted context table for the
  bus, in disjoint memory.
\<close>

definition attach_ok ::
    "ext_ops \<Rightarrow> 'd world mapping \<Rightarrow> vtd_unit \<Rightarrow> command_queue_backing \<Rightarrow> context_table \<Rightarrow> u8 \<Rightarrow> bool" where
  "attach_ok E R u b t bus \<longleftrightarrow>
     registers_only R \<and> cq_backing (vu_queue u) = Some b \<and> cqb_ok E b \<and>
     dtb_ok E CONTEXT_ENTRY_BYTES t \<and> dtb_entry_count t = CONTEXT_ENTRY_COUNT \<and>
     length (vu_context_tables u) = ROOT_ENTRY_COUNT \<and> vu_context_tables u ! unat bus = Some t \<and>
     {r_start (dtb_virt t) ..< r_end (dtb_virt t)} \<inter> ring_bytes b = {}"

definition client_entry_at :: "context_table \<Rightarrow> pci_device \<Rightarrow> virt_addr" where
  "client_entry_at t client = r_start (dtb_virt t) + unat (context_entry_index client) * 16"

lemma client_entry_vaddr_Ok:
  assumes "dtb_ok E CONTEXT_ENTRY_BYTES t" and "dtb_entry_count t = CONTEXT_ENTRY_COUNT"
  shows "client_entry_vaddr E t client = Ok (client_entry_at t client)"
    and "{client_entry_at t client ..< client_entry_at t client + 16} \<subseteq> {r_start (dtb_virt t) ..< r_end (dtb_virt t)}"
proof -
  have "unat (context_entry_index client) < 2 ^ LENGTH(8)" by (rule unsigned_less)
  then have i: "unat (context_entry_index client) < dtb_entry_count t"
    using assms(2) by (simp add: CONTEXT_ENTRY_COUNT_def)
  show "client_entry_vaddr E t client = Ok (client_entry_at t client)"
    using dtb.entry_addr_Ok [OF assms(1) i]
    by (simp add: client_entry_vaddr_def client_entry_at_def CONTEXT_ENTRY_BYTES_def)
  show "{client_entry_at t client ..< client_entry_at t client + 16} \<subseteq> {r_start (dtb_virt t) ..< r_end (dtb_virt t)}"
    using dtb.cells_in_range [OF assms(1) i]
    by (simp add: dtb.cells_def client_entry_at_def CONTEXT_ENTRY_BYTES_def)
qed

text \<open>What a submission leaves alone: all of the unit but its queue, all of memory but the ring.\<close>

definition outside_ring ::
    "command_queue_backing \<Rightarrow> vtd_unit \<times> 'd world \<Rightarrow> vtd_unit \<times> 'd world \<Rightarrow> bool" where
  "outside_ring b s s' \<longleftrightarrow>
     (\<exists>q. fst s' = (fst s)\<lparr>vu_queue := q\<rparr> \<and> cq_backing q = Some b) \<and> mem_is (- ring_bytes b) (w_mem (snd s)) (snd s')"

lemma outside_ring_trans: "outside_ring b s s' \<Longrightarrow> outside_ring b s' s'' \<Longrightarrow> outside_ring b s s''"
  by (auto simp: outside_ring_def mem_is_def)

lemma unit_submit_outside:
  assumes run: "unit_submit E R d (u, w) = (r, s')"
    and b: "cqb_ok E b" "registers_only R" "cq_backing (vu_queue u) = Some b"
  shows "outside_ring b (u, w) s'"
proof -
  obtain q' w' where q: "submit_with E R (write_invalidate_queue_tail_shared E R) d (vu_queue u, w) = (r, (q', w'))"
      "s' = (u\<lparr>vu_queue := q'\<rparr>, w')"
    using run by (auto simp: unit_submit_def on_unit_queue_def split: prod.splits)
  have "keeps (queue_keeps b (mem_is (- ring_bytes b) (w_mem w)))
      (submit_with E R (write_invalidate_queue_tail_shared E R) d)"
    unfolding write_invalidate_queue_tail_shared_def
    by (rule submit_with_keeps [OF b(1,2)]) (simp, rule keeps_registers [OF b(2)])
  from this q(1) have "queue_keeps b (mem_is (- ring_bytes b) (w_mem w)) (q', w')"
    by (rule keepsD) (use b in \<open>simp add: queue_keeps_def mem_is_def\<close>)
  then show ?thesis using q(2) by (auto simp: queue_keeps_def outside_ring_def)
qed

lemma invalidate_iotlb_domain_eq:
  "invalidate_iotlb_domain E R g (u, w) = unit_submit E R (qi_iotlb_domain g (vi_cap (vu_info u))) (u, w)"
  by (simp add: invalidate_iotlb_domain_def unit_info_def)

text \<open>Two submissions in a row, stopping after the first if it fails.\<close>

lemma two_submits_outside:
  assumes run: "st_then (unit_submit E R d) (invalidate_iotlb_domain E R g) (u, w) = (r, s')"
    and b: "cqb_ok E b" "registers_only R" "cq_backing (vu_queue u) = Some b"
  shows "outside_ring b (u, w) s'"
proof -
  obtain r1 u1 w1 where f: "unit_submit E R d (u, w) = (r1, (u1, w1))" by (metis prod.collapse)
  note one = unit_submit_outside [OF f b]
  then have bk: "cq_backing (vu_queue u1) = Some b" by (auto simp: outside_ring_def)
  show ?thesis
  proof (cases r1)
    case (Ok x)
    then have "unit_submit E R (qi_iotlb_domain g (vi_cap (vu_info u1))) (u1, w1) = (r, s')"
      using run f by (simp add: st_then_def st_bind_def invalidate_iotlb_domain_eq)
    then show ?thesis by (rule outside_ring_trans [OF one unit_submit_outside [OF _ b(1,2) bk]])
  qed (use run f one in \<open>auto simp: st_then_def st_bind_def\<close>)
qed

lemma two_submits_run:
  assumes run: "st_then (unit_submit E R d) (invalidate_iotlb_domain E R g) (u, w) = (r, (u', w'))"
    and ok: "attach_ok E R u b t bus" and S: "S \<subseteq> {r_start (dtb_virt t) ..< r_end (dtb_virt t)}"
    and m: "mem_is S m w"
  shows "attach_ok E R u' b t bus \<and> vu_info u' = vu_info u \<and> mem_is S m w'"
proof -
  have b: "cqb_ok E b" "registers_only R" "cq_backing (vu_queue u) = Some b" "S \<inter> ring_bytes b = {}"
    using ok S by (auto simp: attach_ok_def)
  from two_submits_outside [OF run b(1-3)] show ?thesis
    using b(4) m ok by (auto simp: outside_ring_def mem_is_def attach_ok_def disjoint_iff)
qed

lemma context_table_for_client_Ok:
  "attach_ok E R u b t (pci_bus client) \<Longrightarrow> context_table_for_client client (u, w) = (Ok t, (u, w))"
  using unsigned_less [of "pci_bus client", where ?'a = nat]
  by (simp add: context_table_for_client_def context_table_def attach_ok_def st_bind_def ROOT_ENTRY_COUNT_def)

text \<open>The entries of a table: what a client's entry reads as.\<close>

lemma read_context_entry_eq:
  assumes "attach_ok E R u b t bus"
  shows "read_context_entry E t client w = (Ok (read_128 (client_entry_at t client) w), w)"
  using client_entry_vaddr_Ok(1) [of E t client] assms
  by (simp add: read_context_entry_def read_entry_at_def attach_ok_def)

lemma write_then_invalidate:
  assumes run: "st_then (on_regs (write_context_entry E t client e))
        (st_then (unit_submit E R d) (invalidate_iotlb_domain E R g)) (u, w) = (r, (u', w'))"
    and ok: "attach_ok E R u b t bus"
  shows "read_context_entry E t client w' = (Ok e, w')"
    and "context_entry_index c \<noteq> context_entry_index client \<Longrightarrow>
      fst (read_context_entry E t c w') = fst (read_context_entry E t c w)"
proof -
  let ?S = "{r_start (dtb_virt t) ..< r_end (dtb_virt t)}"
  let ?w1 = "write_128 (client_entry_at t client) (w_low e) (w_high e) w"
  have d: "dtb_ok E CONTEXT_ENTRY_BYTES t" "dtb_entry_count t = CONTEXT_ENTRY_COUNT"
    using ok by (simp_all add: attach_ok_def)
  have va: "client_entry_vaddr E t c = Ok (client_entry_at t c)"
      "{client_entry_at t c ..< client_entry_at t c + 16} \<subseteq> ?S" for c
    using client_entry_vaddr_Ok [OF d] by auto
  have "st_then (unit_submit E R d) (invalidate_iotlb_domain E R g) (u, ?w1) = (r, (u', w'))"
    using run by (simp add: st_then_def st_bind_def on_regs_def write_context_entry_def write_entry_at_def va(1))
  then have "mem_is ?S (w_mem ?w1) w'" and ok': "attach_ok E R u' b t bus"
    using two_submits_run [OF _ ok order.refl, where m = "w_mem ?w1"] by (auto simp: mem_is_def)
  then have same: "read_128 (client_entry_at t c) w' = read_128 (client_entry_at t c) ?w1" for c
    using va(2) [of c] by (intro read_128_cong) (auto simp: mem_is_def subset_iff)
  show "read_context_entry E t client w' = (Ok e, w')"
    by (simp add: read_context_entry_eq [OF ok'] same)
  assume ne: "context_entry_index c \<noteq> context_entry_index client"
  then have "unat (context_entry_index c) \<noteq> unat (context_entry_index client)"
    by (simp add: word_unat_eq_iff)
  then have "client_entry_at t c + 16 \<le> client_entry_at t client \<or> client_entry_at t client + 16 \<le> client_entry_at t c"
    unfolding client_entry_at_def by linarith
  then show "fst (read_context_entry E t c w') = fst (read_context_entry E t c w)"
    by (simp add: read_context_entry_eq [OF ok] same)
qed

lemma context_from_binding_no_panic: "context_from_binding E g cap \<noteq> Panic"
  by (auto simp: context_from_binding_def context_from_domain_def Let_def split: binding_target.splits if_splits)

text \<open>C35. Attaching a requester has exactly the effect asked for on the tables. A request that the
  guards refuse (selector not default, requester of another segment, another domain than the
  active one, an entry that cannot be built) returns their error and changes nothing. Otherwise
  the entry of the requester in the table of its bus reads back as the entry built from the
  binding and every other entry of the table is as before, whatever the invalidations that
  follow return: after an error from them the entry is installed.\<close>

theorem bind_effect:
  assumes "attach_ok E R u b t (pci_bus (b_client g))"
    and "bind_context E R ad g (u, w) = (r, (u', w'))"
  shows "case (if b_selector g \<noteq> Default then Err FeatureUnavailable
       else if (\<exists>s. ii_segment (vi_base (vu_info u)) = Some s \<and> s \<noteq> pci_segment (b_client g)) then Err InvalidClient
       else if (\<exists>d. b_target g = ToDomain d \<and> d \<noteq> ad) then Err InvalidAddressSpace
       else context_from_binding E g (vi_ecap (vu_info u))) of
     Ok e \<Rightarrow> fst (read_context_entry E t (b_client g) w') = Ok e \<and>
       (\<forall>c. context_entry_index c \<noteq> context_entry_index (b_client g) \<longrightarrow>
          fst (read_context_entry E t c w') = fst (read_context_entry E t c w))
   | Err e \<Rightarrow> r = Err e \<and> u' = u \<and> w' = w
   | Panic \<Rightarrow> False"
proof (cases "b_selector g \<noteq> Default \<or>
    (\<exists>s. ii_segment (vi_base (vu_info u)) = Some s \<and> s \<noteq> pci_segment (b_client g)) \<or>
    (\<exists>d. b_target g = ToDomain d \<and> d \<noteq> ad)")
  case True
  then show ?thesis
    using assms(2) by (auto simp: bind_context_def unit_info_def validate_client_def st_then_def st_bind_def
        split: option.splits binding_target.splits if_splits)
next
  case False
  note guards = False
  have tab: "context_table_for_client (b_client g) (u, w) = (Ok t, (u, w))"
    by (rule context_table_for_client_Ok [OF assms(1)])
  have target: "\<not> (case b_target g of ToDomain d \<Rightarrow> d \<noteq> ad | _ \<Rightarrow> False)"
    using guards by (auto split: binding_target.splits)
  have valid: "validate_client (vu_info u) (b_client g) = Ok ()"
    using guards by (auto simp: validate_client_def split: option.splits)
  let ?k = "\<lambda>e. st_then (on_regs (write_context_entry E t (b_client g) e)) (
      st_then (unit_invalidate_context_device E R (b_client g)) (invalidate_iotlb_domain E R (vd_id ad)))"
  have run: "st_bind (st_lift (context_from_binding E g (vi_ecap (vu_info u)))) ?k (u, w) = (r, (u', w'))"
    using assms(2) guards target valid tab
    by (simp add: bind_context_def unit_info_def st_then_def) (simp add: st_bind_def)
  show ?thesis
  proof (cases "context_from_binding E g (vi_ecap (vu_info u))")
    case (Ok e)
    then have "?k e (u, w) = (r, (u', w'))" using run by simp
    note after = write_then_invalidate [OF this [unfolded unit_invalidate_context_device_def] assms(1)]
    show ?thesis using guards Ok after by auto
  next
    case (Err e)
    then show ?thesis using guards run by auto
  next
    case Panic
    then show ?thesis using context_from_binding_no_panic by metis
  qed
qed

definition wit_ring :: command_queue_backing where
  "wit_ring = \<lparr>cqb_phys = \<lparr>r_start = 4096, r_end = 8192\<rparr>, cqb_virt = \<lparr>r_start = 262144, r_end = 266240\<rparr>,
     cqb_entry_count = 256, cqb_entry_bytes = 16\<rparr>"

definition wit_table :: context_table where
  "wit_table = \<lparr>dtb_phys = \<lparr>r_start = 12288, r_end = 16384\<rparr>, dtb_virt = \<lparr>r_start = 196608, r_end = 200704\<rparr>,
     dtb_entry_count = 256\<rparr>"

definition wit_attached :: vtd_unit where
  "wit_attached = wit_unit\<lparr>vu_queue := (cq_new 256)\<lparr>cq_backing := Some wit_ring\<rparr>,
     vu_context_tables := replicate 256 (Some wit_table)\<rparr>"

lemma wit_attach_ok: "attach_ok std_ext (traced wit_window ans) wit_attached wit_ring wit_table bus"
proof -
  have "unat bus < 2 ^ LENGTH(8)" by (rule unsigned_less)
  then have "vu_context_tables wit_attached ! unat bus = Some wit_table" by (simp add: wit_attached_def)
  moreover have "cqb_ok std_ext wit_ring"
    by (simp add: cqb_ok_def wit_ring_def std_ext_ok valid_range_def usize_bound_def is_power_of_two_def)
  moreover have "dtb_ok std_ext CONTEXT_ENTRY_BYTES wit_table"
    by (simp add: dtb_ok_def wit_table_def std_ext_ok valid_range_def usize_bound_def is_power_of_two_def
        CONTEXT_ENTRY_BYTES_def)
  ultimately show ?thesis
    by (auto simp: attach_ok_def traced_registers_only wit_attached_def wit_table_def wit_ring_def ring_bytes_def
        CONTEXT_ENTRY_COUNT_def ROOT_ENTRY_COUNT_def)
qed

lemma wit_info [simp]: "ii_segment (vi_base (vu_info wit_attached)) = None"
  by (simp add: wit_attached_def wit_unit_def vtd_unit_new_def vtd_info_from_registers_def)

definition wit_client :: pci_device where
  "wit_client = pci_from_segment_bdf 0 (Bdf 8)"

lemma bind_effect_witness:
  "\<exists>r u' w' e. bind_context std_ext (traced wit_window (\<lambda>_ _. 0)) wit_domain
       \<lparr>b_client = wit_client, b_selector = Default, b_target = Abort\<rparr> (wit_attached, wit_world) = (r, (u', w')) \<and>
     fst (read_context_entry std_ext wit_table wit_client w') = Ok e \<and> \<not> context_present e"
proof -
  let ?g = "\<lparr>b_client = wit_client, b_selector = Default, b_target = Abort\<rparr> :: (pci_device, vtd_domain) binding"
  obtain r s where "bind_context std_ext (traced wit_window (\<lambda>_ _. 0)) wit_domain ?g (wit_attached, wit_world) = (r, s)"
    by (rule prod.exhaust)
  moreover obtain u' w' where "s = (u', w')" by (rule prod.exhaust)
  ultimately have run: "bind_context std_ext (traced wit_window (\<lambda>_ _. 0)) wit_domain ?g (wit_attached, wit_world) = (r, (u', w'))"
    by simp
  show ?thesis
    using bind_effect [OF wit_attach_ok run] run
    by (simp add: context_from_binding_def disabled_def context_present_def)
qed

text \<open>Detaching a requester clears its entry: refused requests (selector not default, requester of
  another segment) return their error and change nothing; otherwise the entry of the requester
  reads back as not present, and every other entry of the table is as before, whatever the
  invalidations that follow return.\<close>

theorem unbind_effect:
  assumes "attach_ok E R u b t (pci_bus client)"
    and "unbind_context E R ad client selector (u, w) = (r, (u', w'))"
  shows "if selector \<noteq> Default then r = Err FeatureUnavailable \<and> u' = u \<and> w' = w
    else if (\<exists>s. ii_segment (vi_base (vu_info u)) = Some s \<and> s \<noteq> pci_segment client)
    then r = Err InvalidClient \<and> u' = u \<and> w' = w
    else (\<exists>e. fst (read_context_entry E t client w') = Ok e \<and> \<not> context_present e) \<and>
       (\<forall>c. context_entry_index c \<noteq> context_entry_index client \<longrightarrow>
          fst (read_context_entry E t c w') = fst (read_context_entry E t c w))"
proof (cases "selector \<noteq> Default \<or> (\<exists>s. ii_segment (vi_base (vu_info u)) = Some s \<and> s \<noteq> pci_segment client)")
  case True
  then show ?thesis
    using assms(2) by (auto simp: unbind_context_def unit_info_def validate_client_def st_then_def st_bind_def
        split: option.splits if_splits)
next
  case False
  have tab: "context_table_for_client client (u, w) = (Ok t, (u, w))"
    by (rule context_table_for_client_Ok [OF assms(1)])
  have valid: "validate_client (vu_info u) client = Ok ()"
    using False by (auto simp: validate_client_def split: option.splits)
  have run: "st_then (on_regs (write_context_entry E t client disabled)) (
      st_then (unit_invalidate_context_device E R client) (invalidate_iotlb_domain E R (vd_id ad)))
      (u, w) = (r, (u', w'))"
    using assms(2) False valid tab
    by (simp add: unbind_context_def unit_info_def st_then_def) (simp add: st_bind_def)
  note after = write_then_invalidate [OF run [unfolded unit_invalidate_context_device_def] assms(1)]
  have "\<not> context_present disabled" by (simp add: context_present_def disabled_def)
  then show ?thesis using False after by auto
qed

lemma unbind_effect_witness:
  "\<exists>r u' w' e. unbind_context std_ext (traced wit_window (\<lambda>_ _. 0)) wit_domain wit_client Default (wit_attached, wit_world) = (r, (u', w')) \<and>
     fst (read_context_entry std_ext wit_table wit_client w') = Ok e \<and> \<not> context_present e"
proof -
  obtain r s where "unbind_context std_ext (traced wit_window (\<lambda>_ _. 0)) wit_domain wit_client Default (wit_attached, wit_world) = (r, s)"
    by (rule prod.exhaust)
  moreover obtain u' w' where "s = (u', w')" by (rule prod.exhaust)
  ultimately have run: "unbind_context std_ext (traced wit_window (\<lambda>_ _. 0)) wit_domain wit_client Default (wit_attached, wit_world) = (r, (u', w'))"
    by simp
  show ?thesis using unbind_effect [OF wit_attach_ok run] run by auto
qed

section \<open>Replacing an entry is not atomic\<close>


end
