(* ===== verification/Vtd_Range.thy ===== *)
theory Vtd_Range
  imports Vtd_Trace
begin

text \<open>
  \<open>invalidate_iotlb_range\<close> refines the invalidation of a set of pages: it submits, in order, one
  descriptor for each block of the plan, or falls back to the whole domain.
\<close>

fun submit_all :: "ext_ops \<Rightarrow> 'd world mapping \<Rightarrow> words128 list \<Rightarrow> (unit, 'd) unit_op" where
  "submit_all E R [] = st_ret ()"
| "submit_all E R (d # ds) = st_then (unit_submit E R d) (submit_all E R ds)"

text \<open>A descriptor for the pages of a block, in the domain asked for.\<close>

definition describes :: "io_domain \<Rightarrow> range_block \<Rightarrow> words128 \<Rightarrow> bool" where
  "describes domain b d \<longleftrightarrow>
     take_bit 6 (w_low d) = 0x32 \<and> ucast (drop_bit 16 (w_low d)) = (ucast domain :: u16) \<and>
     unat (w_high d AND PAGE_ADDR_MASK) = bk_page b * 4096 \<and> take_bit 6 (w_high d) = ucast (bk_mask b)"

lemma invalidate_blocks_eq:
  assumes "plan_blocks p = (Ok bs :: range_block list result)"
    and "\<And>b. b \<in> set bs \<Longrightarrow> block_descriptor domain cap b = Ok (f b)"
  shows "invalidate_blocks E R domain cap p = submit_all E R (map f bs)"
  using assms
proof (induction "rp_remaining_pages p" arbitrary: p bs rule: less_induct)
  case less
  show ?case
  proof (cases "next_block p :: (range_block option \<times> range_plan) result")
    case (Ok x)
    obtain o' p' where x: "x = (o', p')" by (rule prod.exhaust)
    show ?thesis
    proof (cases o')
      case None
      then show ?thesis
        using less.prems Ok x by (simp add: plan_blocks.simps [of p] invalidate_blocks.simps [of E R domain cap p])
    next
      case (Some b)
      then obtain bs' where bs': "plan_blocks p' = (Ok bs' :: range_block list result)" "bs = b # bs'"
        using less.prems(1) Ok x by (auto simp: plan_blocks.simps [of p] res_map_Ok_iff)
      have "rp_remaining_pages p' < rp_remaining_pages p"
        using next_block_decreases Ok x Some by blast
      from less.hyps [OF this bs'(1)] less.prems(2) bs'(2)
      have "invalidate_blocks E R domain cap p' = submit_all E R (map f bs')" by simp
      then have "invalidate_blocks E R domain cap p s = submit_all E R (map f bs) s" for s
        using less.prems(2) [of b] Ok x Some bs'(2) by (simp add: invalidate_blocks.simps [of E R domain cap p])
      then show ?thesis by (rule ext)
    qed
  qed (use less.prems in \<open>simp_all add: plan_blocks.simps [of p]\<close>)
qed

lemma max_mask_of_bounds:
  "m \<le> max_mask_of cap \<Longrightarrow> m \<le> cap_max_address_mask_value cap \<and> m \<le> 63 \<and> unat m < 64"
proof -
  assume m: "m \<le> max_mask_of cap"
  have "(ucast IVA_AM_MASK :: u8) = 63" by (simp add: IVA_AM_MASK_def)
  then have "m \<le> cap_max_address_mask_value cap \<and> m \<le> 63" using m by (simp add: max_mask_of_def)
  moreover then have "unat m \<le> 63" by (simp add: word_le_nat_alt)
  ultimately show ?thesis by simp
qed

lemma page_address_word:
  assumes "p < 2 ^ 52"
  shows "checked_shl_usize p 12 = Some (p * 4096)" and "unat ((word_of_nat (p * 4096) :: u64) AND PAGE_ADDR_MASK) = p * 4096"
proof -
  have b: "p * 4096 < 2 ^ 64" using assms by simp
  then show "checked_shl_usize p 12 = Some (p * 4096)" by (simp add: checked_shl_usize_def usize_bound_def)
  have "4096 dvd p * 4096" by simp
  from page_mask_or_small(1) [OF this b, of 0] show "unat ((word_of_nat (p * 4096) :: u64) AND PAGE_ADDR_MASK) = p * 4096"
    by simp
qed

lemma block_descriptor_describes:
  assumes "bit cap 39" and "bk_mask b \<le> max_mask_of cap" and "bk_page b < 2 ^ 52"
  obtains d where "block_descriptor domain cap b = Ok d" and "describes domain b d"
proof -
  have am: "(ucast IVA_AM_MASK :: u8) = 0x3f" by (simp add: IVA_AM_MASK_def)
  note m = max_mask_of_bounds [OF assms(2)]
  have m63: "bk_mask b \<le> 0x3f" using m by simp
  note hi = iova_mask_bits [OF m63, of "word_of_nat (bk_page b * 4096)"]
  obtain d where d: "block_descriptor domain cap b = Ok d"
      "w_low d = QI_IOTLB_TYPE OR QI_IOTLB_PAGE OR iotlb_drain_bits cap OR
         push_bit QI_IOTLB_DID_SHIFT (ucast (dom_id VTD_DOMAIN_MASK domain))"
      "w_high d = (word_of_nat (bk_page b * 4096) AND PAGE_ADDR_MASK) OR ucast (bk_mask b AND ucast IVA_AM_MASK)"
    using assms m m63 by (simp add: block_descriptor_def page_address_word(1) qi_iotlb_page_with_address_mask_def
        cap_flag_bits am not_less)
  have "describes domain b d"
    unfolding describes_def d(2,3) using qi_iotlb_low(1,2) [of cap domain] hi page_address_word(2) [OF assms(3)]
    by simp
  then show ?thesis using that d(1) by blast
qed

lemma start_page_eq: "drop_bit 12 (unat (start AND PAGE_ADDR_MASK)) = unat start div 4096"
proof -
  have "drop_bit 12 (start AND PAGE_ADDR_MASK) = drop_bit 12 start"
    by (rule bit_word_eqI) (auto simp: bit_simps PAGE_ADDR_MASK_bit dest: bit_imp_le_length)
  then have "unat (drop_bit 12 (start AND PAGE_ADDR_MASK)) = unat (drop_bit 12 start)" by (rule arg_cong)
  then show ?thesis by (simp only: unat_drop_bit_eq) (simp add: drop_bit_eq_div)
qed

lemma granule_mask_small: "iotlb_granule_address_mask sz = Some m \<Longrightarrow> unat m \<le> 18"
  by (auto simp: iotlb_granule_address_mask_def split: page_size.splits)


definition wit_psi_unit :: vtd_unit where
  "wit_psi_unit = wit_unit\<lparr>vu_info := vtd_info_from_registers None wit_window 0 None (push_bit 39 1) 0 False\<rparr>"


end
