(* ===== verification/Vtd_Controller.thy ===== *)
theory Vtd_Controller
  imports Vtd_Attach Vtd_Range
begin

text \<open>
  The invalidation hooks the page-table code calls (\<open>IoTlbInvalidation\<close> of \<open>src/ctrl.rs\<close> with its
  default methods and its no-op implementation), the VT-d implementation of them, and what the
  controller of a domain guarantees about an invalidation it completes.
\<close>

section \<open>The hooks\<close>

text \<open>
  The methods of \<open>TlbInvalidation\<close> and \<open>IoTlbInvalidation\<close> for 64-bit I/O addresses. They return
  nothing; what they do is the change of the state behind them.
\<close>

record ('c, 's) iotlb_hooks =
  flush_tlb_local :: "u64 \<Rightarrow> (unit, error, 's) st"
  flush_tlb_all_local :: "(unit, error, 's) st"
  flush_tlb_range_local :: "u64 \<Rightarrow> page_size \<Rightarrow> usize \<Rightarrow> (unit, error, 's) st"
  hook_prefer_full_flush :: "usize \<Rightarrow> bool"
  flush_iotlb :: "u64 \<Rightarrow> (unit, error, 's) st"
  flush_iotlb_all :: "(unit, error, 's) st"
  flush_iotlb_range :: "u64 \<Rightarrow> page_size \<Rightarrow> usize \<Rightarrow> (unit, error, 's) st"
  flush_device_tlb :: "'c \<Rightarrow> u64 \<Rightarrow> (unit, error, 's) st"
  flush_device_tlb_all :: "'c \<Rightarrow> (unit, error, 's) st"
  flush_device_tlb_range :: "'c \<Rightarrow> u64 \<Rightarrow> page_size \<Rightarrow> usize \<Rightarrow> (unit, error, 's) st"
  prefer_full_iotlb_flush :: "usize \<Rightarrow> bool"

text \<open>The loop of the default range methods: one flush per page, the address saturating at the top.\<close>

fun flush_each :: "(u64 \<Rightarrow> (unit, error, 's) st) \<Rightarrow> usize \<Rightarrow> nat \<Rightarrow> usize \<Rightarrow> (unit, error, 's) st" where
  "flush_each flush stride 0 base = st_ret ()"
| "flush_each flush stride (Suc n) base =
     st_then (flush (word_of_nat base)) (flush_each flush stride n (saturating_add_usize base stride))"

definition default_flush_iotlb_range ::
    "ext_ops \<Rightarrow> (u64 \<Rightarrow> (unit, error, 's) st) \<Rightarrow> u64 \<Rightarrow> page_size \<Rightarrow> usize \<Rightarrow> (unit, error, 's) st" where
  "default_flush_iotlb_range E flush start sz count_pages =
     flush_each flush (page_bytes E sz) count_pages (unat start)"

definition default_flush_device_tlb_range ::
    "ext_ops \<Rightarrow> ('c \<Rightarrow> u64 \<Rightarrow> (unit, error, 's) st) \<Rightarrow> 'c \<Rightarrow> u64 \<Rightarrow> page_size \<Rightarrow> usize \<Rightarrow>
     (unit, error, 's) st" where
  "default_flush_device_tlb_range E flush client start sz count_pages =
     flush_each (flush client) (page_bytes E sz) count_pages (unat start)"

definition no_io_tlb_flush :: "('c, 's) iotlb_hooks" where
  "no_io_tlb_flush =
     \<lparr>flush_tlb_local = (\<lambda>_. st_ret ()), flush_tlb_all_local = st_ret (),
      flush_tlb_range_local = (\<lambda>_ _ _. st_ret ()), hook_prefer_full_flush = (\<lambda>_. False),
      flush_iotlb = (\<lambda>_. st_ret ()), flush_iotlb_all = st_ret (),
      flush_iotlb_range = (\<lambda>_ _ _. st_ret ()),
      flush_device_tlb = (\<lambda>_ _. st_ret ()), flush_device_tlb_all = (\<lambda>_. st_ret ()),
      flush_device_tlb_range = (\<lambda>_ _ _ _. st_ret ()), prefer_full_iotlb_flush = (\<lambda>_. False)\<rparr>"

text \<open>The VT-d hooks; the range flush of device TLBs is the inherited default.\<close>

definition vtd_hooks ::
    "ext_ops \<Rightarrow> 'd world mapping \<Rightarrow> io_domain \<Rightarrow> (pci_device, vtd_unit \<times> 'd world) iotlb_hooks" where
  "vtd_hooks E R domain =
     \<lparr>flush_tlb_local = invalidator_flush_page E R domain,
      flush_tlb_all_local = invalidator_flush_all E R domain,
      flush_tlb_range_local = invalidator_flush_range E R domain,
      hook_prefer_full_flush = prefer_full_flush,
      flush_iotlb = invalidator_flush_page E R domain,
      flush_iotlb_all = invalidator_flush_all E R domain,
      flush_iotlb_range = invalidator_flush_range E R domain,
      flush_device_tlb = (\<lambda>_ _. st_ret ()), flush_device_tlb_all = (\<lambda>_. st_ret ()),
      flush_device_tlb_range = default_flush_device_tlb_range E (\<lambda>_ _. st_ret ()),
      prefer_full_iotlb_flush = prefer_full_flush\<rparr>"

section \<open>The controller of a domain\<close>

text \<open>
  The page table of the controller is the external walker and its methods are left to it; the unit
  and the world are the state, the register window \<open>R\<close> is fixed.
\<close>

record vtd_controller =
  ctl_domain :: vtd_domain
  ctl_invalidator :: io_domain

definition controller_new :: "vtd_domain \<Rightarrow> vtd_controller" where
  "controller_new d = \<lparr>ctl_domain = d, ctl_invalidator = vd_id d\<rparr>"

definition controller_stage :: "vtd_controller \<Rightarrow> translation_stage" where
  "controller_stage c = vd_stage (ctl_domain c)"

definition controller_enable :: "ext_ops \<Rightarrow> 'd world mapping \<Rightarrow> vtd_controller \<Rightarrow> (unit, 'd) unit_op" where
  "controller_enable E R c = enable_translation E R"

definition controller_bind ::
    "ext_ops \<Rightarrow> 'd world mapping \<Rightarrow> vtd_controller \<Rightarrow> (pci_device, vtd_domain) binding \<Rightarrow> (unit, 'd) unit_op" where
  "controller_bind E R c b = bind_context E R (ctl_domain c) b"

definition controller_unbind ::
    "ext_ops \<Rightarrow> 'd world mapping \<Rightarrow> vtd_controller \<Rightarrow> pci_device \<Rightarrow> binding_selector \<Rightarrow> (unit, 'd) unit_op" where
  "controller_unbind E R c client selector = unbind_context E R (ctl_domain c) client selector"

definition controller_invalidator ::
    "ext_ops \<Rightarrow> 'd world mapping \<Rightarrow> vtd_controller \<Rightarrow> (pci_device, vtd_unit \<times> 'd world) iotlb_hooks" where
  "controller_invalidator E R c = vtd_hooks E R (ctl_invalidator c)"

definition controller_configure_fault_event ::
    "'d world mapping \<Rightarrow> vtd_controller \<Rightarrow> interrupt_route \<Rightarrow> (unit, 'd) unit_op" where
  "controller_configure_fault_event R c route = on_regs (configure_fault_event R route)"

definition controller_poll_fault ::
    "'f access_ops \<Rightarrow> 'd world mapping \<Rightarrow> vtd_controller \<Rightarrow> ('f vtd_fault option, 'd) unit_op" where
  "controller_poll_fault A R c = poll_fault A R"

text \<open>The page-table methods, which all go to the walker the controller was built with.\<close>

record ('t, 'm, 'b, 'f, 'c, 's) walker_ops =
  wk_root :: "'t \<Rightarrow> phys_addr"
  wk_query :: "'t \<Rightarrow> u64 \<Rightarrow> ('m, paging_error) res"
  wk_map :: "addr_range \<Rightarrow> 'b \<Rightarrow> 'f \<Rightarrow> ('c, 's) iotlb_hooks \<Rightarrow> (unit, paging_error, 't \<times> 's) st"
  wk_remap :: "addr_range \<Rightarrow> phys_addr \<Rightarrow> 'f \<Rightarrow> ('c, 's) iotlb_hooks \<Rightarrow> ('m, paging_error, 't \<times> 's) st"
  wk_protect :: "addr_range \<Rightarrow> 'f \<Rightarrow> ('c, 's) iotlb_hooks \<Rightarrow> ('m, paging_error, 't \<times> 's) st"
  wk_unmap :: "addr_range \<Rightarrow> ('c, 's) iotlb_hooks \<Rightarrow> ('m, paging_error, 't \<times> 's) st"
  wk_split_at :: "addr_range \<Rightarrow> ('c, 's) iotlb_hooks \<Rightarrow> (page_size, paging_error, 't \<times> 's) st"
  wk_merge_at :: "addr_range \<Rightarrow> ('c, 's) iotlb_hooks \<Rightarrow> (page_size, paging_error, 't \<times> 's) st"

definition controller_root :: "('t, 'm, 'b, 'f, 'c, 's) walker_ops \<Rightarrow> 't \<Rightarrow> phys_addr" where
  "controller_root W t = wk_root W t"

definition controller_query :: "('t, 'm, 'b, 'f, 'c, 's) walker_ops \<Rightarrow> 't \<Rightarrow> u64 \<Rightarrow> ('m, paging_error) res" where
  "controller_query W t iova = wk_query W t iova"

definition controller_map ::
    "('t, 'm, 'b, 'f, 'c, 's) walker_ops \<Rightarrow> addr_range \<Rightarrow> 'b \<Rightarrow> 'f \<Rightarrow> ('c, 's) iotlb_hooks \<Rightarrow>
     (unit, paging_error, 't \<times> 's) st" where
  "controller_map W rng backing flags tlb = wk_map W rng backing flags tlb"

definition controller_remap ::
    "('t, 'm, 'b, 'f, 'c, 's) walker_ops \<Rightarrow> addr_range \<Rightarrow> phys_addr \<Rightarrow> 'f \<Rightarrow> ('c, 's) iotlb_hooks \<Rightarrow>
     ('m, paging_error, 't \<times> 's) st" where
  "controller_remap W rng paddr flags tlb = wk_remap W rng paddr flags tlb"

definition controller_protect ::
    "('t, 'm, 'b, 'f, 'c, 's) walker_ops \<Rightarrow> addr_range \<Rightarrow> 'f \<Rightarrow> ('c, 's) iotlb_hooks \<Rightarrow>
     ('m, paging_error, 't \<times> 's) st" where
  "controller_protect W rng flags tlb = wk_protect W rng flags tlb"

definition controller_unmap ::
    "('t, 'm, 'b, 'f, 'c, 's) walker_ops \<Rightarrow> addr_range \<Rightarrow> ('c, 's) iotlb_hooks \<Rightarrow>
     ('m, paging_error, 't \<times> 's) st" where
  "controller_unmap W rng tlb = wk_unmap W rng tlb"

definition controller_split_at ::
    "('t, 'm, 'b, 'f, 'c, 's) walker_ops \<Rightarrow> addr_range \<Rightarrow> ('c, 's) iotlb_hooks \<Rightarrow>
     (page_size, paging_error, 't \<times> 's) st" where
  "controller_split_at W rng tlb = wk_split_at W rng tlb"

definition controller_merge_at ::
    "('t, 'm, 'b, 'f, 'c, 's) walker_ops \<Rightarrow> addr_range \<Rightarrow> ('c, 's) iotlb_hooks \<Rightarrow>
     (page_size, paging_error, 't \<times> 's) st" where
  "controller_merge_at W rng tlb = wk_merge_at W rng tlb"

section \<open>Clearing entries\<close>

definition clear_root_entry :: "ext_ops \<Rightarrow> root_table \<Rightarrow> u8 \<Rightarrow> (unit, error, 'd world) st" where
  "clear_root_entry E t bus = write_root_entry E t bus disabled"

definition clear_context_entry :: "ext_ops \<Rightarrow> context_table \<Rightarrow> pci_device \<Rightarrow> (unit, error, 'd world) st" where
  "clear_context_entry E t client = write_context_entry E t client disabled"

definition clear_interrupt_remap_entry ::
    "ext_ops \<Rightarrow> interrupt_remap_table \<Rightarrow> u16 \<Rightarrow> (unit, error, 'd world) st" where
  "clear_interrupt_remap_entry E t entry = write_interrupt_remap_entry E t entry disabled"

lemma cleared_entries_read_disabled:
  "clear_root_entry E t bus w = (Ok (), w') \<Longrightarrow> read_root_entry E t bus w' = (Ok disabled, w')"
  "clear_context_entry E ct client w = (Ok (), w') \<Longrightarrow> read_context_entry E ct client w' = (Ok disabled, w')"
  by (cases "root_entry_vaddr E t bus"; cases "client_entry_vaddr E ct client";
      auto simp: clear_root_entry_def clear_context_entry_def write_root_entry_def read_root_entry_def
        write_context_entry_def read_context_entry_def write_entry_at_def read_entry_at_def)+

section \<open>What an invalidation covers\<close>

text \<open>
  The pages of the domains that the hardware drops for an IOTLB invalidation descriptor: all of them,
  those of a domain, or the aligned block around an address whose size the address mask gives.
\<close>

definition qi_covers :: "words128 \<Rightarrow> u16 \<Rightarrow> nat \<Rightarrow> bool" where
  "qi_covers d domain page \<longleftrightarrow>
     take_bit 6 (w_low d) = 0x12 \<or>
     take_bit 6 (w_low d) = 0x22 \<and> ucast (drop_bit 16 (w_low d)) = domain \<or>
     take_bit 6 (w_low d) = 0x32 \<and> ucast (drop_bit 16 (w_low d)) = domain \<and>
       (let am = unat (take_bit 6 (w_high d))
        in page div 2 ^ am = unat (w_high d AND PAGE_ADDR_MASK) div 4096 div 2 ^ am)"

text \<open>What a request asks for, in a domain.\<close>

fun request_covers :: "io_domain \<Rightarrow> 'c invalidate_request \<Rightarrow> u16 \<Rightarrow> nat \<Rightarrow> bool" where
  "request_covers g InvGlobal domain page \<longleftrightarrow> True"
| "request_covers g InvAddressSpace domain page \<longleftrightarrow> domain = ucast g"
| "request_covers g (InvLeaf iova granule) domain page \<longleftrightarrow> domain = ucast g \<and>
     (case page_address_mask granule of
        Some m \<Rightarrow> page div 2 ^ unat m = unat iova div 4096 div 2 ^ unat m
      | None \<Rightarrow> True)"
| "request_covers g (InvDevice c) domain page \<longleftrightarrow> False"
| "request_covers g (InvDeviceLeaf c iova granule) domain page \<longleftrightarrow> False"

lemma qi_global_covers: "qi_covers (qi_iotlb_global cap) domain page"
proof -
  have lb: "bit (w_low (qi_iotlb_global cap)) n \<longleftrightarrow> n = 1 \<or> n = 4 \<or> n = 7 \<and> bit cap 55 \<or> n = 6 \<and> bit cap 54" for n
    by (auto simp: qi_iotlb_global_def bit_or_iff qi_code_bits descriptor_const_bits drain_bit)
  have c: "(0x12 :: u64) = push_bit 1 1 OR push_bit 4 1" by simp
  have "take_bit 6 (w_low (qi_iotlb_global cap)) = 0x12"
    unfolding c by (rule bit_word_eqI) (unfold bit_or_iff bit_push_bit_1_iff bit_take_bit_iff lb, auto)
  then show ?thesis by (simp add: qi_covers_def)
qed

lemma qi_domain_covers: "qi_covers (qi_iotlb_domain g cap) domain page \<longleftrightarrow> domain = ucast g"
proof -
  have lb: "bit (w_low (qi_iotlb_domain g cap)) n \<longleftrightarrow> n = 1 \<or> n = 5 \<or> n = 7 \<and> bit cap 55 \<or>
      n = 6 \<and> bit cap 54 \<or> 16 \<le> n \<and> n < 32 \<and> bit g (n - 16)" for n
    by (auto simp: qi_iotlb_domain_def bit_or_iff qi_code_bits drain_bit bit_push_bit_iff bit_unsigned_iff
        dom_id_16 QI_IOTLB_DID_SHIFT_def)
  have c: "(0x22 :: u64) = push_bit 1 1 OR push_bit 5 1" by simp
  have "take_bit 6 (w_low (qi_iotlb_domain g cap)) = 0x22"
    unfolding c by (rule bit_word_eqI) (unfold bit_or_iff bit_push_bit_1_iff bit_take_bit_iff lb, auto)
  moreover have "ucast (drop_bit 16 (w_low (qi_iotlb_domain g cap))) = (ucast g :: u16)"
    by (rule bit_word_eqI) (auto simp: bit_simps lb)
  ultimately show ?thesis by (auto simp: qi_covers_def)
qed

lemma qi_page_covers:
  assumes "qi_iotlb_page g iova granule cap = Ok d"
  obtains m where "page_address_mask granule = Some m"
    and "\<And>domain page. qi_covers d domain page \<longleftrightarrow>
      domain = ucast g \<and> page div 2 ^ unat m = unat iova div 4096 div 2 ^ unat m"
proof -
  obtain m where m: "page_address_mask granule = Some m" "m \<le> 0x3f"
      "d = \<lparr>w_low = QI_IOTLB_TYPE OR QI_IOTLB_PAGE OR iotlb_drain_bits cap OR
           push_bit QI_IOTLB_DID_SHIFT (ucast (dom_id VTD_DOMAIN_MASK g)),
         w_high = (iova AND PAGE_ADDR_MASK) OR ucast (m AND ucast IVA_AM_MASK)\<rparr>"
    using assms by (auto simp: qi_iotlb_page_def qi_iotlb_page_with_address_mask_def res_bind_Ok_iff
        cap_page_selective_address_mask_def IVA_AM_MASK_def split: option.splits if_splits)
  have am: "unat (ucast m :: u64) = unat m" using unsigned_less [of m, where ?'a = nat] by (simp add: unsigned_ucast_eq take_bit_nat_eq_self)
  have page: "unat (iova AND PAGE_ADDR_MASK) div 4096 = unat iova div 4096"
    using start_page_eq [of iova] by (simp add: drop_bit_eq_div)
  note low = qi_iotlb_low(1,2) [of cap g] and high = iova_mask_bits [OF m(2), of iova]
  show ?thesis
  proof (rule that [OF m(1)])
    fix domain page
    show "qi_covers d domain page \<longleftrightarrow>
      domain = ucast g \<and> page div 2 ^ unat m = unat iova div 4096 div 2 ^ unat m"
      unfolding qi_covers_def m(3) words128.simps low high am Let_def page by auto
  qed
qed

lemma unit_submit_without_queue:
  "cq_backing (vu_queue u) = None \<Longrightarrow> unit_submit E R d (u, w) = (Err ControllerUnavailable, (u, w))"
  by (simp add: unit_submit_def on_unit_queue_def submit_with_def cq_submit_def)

lemma st_ignore_eq:
  "st_ignore m s = (case fst (m s) of Panic \<Rightarrow> Panic | _ \<Rightarrow> Ok (), snd (m s))"
  by (auto simp: st_ignore_def split: prod.splits res.splits)

lemma invalidate_blocks_without_queue:
  assumes "cq_backing (vu_queue u) = None"
  shows "snd (invalidate_blocks E R g cap p (u, w)) = (u, w)"
  by (subst invalidate_blocks.simps)
    (auto simp: st_bind_def st_then_def unit_submit_without_queue [OF assms] split: res.splits option.splits)

lemma invalidate_iotlb_range_without_queue:
  fixes w :: "'d world"
  assumes "cq_backing (vu_queue u) = None"
  shows "snd (invalidate_iotlb_range E R g start sz n (u, w)) = (u, w)"
proof -
  have domain: "snd (domain_fallback E R g (u, w)) = (u, w)"
    by (simp add: domain_fallback_def invalidate_iotlb_domain_eq st_then_def st_bind_def
        unit_submit_without_queue [OF assms])
  have blocks: "snd (st_then (invalidate_blocks E R g cap p) (st_ret ScopeLeaf) (u, w)) = (u, w)" for cap p
    using invalidate_blocks_without_queue [OF assms, of E R g cap p w]
    by (cases "invalidate_blocks E R g cap p (u, w)")
      (auto simp: st_then_def st_bind_def split: res.splits)
  have lift: "snd (st_bind (st_lift r) k (u, w)) = (u, w)" if "\<And>x. snd (k x (u, w)) = (u, w)"
    for r :: "('x, error) res" and k :: "'x \<Rightarrow> (invalidate_scope, 'd) unit_op"
    using that by (cases r) (simp_all add: st_bind_def)
  show ?thesis
    by (simp add: invalidate_iotlb_range_def unit_info_def Let_def domain blocks lift split: option.splits)
qed

section \<open>Properties\<close>



section \<open>A concrete run\<close>

text \<open>A unit whose hardware has moved its head register by one entry whenever it is read.\<close>

definition wit_prompt :: "reg_access list world mapping" where
  "wit_prompt = traced wit_window (\<lambda>_ _. 16)"

lemma wit_unit_submit:
  "\<exists>s. unit_submit std_ext wit_prompt d (wit_attached, wit_world) = (Ok (), s)"
proof -
  let ?q = "vu_queue wit_attached" and ?tail = "write_invalidate_queue_tail_shared std_ext wit_prompt"
  let ?hw = "qi_hw wit_prompt ?tail"
  have b: "cqb_ok std_ext wit_ring" "cqb_entry_bytes wit_ring = 16" "cqb_entry_count wit_ring = 256"
    using wit_attach_ok [of _ 0] by (simp_all add: attach_ok_def wit_ring_def)
  have q: "cq_wf std_ext wit_ring ?q" "between ?q" "cq_slots ?q ! next_slot wit_ring ?q = QUEUE_SLOT_EMPTY"
      "next_slot wit_ring ?q = 0" "cq_claim ?q = 0"
    using b by (simp_all add: cq_wf_def between_def next_slot_def wit_attached_def cq_new_def usize_bound_def)
  have cmd: "valid_command wit_ring (qi_bytes d)"
    using b by (simp add: valid_command_def qi_bytes_def is_power_of_two_def)
  obtain w1 t1 where st: "store_bytes ?hw (r_start (cqb_virt wit_ring)) (qi_bytes d) [0..<16] (wit_world, Ok ()) = (w1, t1)"
    by (rule prod.exhaust)
  have tail: "?tail 16 w1 = (Ok (), record_access (W64 REG_IQT 16) w1)"
    by (simp add: write_invalidate_queue_tail_shared_def write64_shared_def wit_prompt_def traced_def
        wit_window_def REG_IQT_def std_ext_def checked_add_usize_def usize_bound_def st_bind_def
        wrapping_sub_usize_def)
  then have pub: "hw_published ?hw wit_ring ?q (qi_bytes d) (wit_world, Ok ()) = (record_access (W64 REG_IQT 16) w1, Ok ())"
    using st by (simp add: hw_published_def b q) (simp add: qi_hw_def)
  have poll: "wait_for_consumed_poll COMMAND_QUEUE_POLL_LIMIT ?hw 0 16 (w, t) =
      (Ok (), (record_access (R64 REG_IQH) w, t))" for w t
    by (subst wait_for_consumed_poll.simps)
      (simp add: COMMAND_QUEUE_POLL_LIMIT_def qi_hw_def on_world_def invalidate_queue_head_def st_map_def st_bind_def
        wit_prompt_def traced_simps)
  have check: "hw_check_error ?hw (w, t) = (Ok (), (record_access (R32 REG_FSTS) w, t))" for w t
    by (simp add: qi_hw_def on_world_def st_map_def st_bind_def wit_prompt_def traced_simps)
  have "\<exists>h. cq_submit std_ext ?hw (qi_bytes d) (?q, (wit_world, Ok ())) = (Ok (), (q_retired ?q, (h, Ok ())))"
    using cq_submit_eq [OF q(1,2) cmd q(3), of ?hw "(wit_world, Ok ())"]
    by (simp add: pub q(4) b(2) poll check)
  then show ?thesis
    by (auto simp: unit_submit_def on_unit_queue_def submit_with_def)
qed



end
