(* ===== verification/Vtd_Lookup.thy ===== *)
theory Vtd_Lookup
  imports Vtd_Controller
begin

text \<open>
  What the hardware finds for a requester. The root table and the context tables in memory, as the
  driver writes them, refine a map from requesters to context entries: \<open>hw_entry\<close> is the two-level
  lookup that the VT-d specification prescribes, by physical address and from memory alone, and
  \<open>spec_step\<close> the map of a request to install a table, attach or detach.
\<close>

section \<open>The lookup of the hardware\<close>

definition bdf_index :: "bdf \<Rightarrow> u8" where
  "bdf_index b = ucast (as_u16 b)"

lemma context_entry_index_bdf: "context_entry_index c = bdf_index (pci_bdf c)"
  unfolding context_entry_index_def bdf_index_def pci_bdf_def pci_device_number_def pci_function_def
    and_mask_numerals bdf.sel
proof (rule bit_word_eqI)
  fix n
  assume "n < LENGTH(8)"
  then show "bit (push_bit 3 (ucast (take_bit 5 (drop_bit 3 (pci_raw c)))) OR ucast (take_bit 3 (pci_raw c)) :: u8) n =
      bit (ucast (ucast (take_bit 16 (pci_raw c)) :: u16) :: u8) n"
    by (cases "n < 3") (auto simp: bit_simps)
qed

lemma bdf_eq_iff: "b = c \<longleftrightarrow> bdf_bus b = bdf_bus c \<and> bdf_index b = bdf_index c"
proof
  assume eq: "bdf_bus b = bdf_bus c \<and> bdf_index b = bdf_index c"
  have "bit (as_u16 b) n = bit (as_u16 c) n" if "n < 16" for n
  proof (cases "n < 8")
    case True
    then show ?thesis
      using arg_cong [OF conjunct2 [OF eq], of "\<lambda>w. bit w n"] by (simp add: bdf_index_def bit_simps)
  next
    case False
    then show ?thesis
      using that arg_cong [OF conjunct1 [OF eq], of "\<lambda>w. bit w (n - 8)"]
      by (auto simp: bdf_bus_def bit_simps less_diff_conv2)
  qed
  then have "as_u16 b = as_u16 c" by (intro bit_word_eqI) simp
  then show "b = c" by (simp add: bdf.expand)
qed simp

definition shown :: "words128 \<Rightarrow> words128 option" where
  "shown e = (if context_present e then Some e else None)"

text \<open>\<open>V\<close> says where the driver sees a physical address; \<open>root\<close> is the address in the root-table register.\<close>

definition hw_entry :: "(phys_addr \<Rightarrow> virt_addr) \<Rightarrow> phys_addr \<Rightarrow> 'd world \<Rightarrow> bdf \<Rightarrow> words128 option" where
  "hw_entry V root w b =
     (case root_context_table (read_128 (V (root + unat (bdf_bus b) * 16)) w) of
        None \<Rightarrow> None
      | Some ct \<Rightarrow> shown (read_128 (V (ct + unat (bdf_index b) * 16)) w))"

section \<open>Tables in memory\<close>

definition entry_at :: "descriptor_table_backing \<Rightarrow> u8 \<Rightarrow> virt_addr" where
  "entry_at t i = r_start (dtb_virt t) + unat i * 16"

definition dtb_bytes :: "descriptor_table_backing \<Rightarrow> usize set" where
  "dtb_bytes t = {r_start (dtb_virt t) ..< r_end (dtb_virt t)}"

text \<open>An accepted table of 256 entries, in a page that the driver sees as a whole.\<close>

definition page_table_ok :: "ext_ops \<Rightarrow> (phys_addr \<Rightarrow> virt_addr) \<Rightarrow> descriptor_table_backing \<Rightarrow> bool" where
  "page_table_ok E V t \<longleftrightarrow>
     dtb_ok E 16 t \<and> dtb_entry_count t = 256 \<and> 4096 dvd r_start (dtb_phys t) \<and> r_start (dtb_phys t) < 2 ^ 52 \<and>
     (\<forall>i < 4096. V (r_start (dtb_phys t) + i) = r_start (dtb_virt t) + i)"

lemma page_table_vaddr:
  assumes "page_table_ok E V t"
  shows "V (r_start (dtb_phys t) + unat (i :: u8) * 16) = entry_at t i"
    and "root_entry_vaddr E t i = Ok (entry_at t i)"
    and "{entry_at t i ..< entry_at t i + 16} \<subseteq> dtb_bytes t"
proof -
  have i: "unat i < 256" using unsigned_less [of i, where ?'a = nat] by simp
  then have "unat i * 16 < 4096" by linarith
  then show "V (r_start (dtb_phys t) + unat (i :: u8) * 16) = entry_at t i"
    using assms by (simp add: page_table_ok_def entry_at_def)
  have ok: "dtb_ok E 16 t" "unat i < dtb_entry_count t" using assms i by (simp_all add: page_table_ok_def)
  show "root_entry_vaddr E t i = Ok (entry_at t i)"
    using dtb.entry_addr_Ok [OF ok] by (simp add: root_entry_vaddr_def entry_at_def ROOT_ENTRY_BYTES_def)
  show "{entry_at t i ..< entry_at t i + 16} \<subseteq> dtb_bytes t"
    using dtb.cells_in_range [OF ok] by (simp add: dtb.cells_def entry_at_def dtb_bytes_def)
qed

lemma entry_at_apart: "i \<noteq> j \<Longrightarrow> entry_at t i + 16 \<le> entry_at t j \<or> entry_at t j + 16 \<le> entry_at t i"
  unfolding entry_at_def word_unat_eq_iff by linarith

lemma client_entry_at_bdf: "client_entry_at t c = entry_at t (bdf_index (pci_bdf c))"
  by (simp add: client_entry_at_def entry_at_def context_entry_index_bdf)

lemma root_entry_of_table:
  assumes "page_table_ok E V t"
  shows "\<exists>e. root_from_context_table E t = Ok e \<and> root_context_table e = Some (r_start (dtb_phys t))"
proof -
  have p: "4096 dvd r_start (dtb_phys t)" "r_start (dtb_phys t) < 2 ^ 52" and E: "ext_ok E"
    using assms by (simp_all add: page_table_ok_def dtb_ok_def)
  have out: "n < 12 \<or> 52 \<le> n" if "bit ROOT_ENTRY_PRESENT n" for n
    using that by (simp add: descriptor_const_bits)
  let ?x = "(word_of_nat (r_start (dtb_phys t)) AND ADDR_FIELD) OR ROOT_ENTRY_PRESENT :: u64"
  have "unat (?x AND ADDR_FIELD) = r_start (dtb_phys t)"
    by (simp add: addr_or_flags(1) [OF p out] page_addr_word(2) [OF p])
  moreover have "bit ?x 0 = bit ROOT_ENTRY_PRESENT 0" by (rule addr_or_flags(2) [OF p out]) auto
  ultimately show ?thesis
    using p(1) E by (simp add: root_from_context_table_def Let_def ext_ok_aligned_4K TABLE_ADDR_MASK_eq
        mod_eq_0_iff_dvd root_context_table_def root_present_def present_bits descriptor_const_bits)
qed

section \<open>The invariant of the tables\<close>

text \<open>
  The layout: a queue and tables in pages of their own. \<open>pool\<close> holds every context table that is
  installed or will be, \<open>free\<close> those not yet used, which are blank.
\<close>

definition layout_ok ::
    "ext_ops \<Rightarrow> (phys_addr \<Rightarrow> virt_addr) \<Rightarrow> 'd world mapping \<Rightarrow> command_queue_backing \<Rightarrow> root_table \<Rightarrow>
     context_table set \<Rightarrow> bool" where
  "layout_ok E V R b root pool \<longleftrightarrow>
     registers_only R \<and> cqb_ok E b \<and> root \<notin> pool \<and>
     (\<forall>t \<in> insert root pool. page_table_ok E V t \<and> dtb_bytes t \<inter> ring_bytes b = {}) \<and>
     (\<forall>t \<in> insert root pool. \<forall>t' \<in> insert root pool. t \<noteq> t' \<longrightarrow> dtb_bytes t \<inter> dtb_bytes t' = {})"

abbreviation table_of :: "vtd_unit \<Rightarrow> u8 \<Rightarrow> context_table option" where
  "table_of u bus \<equiv> vu_context_tables u ! unat bus"

definition tables_inv ::
    "ext_ops \<Rightarrow> (phys_addr \<Rightarrow> virt_addr) \<Rightarrow> 'd world mapping \<Rightarrow> command_queue_backing \<Rightarrow> context_table set \<Rightarrow>
     context_table set \<Rightarrow> vtd_unit \<times> 'd world \<Rightarrow> bool" where
  "tables_inv E V R b pool free s \<longleftrightarrow>
     (let u = fst s; w = snd s; root = vu_root_table u in
      layout_ok E V R b root pool \<and> free \<subseteq> pool \<and>
      cq_backing (vu_queue u) = Some b \<and> length (vu_context_tables u) = ROOT_ENTRY_COUNT \<and>
      (\<forall>bus t. table_of u bus = Some t \<longrightarrow> t \<in> pool \<and> t \<notin> free) \<and>
      (\<forall>bus bus' t. table_of u bus = Some t \<longrightarrow> table_of u bus' = Some t \<longrightarrow> bus = bus') \<and>
      (\<forall>bus. root_context_table (read_128 (entry_at root bus) w) =
         map_option (\<lambda>t. r_start (dtb_phys t)) (table_of u bus)) \<and>
      (\<forall>t \<in> free. \<forall>i. \<not> context_present (read_128 (entry_at t i) w)))"

text \<open>The abstract state: the entry of each requester, and the buses that have a table.\<close>

record requester_map =
  qm_entry :: "bdf \<Rightarrow> words128 option"
  qm_buses :: "u8 set"

definition view :: "(phys_addr \<Rightarrow> virt_addr) \<Rightarrow> vtd_unit \<times> 'd world \<Rightarrow> requester_map" where
  "view V s =
     \<lparr>qm_entry = hw_entry V (r_start (dtb_phys (vu_root_table (fst s)))) (snd s),
      qm_buses = {bus. table_of (fst s) bus \<noteq> None}\<rparr>"

lemma table_write_read:
  assumes "layout_ok E V R b root pool" and "t \<in> insert root pool" and "t' \<in> insert root pool"
  shows "read_128 (entry_at t' j) (write_128 (entry_at t i) l h w) =
    (if t' = t \<and> j = i then \<lparr>w_low = l, w_high = h\<rparr> else read_128 (entry_at t' j) w)"
proof (cases "t' = t")
  case True
  then show ?thesis using entry_at_apart [of j i t] by auto
next
  case False
  have "{entry_at t i ..< entry_at t i + 16} \<subseteq> dtb_bytes t" "{entry_at t' j ..< entry_at t' j + 16} \<subseteq> dtb_bytes t'"
    using assms by (auto simp: layout_ok_def simp del: insert_iff intro!: page_table_vaddr(3))
  moreover have "dtb_bytes t \<inter> dtb_bytes t' = {}"
    using assms False unfolding layout_ok_def by blast
  ultimately have "\<not> (entry_at t i \<le> a \<and> a < entry_at t i + 16)"
    if "entry_at t' j \<le> a" "a < entry_at t' j + 16" for a
    using that by fastforce
  then show ?thesis using False by (auto intro!: read_128_cong)
qed

lemma table_read_outside_ring:
  assumes "layout_ok E V R b root pool" and "t \<in> insert root pool" and "outside_ring b s s'"
  shows "read_128 (entry_at t i) (snd s') = read_128 (entry_at t i) (snd s)"
proof (rule read_128_cong)
  fix a
  assume a: "entry_at t i \<le> a" "a < entry_at t i + 16"
  have "{entry_at t i ..< entry_at t i + 16} \<subseteq> dtb_bytes t" "dtb_bytes t \<inter> ring_bytes b = {}"
    using assms(1,2) by (auto simp: layout_ok_def simp del: insert_iff intro!: page_table_vaddr(3))
  then have "a \<notin> ring_bytes b" using a by fastforce
  then show "w_mem (snd s') a = w_mem (snd s) a"
    using assms(3) by (simp add: outside_ring_def mem_is_def)
qed

text \<open>Under the invariant the two reads of the hardware are one read of the table of the bus.\<close>

lemma hw_entry_eq:
  assumes "tables_inv E V R b pool free (u, w)"
  shows "hw_entry V (r_start (dtb_phys (vu_root_table u))) w c =
    (case table_of u (bdf_bus c) of None \<Rightarrow> None | Some t \<Rightarrow> shown (read_128 (entry_at t (bdf_index c)) w))"
proof -
  have lay: "layout_ok E V R b (vu_root_table u) pool" using assms by (simp add: tables_inv_def Let_def)
  have root: "V (r_start (dtb_phys (vu_root_table u)) + unat bus * 16) = entry_at (vu_root_table u) bus" for bus
    using lay by (auto simp: layout_ok_def intro: page_table_vaddr(1))
  have "V (r_start (dtb_phys t) + unat i * 16) = entry_at t i" if "table_of u bus = Some t" for t bus and i :: u8
    using lay assms that by (auto simp: layout_ok_def tables_inv_def Let_def intro!: page_table_vaddr(1))
  then show ?thesis
    using assms by (simp add: hw_entry_def root tables_inv_def Let_def split: option.splits)
qed

lemma view_eq:
  assumes "tables_inv E V R b pool free (u, w)"
  shows "view V (u, w) = \<lparr>qm_entry = (\<lambda>c. case table_of u (bdf_bus c) of None \<Rightarrow> None
      | Some t \<Rightarrow> shown (read_128 (entry_at t (bdf_index c)) w)), qm_buses = {bus. table_of u bus \<noteq> None}\<rparr>"
  by (simp add: view_def fun_eq_iff hw_entry_eq [OF assms])

section \<open>What keeps the invariant, and what it does to the map\<close>

lemma outside_ring_step:
  assumes inv: "tables_inv E V R b pool free s" and out: "outside_ring b s s'"
  shows "tables_inv E V R b pool free s' \<and> view V s' = view V s"
proof -
  obtain u w where s: "s = (u, w)" by (rule prod.exhaust)
  obtain q w' where s': "s' = (u\<lparr>vu_queue := q\<rparr>, w')" "cq_backing q = Some b"
    using out s by (cases s') (auto simp: outside_ring_def)
  have lay: "layout_ok E V R b (vu_root_table u) pool" and sub: "free \<subseteq> pool"
    and used: "\<And>bus t. table_of u bus = Some t \<Longrightarrow> t \<in> pool"
    using inv by (auto simp: tables_inv_def s Let_def)
  have eq: "read_128 (entry_at t i) w' = read_128 (entry_at t i) w" if "t \<in> insert (vu_root_table u) pool" for t i
    using table_read_outside_ring [OF lay that out] by (simp add: s s')
  have inv': "tables_inv E V R b pool free s'"
    using inv s' sub by (auto simp: tables_inv_def s Let_def eq subset_iff)
  show ?thesis
    using inv' view_eq [OF inv [unfolded s]] view_eq [OF inv' [unfolded s']]
    by (auto simp: s s' fun_eq_iff eq used split: option.splits)
qed

lemma write_entry_step:
  assumes inv: "tables_inv E V R b pool free (u, w)" and t: "table_of u (bdf_bus c) = Some t"
    and s': "s' = (u, write_128 (entry_at t (bdf_index c)) (w_low e) (w_high e) w)"
  shows "tables_inv E V R b pool free s' \<and>
    view V s' = (view V (u, w))\<lparr>qm_entry := (qm_entry (view V (u, w)))(c := shown e)\<rparr>"
proof -
  let ?w' = "write_128 (entry_at t (bdf_index c)) (w_low e) (w_high e) w"
  have lay: "layout_ok E V R b (vu_root_table u) pool" and sub: "free \<subseteq> pool"
    and used: "\<And>bus t. table_of u bus = Some t \<Longrightarrow> t \<in> pool \<and> t \<notin> free"
    and inj: "\<And>bus bus' t. table_of u bus = Some t \<Longrightarrow> table_of u bus' = Some t \<Longrightarrow> bus = bus'"
    using inv by (auto simp: tables_inv_def Let_def)
  have "vu_root_table u \<notin> pool" using lay by (simp add: layout_ok_def)
  with used [OF t] have t_in: "t \<in> pool" "t \<noteq> vu_root_table u" "t \<notin> free" by auto
  have eq: "read_128 (entry_at t' j) ?w' = (if t' = t \<and> j = bdf_index c then e else read_128 (entry_at t' j) w)"
    if "t' \<in> insert (vu_root_table u) pool" for t' j
    using that t_in(1) by (simp add: table_write_read [OF lay])
  have inv': "tables_inv E V R b pool free s'"
    using inv sub t_in unfolding tables_inv_def Let_def by (auto simp: eq s' subset_iff)
  have "(case table_of u (bdf_bus d) of None \<Rightarrow> None | Some t \<Rightarrow> shown (read_128 (entry_at t (bdf_index d)) ?w')) =
      (if d = c then shown e else case table_of u (bdf_bus d) of None \<Rightarrow> None
         | Some t \<Rightarrow> shown (read_128 (entry_at t (bdf_index d)) w))" for d
  proof (cases "table_of u (bdf_bus d)")
    case None
    then show ?thesis using t by auto
  next
    case (Some t')
    then have "t' \<in> pool" "t' = t \<longleftrightarrow> bdf_bus d = bdf_bus c" using used inj t by auto
    then show ?thesis using Some by (simp add: eq bdf_eq_iff [of d])
  qed
  then show ?thesis
    using inv' view_eq [OF inv] view_eq [OF inv' [unfolded s']] by (simp add: s' fun_eq_iff)
qed

lemma install_table_step:
  assumes inv: "tables_inv E V R b pool free (u, w)" and t: "t \<in> free"
    and e: "root_context_table e = Some (r_start (dtb_phys t))"
    and s': "s' = (u\<lparr>vu_context_tables := (vu_context_tables u)[unat bus := Some t]\<rparr>,
      write_128 (entry_at (vu_root_table u) bus) (w_low e) (w_high e) w)"
  shows "tables_inv E V R b pool (free - {t}) s' \<and>
    view V s' = \<lparr>qm_entry = (\<lambda>c. if bdf_bus c = bus then None else qm_entry (view V (u, w)) c),
      qm_buses = insert bus (qm_buses (view V (u, w)))\<rparr>"
proof -
  let ?root = "vu_root_table u"
  let ?w' = "write_128 (entry_at ?root bus) (w_low e) (w_high e) w"
  have lay: "layout_ok E V R b ?root pool" and sub: "free \<subseteq> pool" and len: "length (vu_context_tables u) = ROOT_ENTRY_COUNT"
    and used: "\<And>bus t. table_of u bus = Some t \<Longrightarrow> t \<in> pool \<and> t \<notin> free"
    and blank: "\<And>i. \<not> context_present (read_128 (entry_at t i) w)"
    using inv t by (auto simp: tables_inv_def Let_def)
  have root: "?root \<notin> pool" using lay by (simp add: layout_ok_def)
  have eq: "read_128 (entry_at t' j) ?w' = (if t' = ?root \<and> j = bus then e else read_128 (entry_at t' j) w)"
    if "t' \<in> insert ?root pool" for t' j
    using that by (simp add: table_write_read [OF lay])
  have "unat bus < 2 ^ LENGTH(8)" by (rule unsigned_less)
  then have tab: "(vu_context_tables u)[unat bus := Some t] ! unat x = (if x = bus then Some t else table_of u x)" for x
    using len by (simp add: ROOT_ENTRY_COUNT_def word_unat_eq_iff nth_list_update)
  have inv': "tables_inv E V R b pool (free - {t}) s'"
    using inv sub t e root unfolding tables_inv_def Let_def s' fst_conv snd_conv
    by (auto simp: eq tab subset_iff split: if_splits)
  have "(case (vu_context_tables u)[unat bus := Some t] ! unat (bdf_bus d) of None \<Rightarrow> None
         | Some t \<Rightarrow> shown (read_128 (entry_at t (bdf_index d)) ?w')) =
      (if bdf_bus d = bus then None else case table_of u (bdf_bus d) of None \<Rightarrow> None
         | Some t \<Rightarrow> shown (read_128 (entry_at t (bdf_index d)) w))" for d
  proof (cases "bdf_bus d = bus")
    case True
    then show ?thesis using t sub root blank by (auto simp: tab eq subset_iff shown_def)
  next
    case False
    then show ?thesis using used root by (auto simp: tab eq split: option.splits)
  qed
  then show ?thesis
    using inv' view_eq [OF inv] view_eq [OF inv' [unfolded s']] by (auto simp: s' tab fun_eq_iff)
qed

section \<open>Requests\<close>

datatype table_request =
    InstallTable u8 context_table
  | Attach vtd_domain "(pci_device, vtd_domain) binding"
  | Detach vtd_domain pci_device binding_selector

fun request_step :: "ext_ops \<Rightarrow> 'd world mapping \<Rightarrow> table_request \<Rightarrow> (unit, 'd) unit_op" where
  "request_step E R (InstallTable bus t) = install_context_table E bus t"
| "request_step E R (Attach active_domain g) = bind_context E R active_domain g"
| "request_step E R (Detach domain client selector) = unbind_context E R domain client selector"

fun request_tables :: "table_request \<Rightarrow> context_table set" where
  "request_tables (InstallTable bus t) = {t}"
| "request_tables (Attach active_domain g) = {}"
| "request_tables (Detach domain client selector) = {}"

text \<open>The specification: what a request does to the map of requesters, or why it is refused.\<close>

definition other_segment :: "vtd_info \<Rightarrow> pci_device \<Rightarrow> bool" where
  "other_segment info client \<longleftrightarrow>
     (case ii_segment (vi_base info) of None \<Rightarrow> False | Some s \<Rightarrow> s \<noteq> pci_segment client)"

definition other_domain :: "vtd_domain \<Rightarrow> (pci_device, vtd_domain) binding \<Rightarrow> bool" where
  "other_domain active_domain g \<longleftrightarrow> (case b_target g of ToDomain d \<Rightarrow> d \<noteq> active_domain | _ \<Rightarrow> False)"

fun spec_step :: "ext_ops \<Rightarrow> vtd_info \<Rightarrow> table_request \<Rightarrow> requester_map \<Rightarrow> requester_map result" where
  "spec_step E info (InstallTable bus t) m =
     Ok \<lparr>qm_entry = (\<lambda>c. if bdf_bus c = bus then None else qm_entry m c), qm_buses = insert bus (qm_buses m)\<rparr>"
| "spec_step E info (Attach active_domain g) m =
     (if b_selector g \<noteq> Default then Err FeatureUnavailable
      else if other_segment info (b_client g) then Err InvalidClient
      else if other_domain active_domain g then Err InvalidAddressSpace
      else if pci_bus (b_client g) \<notin> qm_buses m then Err ControllerUnavailable
      else
        res_bind (context_from_binding E g (vi_ecap info)) (\<lambda>e.
        Ok (m\<lparr>qm_entry := (qm_entry m)(pci_bdf (b_client g) := shown e)\<rparr>)))"
| "spec_step E info (Detach domain client selector) m =
     (if selector \<noteq> Default then Err FeatureUnavailable
      else if other_segment info client then Err InvalidClient
      else if pci_bus client \<notin> qm_buses m then Err ControllerUnavailable
      else Ok (m\<lparr>qm_entry := (qm_entry m)(pci_bdf client := None)\<rparr>))"

section \<open>Every request implements the specification\<close>

lemma update_entry_step:
  assumes run: "st_then (on_regs (write_context_entry E t client e))
      (st_then (unit_submit E R d) (invalidate_iotlb_domain E R g)) (u, w) = (r, s')"
    and inv: "tables_inv E V R b pool free (u, w)" and t: "table_of u (pci_bus client) = Some t"
  shows "tables_inv E V R b pool free s' \<and> vu_info (fst s') = vu_info u \<and>
    view V s' = (view V (u, w))\<lparr>qm_entry := (qm_entry (view V (u, w)))(pci_bdf client := shown e)\<rparr>"
proof -
  let ?w = "write_128 (entry_at t (bdf_index (pci_bdf client))) (w_low e) (w_high e) w"
  have lay: "layout_ok E V R b (vu_root_table u) pool" and bk: "cq_backing (vu_queue u) = Some b"
    and "t \<in> pool"
    using inv t by (auto simp: tables_inv_def Let_def)
  then have "dtb_ok E CONTEXT_ENTRY_BYTES t" "dtb_entry_count t = CONTEXT_ENTRY_COUNT"
    by (auto simp: layout_ok_def page_table_ok_def CONTEXT_ENTRY_BYTES_def CONTEXT_ENTRY_COUNT_def)
  note va = client_entry_vaddr_Ok(1) [OF this, unfolded client_entry_at_bdf]
  have "st_then (unit_submit E R d) (invalidate_iotlb_domain E R g) (u, ?w) = (r, s')"
    using run by (simp add: st_then_def st_bind_def on_regs_def write_context_entry_def write_entry_at_def va)
  from two_submits_outside [OF this _ _ bk] lay have out: "outside_ring b (u, ?w) s'"
    by (simp add: layout_ok_def)
  have "table_of u (bdf_bus (pci_bdf client)) = Some t" using t by (simp add: pci_fields_of_bdf)
  from write_entry_step [OF inv this refl, of e] outside_ring_step [OF _ out] out show ?thesis
    by (auto simp: outside_ring_def)
qed

lemma install_run:
  assumes inv: "tables_inv E V R b pool free (u, w)" and t: "t \<in> free"
    and run: "install_context_table E bus t (u, w) = (r, s')"
  shows "r = Ok () \<and> tables_inv E V R b pool (free - {t}) s' \<and> vu_info (fst s') = vu_info u \<and>
    spec_step E (vu_info u) (InstallTable bus t) (view V (u, w)) = Ok (view V s')"
proof -
  have lay: "layout_ok E V R b (vu_root_table u) pool" and len: "length (vu_context_tables u) = ROOT_ENTRY_COUNT"
    using inv by (auto simp: tables_inv_def Let_def)
  have ok: "page_table_ok E V t" "page_table_ok E V (vu_root_table u)"
    using inv lay t by (auto simp: tables_inv_def Let_def layout_ok_def)
  from root_entry_of_table [OF ok(1)] obtain e
    where e: "root_from_context_table E t = Ok e" "root_context_table e = Some (r_start (dtb_phys t))" by blast
  have "unat bus < 2 ^ LENGTH(8)" by (rule unsigned_less)
  then have s': "r = Ok ()" "s' = (u\<lparr>vu_context_tables := (vu_context_tables u)[unat bus := Some t]\<rparr>,
      write_128 (entry_at (vu_root_table u) bus) (w_low e) (w_high e) w)"
    using run len by (simp_all add: install_context_table_def e(1) st_then_def st_bind_def on_regs_def
        write_root_entry_def write_entry_at_def page_table_vaddr(2) [OF ok(2)] set_context_table_def ROOT_ENTRY_COUNT_def)
  from install_table_step [OF inv t e(2) s'(2)] s' show ?thesis by simp
qed

lemma context_table_for_client_run:
  assumes "tables_inv E V R b pool free (u, w)"
  shows "context_table_for_client client (u, w) =
    (case table_of u (pci_bus client) of None \<Rightarrow> Err ControllerUnavailable | Some t \<Rightarrow> Ok t, (u, w))"
  using assms unsigned_less [of "pci_bus client", where ?'a = nat]
  by (simp add: context_table_for_client_def context_table_def tables_inv_def Let_def st_bind_def
      ROOT_ENTRY_COUNT_def split: option.split)

lemma validate_client_eq: "validate_client info client = (if other_segment info client then Err InvalidClient else Ok ())"
  by (simp add: validate_client_def other_segment_def split: option.split)

lemma bind_run:
  assumes inv: "tables_inv E V R b pool free (u, w)"
    and run: "bind_context E R ad g (u, w) = (r, s')"
  shows "case spec_step E (vu_info u) (Attach ad g) (view V (u, w)) of
      Ok m \<Rightarrow> view V s' = m \<and> tables_inv E V R b pool free s' \<and> vu_info (fst s') = vu_info u
    | Err e \<Rightarrow> r = Err e \<and> s' = (u, w)
    | Panic \<Rightarrow> False"
proof (cases "b_selector g \<noteq> Default \<or> other_segment (vu_info u) (b_client g) \<or> other_domain ad g \<or>
    table_of u (pci_bus (b_client g)) = None")
  case True
  then show ?thesis
    using run by (auto simp: bind_context_def unit_info_def st_then_def st_bind_def validate_client_eq
        context_table_for_client_run [OF inv] view_eq [OF inv] simp flip: other_domain_def split: if_splits)
next
  case False
  then obtain t where t: "table_of u (pci_bus (b_client g)) = Some t" by auto
  let ?k = "\<lambda>e. st_then (on_regs (write_context_entry E t (b_client g) e)) (
      st_then (unit_invalidate_context_device E R (b_client g)) (invalidate_iotlb_domain E R (vd_id ad)))"
  have run: "st_bind (st_lift (context_from_binding E g (vi_ecap (vu_info u)))) ?k (u, w) = (r, s')"
    using run False t by (simp add: bind_context_def unit_info_def st_then_def validate_client_eq
        context_table_for_client_run [OF inv] flip: other_domain_def)
      (simp add: st_bind_def context_table_for_client_run [OF inv])
  show ?thesis
  proof (cases "context_from_binding E g (vi_ecap (vu_info u))")
    case (Ok e)
    then have "?k e (u, w) = (r, s')" using run by simp
    from update_entry_step [OF this [unfolded unit_invalidate_context_device_def] inv t] show ?thesis
      using False Ok by (simp add: view_eq [OF inv])
  next
    case (Err e)
    then show ?thesis using False run by (auto simp: view_eq [OF inv])
  next
    case Panic
    then show ?thesis using context_from_binding_no_panic by metis
  qed
qed

lemma unbind_run:
  assumes inv: "tables_inv E V R b pool free (u, w)"
    and run: "unbind_context E R ad client selector (u, w) = (r, s')"
  shows "case spec_step E (vu_info u) (Detach ad client selector) (view V (u, w)) of
      Ok m \<Rightarrow> view V s' = m \<and> tables_inv E V R b pool free s' \<and> vu_info (fst s') = vu_info u
    | Err e \<Rightarrow> r = Err e \<and> s' = (u, w)
    | Panic \<Rightarrow> False"
proof (cases "selector \<noteq> Default \<or> other_segment (vu_info u) client \<or> table_of u (pci_bus client) = None")
  case True
  then show ?thesis
    using run by (auto simp: unbind_context_def unit_info_def st_then_def st_bind_def validate_client_eq
        context_table_for_client_run [OF inv] view_eq [OF inv] split: if_splits)
next
  case False
  then obtain t where t: "table_of u (pci_bus client) = Some t" by auto
  have run: "st_then (on_regs (write_context_entry E t client disabled)) (
      st_then (unit_invalidate_context_device E R client) (invalidate_iotlb_domain E R (vd_id ad)))
      (u, w) = (r, s')"
    using run False t by (simp add: unbind_context_def unit_info_def st_then_def validate_client_eq)
      (simp add: st_bind_def context_table_for_client_run [OF inv])
  have "shown disabled = None" by (simp add: shown_def context_present_def disabled_def)
  with update_entry_step [OF run [unfolded unit_invalidate_context_device_def] inv t] show ?thesis
    using False by (simp add: view_eq [OF inv])
qed

lemma request_step_run:
  assumes inv: "tables_inv E V R b pool free (u, w)" and fresh: "request_tables q \<subseteq> free"
    and run: "request_step E R q (u, w) = (r, s')"
  shows "case spec_step E (vu_info u) q (view V (u, w)) of
      Ok m \<Rightarrow> view V s' = m \<and> tables_inv E V R b pool (free - request_tables q) s' \<and> vu_info (fst s') = vu_info u
    | Err e \<Rightarrow> r = Err e \<and> s' = (u, w)
    | Panic \<Rightarrow> False"
proof (cases q)
  case (InstallTable bus t)
  then show ?thesis using install_run [OF inv, of t bus r s'] fresh run by simp
next
  case (Attach ad g)
  from bind_run [OF inv run [unfolded Attach request_step.simps]] show ?thesis
    unfolding Attach request_tables.simps Diff_empty .
next
  case (Detach ad client selector)
  from unbind_run [OF inv run [unfolded Detach request_step.simps]] show ?thesis
    unfolding Detach request_tables.simps Diff_empty .
qed

text \<open>Requests in a row, each issued whatever the ones before returned.\<close>

fun run_requests ::
    "ext_ops \<Rightarrow> 'd world mapping \<Rightarrow> table_request list \<Rightarrow> vtd_unit \<times> 'd world \<Rightarrow> vtd_unit \<times> 'd world" where
  "run_requests E R [] s = s"
| "run_requests E R (q # qs) s = run_requests E R qs (snd (request_step E R q s))"

fun spec_run :: "ext_ops \<Rightarrow> vtd_info \<Rightarrow> table_request list \<Rightarrow> requester_map \<Rightarrow> requester_map" where
  "spec_run E info [] m = m"
| "spec_run E info (q # qs) m =
     spec_run E info qs (case spec_step E info q m of Ok m' \<Rightarrow> m' | Err e \<Rightarrow> m | Panic \<Rightarrow> m)"

text \<open>Every request to install a table brings one that was not used before.\<close>

fun tables_fresh :: "context_table set \<Rightarrow> table_request list \<Rightarrow> bool" where
  "tables_fresh free [] \<longleftrightarrow> True"
| "tables_fresh free (q # qs) \<longleftrightarrow> request_tables q \<subseteq> free \<and> tables_fresh (free - request_tables q) qs"

lemma tables_inv_mono:
  "tables_inv E V R b pool free s \<Longrightarrow> free' \<subseteq> free \<Longrightarrow> tables_inv E V R b pool free' s"
  unfolding tables_inv_def Let_def by blast

lemma run_requests_view:
  assumes "tables_inv E V R b pool free s" and "tables_fresh free qs"
  shows "view V (run_requests E R qs s) = spec_run E (vu_info (fst s)) qs (view V s)"
  using assms
proof (induction qs arbitrary: free s)
  case (Cons q qs)
  obtain u w where s: "s = (u, w)" by (rule prod.exhaust)
  obtain r s' where run: "request_step E R q (u, w) = (r, s')" by (rule prod.exhaust)
  have inv: "tables_inv E V R b pool free (u, w)" and fresh: "request_tables q \<subseteq> free"
    and rest: "tables_fresh (free - request_tables q) qs"
    using Cons.prems by (simp_all add: s)
  note step = request_step_run [OF inv fresh run]
  show ?case
  proof (cases "spec_step E (vu_info u) q (view V (u, w))")
    case (Ok m)
    then show ?thesis using step Cons.IH [OF _ rest, of s'] by (simp add: s run)
  next
    case (Err e)
    then show ?thesis
      using step Cons.IH [OF tables_inv_mono [OF inv Diff_subset] rest] by (simp add: s run)
  qed (use step in simp)
qed simp

text \<open>What the specification grants: an entry comes from an accepted binding of its requester.\<close>

definition granted_by :: "ext_ops \<Rightarrow> vtd_info \<Rightarrow> table_request \<Rightarrow> bdf \<Rightarrow> words128 \<Rightarrow> bool" where
  "granted_by E info q c e \<longleftrightarrow>
     (case q of Attach ad g \<Rightarrow> pci_bdf (b_client g) = c \<and> \<not> other_segment info (b_client g) \<and>
        \<not> other_domain ad g \<and> context_from_binding E g (vi_ecap info) = Ok e | _ \<Rightarrow> False)"

lemma spec_step_grants:
  assumes "spec_step E info q m = Ok m'" and "qm_entry m' c = Some e"
  shows "qm_entry m c = Some e \<or> granted_by E info q c e"
  using assms by (cases q) (auto simp: granted_by_def shown_def res_bind_Ok_iff split: if_splits)

lemma spec_run_grants:
  "qm_entry (spec_run E info qs m) c = Some e \<Longrightarrow>
     qm_entry m c = Some e \<or> (\<exists>q \<in> set qs. granted_by E info q c e)"
proof (induction qs arbitrary: m)
  case (Cons q qs)
  then show ?case
    using spec_step_grants [of E info q m _ c e] by (fastforce split: res.splits)
qed simp

section \<open>Properties\<close>

text \<open>C4. The tables in memory refine the map of requesters. Installing a context table, attaching and
  detaching a requester act on what the hardware finds, by physical address through the root table,
  as the specification says: a refused request returns its error and changes nothing; an accepted
  one changes the entry of its requester, or of the requesters of its bus, to the specified value and
  no other, keeps the invariant, and does so whatever the invalidations behind it return.\<close>

theorem table_requests_refine:
  assumes "tables_inv E V R b pool free (u, w)" and "request_tables q \<subseteq> free"
    and "request_step E R q (u, w) = (r, s')"
  shows "case spec_step E (vu_info u) q (view V (u, w)) of
      Ok m \<Rightarrow> view V s' = m \<and> tables_inv E V R b pool (free - request_tables q) s' \<and> vu_info (fst s') = vu_info u
    | Err e \<Rightarrow> r = Err e \<and> s' = (u, w)
    | Panic \<Rightarrow> False"
  using assms by (rule request_step_run)

definition wit_lookup_ring :: command_queue_backing where
  "wit_lookup_ring = wit_ring\<lparr>cqb_phys := \<lparr>r_start = 20480, r_end = 24576\<rparr>\<rparr>"

definition wit_lookup_unit :: vtd_unit where
  "wit_lookup_unit = wit_unit\<lparr>vu_queue := (cq_new 256)\<lparr>cq_backing := Some wit_lookup_ring\<rparr>\<rparr>"

text \<open>The root table is at 4096 and seen at 131072, the context table at 12288 and seen at 196608.\<close>

definition wit_seen :: "phys_addr \<Rightarrow> virt_addr" where
  "wit_seen p = (if p < 12288 then p + 126976 else p + 184320)"

lemma wit_tables_inv:
  "tables_inv std_ext wit_seen (traced wit_window ans) wit_lookup_ring {wit_table} {wit_table} (wit_lookup_unit, wit_world)"
proof -
  have ring: "cqb_ok std_ext wit_lookup_ring"
    by (simp add: cqb_ok_def wit_lookup_ring_def wit_ring_def std_ext_ok valid_range_def usize_bound_def
        is_power_of_two_def)
  have pages: "page_table_ok std_ext wit_seen wit_table"
      "page_table_ok std_ext wit_seen (vu_root_table wit_lookup_unit)"
    by (simp_all add: page_table_ok_def dtb_ok_def wit_table_def wit_lookup_unit_def wit_unit_def vtd_unit_new_def
        wit_seen_def std_ext_ok valid_range_def usize_bound_def is_power_of_two_def)
  have zero: "read_128 a wit_world = disabled" for a
    by (simp add: read_128_def load64_def wit_world_def disabled_def upt_rec)
  have none: "table_of wit_lookup_unit bus = None" for bus
    using unsigned_less [of bus, where ?'a = nat]
    by (simp add: wit_lookup_unit_def wit_unit_def vtd_unit_new_def ROOT_ENTRY_COUNT_def)
  have "layout_ok std_ext wit_seen (traced wit_window ans) wit_lookup_ring (vu_root_table wit_lookup_unit) {wit_table}"
    using ring pages by (auto simp: layout_ok_def traced_registers_only dtb_bytes_def ring_bytes_def
        wit_table_def wit_lookup_ring_def wit_ring_def wit_lookup_unit_def wit_unit_def vtd_unit_new_def)
  then show ?thesis
    by (simp add: tables_inv_def Let_def zero none) (simp add: wit_lookup_unit_def wit_unit_def vtd_unit_new_def
        disabled_def root_context_table_def root_present_def context_present_def)
qed

lemma table_requests_refine_witness:
  "\<exists>r s'. request_step std_ext (traced wit_window (\<lambda>_ _. 0)) (InstallTable 0 wit_table) (wit_lookup_unit, wit_world) = (r, s') \<and>
     qm_buses (view wit_seen s') = insert 0 (qm_buses (view wit_seen (wit_lookup_unit, wit_world)))"
proof -
  obtain r s' where run: "request_step std_ext (traced wit_window (\<lambda>_ _. 0)) (InstallTable 0 wit_table)
      (wit_lookup_unit, wit_world) = (r, s')" by (rule prod.exhaust)
  show ?thesis using table_requests_refine [OF wit_tables_inv _ run] run by simp
qed

text \<open>C3. Isolation. On a unit without context tables, after any requests, each issued whatever the ones
  before returned and each table installed once and blank, the hardware finds for every requester
  what the specification computes from the requests alone; and an entry it finds was built from a
  binding that names this requester, was in the unit's segment and in the domain of its controller.
  A requester that nobody attached finds nothing.\<close>

theorem requesters_isolated:
  assumes "tables_inv E V R b pool free (u, w)" and "\<forall>bus. table_of u bus = None" and "tables_fresh free qs"
  shows "qm_entry (view V (run_requests E R qs (u, w))) =
      qm_entry (spec_run E (vu_info u) qs \<lparr>qm_entry = (\<lambda>c. None), qm_buses = {}\<rparr>) \<and>
    (\<forall>c e. qm_entry (view V (run_requests E R qs (u, w))) c = Some e \<longrightarrow>
       (\<exists>q \<in> set qs. granted_by E (vu_info u) q c e))"
proof -
  have "view V (u, w) = \<lparr>qm_entry = (\<lambda>c. None), qm_buses = {}\<rparr>"
    using assms(2) by (simp add: view_eq [OF assms(1)])
  then show ?thesis
    using run_requests_view [OF assms(1,3)] spec_run_grants by fastforce
qed

definition wit_requests :: "table_request list" where
  "wit_requests = [InstallTable 0 wit_table,
     Attach wit_domain \<lparr>b_client = wit_client, b_selector = Default, b_target = ToDomain wit_domain\<rparr>]"

lemma wit_entry:
  "\<exists>e. context_from_binding std_ext \<lparr>b_client = wit_client, b_selector = Default, b_target = ToDomain wit_domain\<rparr> cap = Ok e \<and>
     context_present e"
proof -
  have "vd_root wit_domain < 2 ^ 52" "4096 dvd vd_root wit_domain" by (simp_all add: wit_domain_def)
  then show ?thesis
    using domain_entry [of wit_domain, OF _ _ refl] context_from_domain_Ok [OF std_ext_ok, of wit_domain]
    by (simp add: context_from_binding_def domain_entry_ok_def)
qed

lemma requesters_isolated_witness:
  "\<exists>e. context_present e \<and>
     qm_entry (view wit_seen (run_requests std_ext (traced wit_window (\<lambda>_ _. 0)) wit_requests (wit_lookup_unit, wit_world))) =
     [pci_bdf wit_client \<mapsto> e]"
proof -
  obtain e where e: "context_from_binding std_ext
      \<lparr>b_client = wit_client, b_selector = Default, b_target = ToDomain wit_domain\<rparr>
      (vi_ecap (vu_info wit_lookup_unit)) = Ok e" "context_present e"
    using wit_entry by blast
  have none: "\<forall>bus. table_of wit_lookup_unit bus = None"
    using unsigned_less [where ?'b = 8 and ?'a = nat]
    by (simp add: wit_lookup_unit_def wit_unit_def vtd_unit_new_def ROOT_ENTRY_COUNT_def)
  have fresh: "tables_fresh {wit_table} wit_requests" by (simp add: wit_requests_def)
  have seg: "ii_segment (vi_base (vu_info wit_lookup_unit)) = None"
    by (simp add: wit_lookup_unit_def wit_unit_def vtd_unit_new_def vtd_info_from_registers_def)
  have bus: "pci_bus wit_client = 0"
    by (simp add: wit_client_def pci_fields_of_bdf bdf_bus_def)
  have "qm_entry (spec_run std_ext (vu_info wit_lookup_unit) wit_requests \<lparr>qm_entry = (\<lambda>c. None), qm_buses = {}\<rparr>) =
      [pci_bdf wit_client \<mapsto> e]"
    using e by (simp add: wit_requests_def other_segment_def seg other_domain_def bus shown_def fun_eq_iff)
  then show ?thesis
    using e(2) requesters_isolated [OF wit_tables_inv none fresh] by metis
qed

end
