(* ===== verification/Vtd_Remap.thy ===== *)
theory Vtd_Remap
  imports Vtd_Lookup
begin

text \<open>
  What an interrupt finds. A remapped message selects an entry of the interrupt-remapping table;
  \<open>hw_interrupt_entry\<close> is the selection that the VT-d specification prescribes, from the bits of
  the message and the memory of the table. It is compared with the entry that
  \<open>compose_interrupt_remap\<close> writes.
\<close>

section \<open>The selection of the hardware\<close>

definition hw_handle :: "u64 \<Rightarrow> usize" where
  "hw_handle a = unat (take_bit 15 (drop_bit 5 a)) + (if bit a 2 then 2 ^ 15 else 0)"

text \<open>With sub-handle valid (bit 3) the index is the sum of the handle and the sub-handle in the data.\<close>

definition hw_interrupt_index :: "msi_message \<Rightarrow> usize" where
  "hw_interrupt_index m =
     hw_handle (msi_address m) + (if bit (msi_address m) 3 then unat (take_bit 16 (msi_data m)) else 0)"

definition hw_interrupt_entry ::
    "(phys_addr \<Rightarrow> virt_addr) \<Rightarrow> interrupt_remap_table \<Rightarrow> 'd world \<Rightarrow> msi_message \<Rightarrow> words128 option" where
  "hw_interrupt_entry V t w m =
     (if bit (msi_address m) 4 \<and> hw_interrupt_index m < dtb_entry_count t
      then let e = read_128 (V (r_start (dtb_phys t) + hw_interrupt_index m * 16)) w
           in if irte_present e then Some e else None
      else None)"

lemma hw_handle_remapped: "hw_handle (msi_address (remapped_msi_message entry subhandle)) = unat entry"
proof -
  have low: "take_bit 15 (drop_bit 5 (msi_address (remapped_msi_message entry subhandle))) = ucast (take_bit 15 entry)"
    by (rule bit_word_eqI) (auto simp: bit_simps remapped_message_bits MSI_ADDRESS_BASE_bit)
  have top: "bit (msi_address (remapped_msi_message entry subhandle)) 2 \<longleftrightarrow> bit entry 15"
    by (simp add: remapped_message_bits MSI_ADDRESS_BASE_bit)
  have "unat entry = unat (take_bit 15 entry) + (if bit entry 15 then 2 ^ 15 else 0)"
  proof -
    have "take_bit 16 (unat entry) = unat entry"
      by (rule take_bit_nat_eq_self) (use unsigned_less [of entry, where ?'a = nat] in simp)
    then have "unat entry = take_bit (Suc 15) (unat entry)" by simp
    also have "\<dots> = take_bit 15 (unat entry) + (if bit (unat entry) 15 then 2 ^ 15 else 0)"
      by (simp only: take_bit_Suc_from_most) simp
    finally show ?thesis by (simp add: unsigned_take_bit_eq bit_unsigned_iff)
  qed
  moreover have "unat (ucast (take_bit 15 entry) :: u64) = unat (take_bit 15 entry)"
    using unsigned_less [of "take_bit 15 entry", where ?'a = nat] by (simp add: unat_ucast_mod)
  ultimately show ?thesis unfolding hw_handle_def low top by simp
qed

lemma hw_interrupt_index_remapped:
  "hw_interrupt_index (remapped_msi_message entry subhandle) = unat entry + unat subhandle"
proof -
  have "take_bit 16 (ucast subhandle :: u32) = ucast subhandle"
    by (rule bit_word_eqI) (auto simp: bit_simps dest: bit_imp_le_length)
  moreover have "unat (ucast subhandle :: u32) = unat subhandle"
    using unsigned_less [of subhandle, where ?'a = nat] by (simp add: unat_ucast_mod)
  ultimately show ?thesis
    by (simp add: hw_interrupt_index_def hw_handle_remapped remapped_message_bits)
      (simp add: remapped_msi_message_def)
qed

section \<open>Composing a remapped interrupt\<close>

definition remap_entry_at :: "interrupt_remap_table \<Rightarrow> usize \<Rightarrow> virt_addr" where
  "remap_entry_at t k = r_start (dtb_virt t) + k * 16"

text \<open>An accepted table that the driver sees as a whole and that does not share memory with the ring.\<close>

definition remap_ok ::
    "ext_ops \<Rightarrow> (phys_addr \<Rightarrow> virt_addr) \<Rightarrow> 'd world mapping \<Rightarrow> command_queue_backing \<Rightarrow>
     interrupt_remap_table \<Rightarrow> bool" where
  "remap_ok E V R b t \<longleftrightarrow>
     registers_only R \<and> cqb_ok E b \<and> dtb_ok E 16 t \<and> dtb_bytes t \<inter> ring_bytes b = {} \<and>
     (\<forall>k < dtb_entry_count t. V (r_start (dtb_phys t) + k * 16) = remap_entry_at t k)"

lemma remap_entry_cells:
  assumes "remap_ok E V R b t" and "k < dtb_entry_count t"
  shows "{remap_entry_at t k ..< remap_entry_at t k + 16} \<subseteq> dtb_bytes t"
    and "remap_entry_at t k \<le> a \<Longrightarrow> a < remap_entry_at t k + 16 \<Longrightarrow> a \<notin> ring_bytes b"
proof -
  show cells: "{remap_entry_at t k ..< remap_entry_at t k + 16} \<subseteq> dtb_bytes t"
    using dtb.cells_in_range [of E 16 t k] assms
    by (simp add: remap_ok_def dtb.cells_def remap_entry_at_def dtb_bytes_def)
  assume "remap_entry_at t k \<le> a" "a < remap_entry_at t k + 16"
  then have "a \<in> dtb_bytes t" using cells by auto
  then show "a \<notin> ring_bytes b" using assms(1) by (auto simp: remap_ok_def)
qed

lemma irt_entry_vaddr_eq:
  assumes "remap_ok E V R b t"
  shows "irt_entry_vaddr E t entry = (if unat entry < dtb_entry_count t then Ok (remap_entry_at t (unat entry)) else Err ErrInvalidRange)"
proof (cases "unat entry < dtb_entry_count t")
  case True
  then show ?thesis
    using dtb.entry_addr_Ok [of E 16 t "unat entry"] assms
    by (simp add: irt_entry_vaddr_def remap_ok_def remap_entry_at_def INTERRUPT_REMAP_ENTRY_BYTES_def)
qed (simp add: irt_entry_vaddr_def dtb_entry_vaddr_def)

lemma window_submit_memory:
  assumes run: "window_submit E R d (q, w) = (r, (q', w'))"
    and b: "cqb_ok E b" "registers_only R" "cq_backing q = Some b"
  shows "mem_is (- ring_bytes b) (w_mem w) w'"
proof -
  have "keeps (queue_keeps b (mem_is (- ring_bytes b) (w_mem w))) (window_submit E R d)"
    unfolding window_submit_def write_invalidate_queue_tail_def
    by (rule submit_with_keeps [OF b(1,2)]) (simp, rule keeps_registers [OF b(2)])
  from this run have "queue_keeps b (mem_is (- ring_bytes b) (w_mem w)) (q', w')"
    by (rule keepsD) (use b in \<open>simp add: queue_keeps_def mem_is_def\<close>)
  then show ?thesis by (simp add: queue_keeps_def)
qed

text \<open>What a call leaves in the table.\<close>

lemma compose_entries:
  assumes ok: "remap_ok E V R b t" and bk: "cq_backing q = Some b"
    and run: "compose_interrupt_remap E R t entry subhandle remap (q, w) = (r, (q', w'))"
    and i: "unat entry < dtb_entry_count t" and k: "k < dtb_entry_count t"
  shows "read_128 (remap_entry_at t k) w' = (if k = unat entry then remap else read_128 (remap_entry_at t k) w)"
proof -
  let ?w1 = "write_128 (remap_entry_at t (unat entry)) (w_low remap) (w_high remap) w"
  have "st_then (window_submit E R (qi_interrupt_entry_cache entry)) (st_ret (remapped_msi_new entry subhandle)) (q, ?w1) =
      (r, (q', w'))"
    using run i by (simp add: compose_interrupt_remap_def st_then_def st_bind_def on_window_def
        write_interrupt_remap_entry_def write_entry_at_def irt_entry_vaddr_eq [OF ok])
  then obtain r1 where "window_submit E R (qi_interrupt_entry_cache entry) (q, ?w1) = (r1, (q', w'))"
    by (auto simp: st_then_def st_bind_def split: prod.splits res.splits)
  from window_submit_memory [OF this _ _ bk] ok have "mem_is (- ring_bytes b) (w_mem ?w1) w'"
    by (simp add: remap_ok_def)
  then have "read_128 (remap_entry_at t k) w' = read_128 (remap_entry_at t k) ?w1"
    using remap_entry_cells(2) [OF ok k] by (intro read_128_cong) (simp add: mem_is_def)
  moreover have "remap_entry_at t k + 16 \<le> remap_entry_at t (unat entry) \<or>
      remap_entry_at t (unat entry) + 16 \<le> remap_entry_at t k" if "k \<noteq> unat entry"
    using that unfolding remap_entry_at_def by linarith
  ultimately show ?thesis by auto
qed

lemma compose_Ok:
  "compose_interrupt_remap E R t entry subhandle remap s = (Ok msi, s') \<Longrightarrow> msi = remapped_msi_new entry subhandle"
  by (auto simp: compose_interrupt_remap_def st_then_def st_bind_def split: prod.splits res.splits)

section \<open>Properties\<close>

text \<open>C10. Which entry a composed interrupt finds. An index outside the table is refused and changes
  nothing. Otherwise the call writes the entry at its index and no other, whatever the invalidation
  returns, and the message it returns selects the entry at the sum of the index and the
  sub-handle. So with sub-handle 0 the interrupt finds the entry written, when it is present;
  with any other sub-handle it does not: it finds what was before at the index plus the sub-handle,
  and nothing beyond the end of the table.\<close>

theorem composed_interrupt_finds:
  assumes "remap_ok E V R b t" and "cq_backing q = Some b"
    and "compose_interrupt_remap E R t entry subhandle remap (q, w) = (r, (q', w'))"
  shows "if dtb_entry_count t \<le> unat entry then r = Err ErrInvalidRange \<and> q' = q \<and> w' = w
    else (\<forall>k < dtb_entry_count t. read_128 (remap_entry_at t k) w' =
        (if k = unat entry then remap else read_128 (remap_entry_at t k) w)) \<and>
      (\<forall>msi. r = Ok msi \<longrightarrow> hw_interrupt_entry V t w' (rm_message msi) =
        (let k = unat entry + unat subhandle;
             e = if subhandle = 0 then remap else read_128 (remap_entry_at t k) w
         in if k < dtb_entry_count t \<and> irte_present e then Some e else None))"
proof (cases "unat entry < dtb_entry_count t")
  case True
  note entries = compose_entries [OF assms True]
  have "hw_interrupt_entry V t w' (rm_message msi) =
        (let k = unat entry + unat subhandle;
             e = if subhandle = 0 then remap else read_128 (remap_entry_at t k) w
         in if k < dtb_entry_count t \<and> irte_present e then Some e else None)" if "r = Ok msi" for msi
  proof -
    have msg: "rm_message msi = remapped_msi_message entry subhandle"
      using compose_Ok [OF assms(3) [unfolded that]] by (simp add: remapped_msi_new_def)
    have fmt: "bit (msi_address (remapped_msi_message entry subhandle)) 4" by (simp add: remapped_message_bits)
    define k where "k = unat entry + unat subhandle"
    have k: "k = unat entry \<longleftrightarrow> subhandle = 0" "hw_interrupt_index (remapped_msi_message entry subhandle) = k"
      by (simp_all add: k_def unat_eq_0 hw_interrupt_index_remapped)
    show ?thesis
    proof (cases "k < dtb_entry_count t")
      case True
      then have "V (r_start (dtb_phys t) + k * 16) = remap_entry_at t k"
        using assms(1) by (simp add: remap_ok_def)
      then show ?thesis
        using entries [OF True] True by (simp add: hw_interrupt_entry_def msg fmt k flip: k_def)
    qed (simp add: hw_interrupt_entry_def msg fmt k flip: k_def)
  qed
  then show ?thesis using True entries by simp
next
  case False
  then show ?thesis
    using assms(3) by (auto simp: compose_interrupt_remap_def st_then_def st_bind_def on_window_def
        write_interrupt_remap_entry_def write_entry_at_def irt_entry_vaddr_eq [OF assms(1)])
qed

lemma wit_remap_ok: "remap_ok std_ext wit_seen (traced wit_window ans) wit_lookup_ring wit_table"
  by (auto simp: remap_ok_def traced_registers_only cqb_ok_def dtb_ok_def wit_lookup_ring_def wit_ring_def wit_table_def
      std_ext_ok valid_range_def usize_bound_def is_power_of_two_def dtb_bytes_def ring_bytes_def wit_seen_def
      remap_entry_at_def)

lemma composed_interrupt_finds_witness:
  "\<exists>r q' w'. compose_interrupt_remap std_ext (traced wit_window (\<lambda>_ _. 0)) wit_table 3 1 context_pass_through
       (vu_queue wit_lookup_unit, wit_world) = (r, (q', w')) \<and>
     read_128 (remap_entry_at wit_table 3) w' = context_pass_through \<and>
     (\<forall>msi. r = Ok msi \<longrightarrow> hw_interrupt_entry wit_seen wit_table w' (rm_message msi) = None)"
proof -
  obtain r q' w' where run: "compose_interrupt_remap std_ext (traced wit_window (\<lambda>_ _. 0)) wit_table 3 1
      context_pass_through (vu_queue wit_lookup_unit, wit_world) = (r, (q', w'))" by (metis prod.collapse)
  have count: "dtb_entry_count wit_table = 256" by (simp add: wit_table_def)
  have "cq_backing (vu_queue wit_lookup_unit) = Some wit_lookup_ring" by (simp add: wit_lookup_unit_def)
  note found = composed_interrupt_finds [OF wit_remap_ok this run]
  have "read_128 a wit_world = disabled" for a
    by (simp add: read_128_def load64_def wit_world_def disabled_def upt_rec)
  then have "\<not> irte_present (read_128 a wit_world)" for a by (simp add: irte_present_def disabled_def)
  then show ?thesis using found run by (simp add: count)
qed

end
