(* ===== verification/Vtd_Window.thy ===== *)
theory Vtd_Window
  imports Vtd_Registers Addr
begin

text \<open>
  The operations of \<open>VtdRegisterWindow\<close> that the unit does not go through: the read-modify-write
  helpers, the window as a range of MMIO addresses and the table accesses of its interface.
\<close>

section \<open>Read-modify-write\<close>

text \<open>\<open>M\<close> stands for \<open>modify_vo32\<close> and \<open>modify_vo64\<close> of \<open>kore_memory::Mapping\<close>.\<close>

definition modify32 ::
    "(usize \<Rightarrow> (u32 \<Rightarrow> u32) \<Rightarrow> (u32, paging_error, 'w) st) \<Rightarrow> usize \<Rightarrow> (u32 \<Rightarrow> u32) \<Rightarrow> (u32, error, 'w) st" where
  "modify32 M offset f = st_map_err error_from_paging (M offset f)"

definition modify64 ::
    "(usize \<Rightarrow> (u64 \<Rightarrow> u64) \<Rightarrow> (u64, paging_error, 'w) st) \<Rightarrow> usize \<Rightarrow> (u64 \<Rightarrow> u64) \<Rightarrow> (u64, error, 'w) st" where
  "modify64 M offset f = st_map_err error_from_paging (M offset f)"

text \<open>
  A helper that reads, applies the function and writes is the composition of the accessors of the
  window, with the new value as answer.
\<close>

lemma modify_composed:
  assumes "\<And>offset f. M offset f = st_bind (mp_read32 R offset) (\<lambda>v.
    st_then (mp_write32 R offset (f v)) (st_ret (f v)))"
  shows "modify32 M offset f = st_bind (read32 R offset) (\<lambda>v. st_then (write32 R offset (f v)) (st_ret (f v)))"
  by (rule ext) (auto simp: modify32_def assms read32_def write32_def st_map_err_def st_bind_def st_then_def
      split: prod.splits res.splits)

section \<open>The window as MMIO addresses\<close>

text \<open>\<open>AddrRange::from_start_size\<close> panics when the end overflows.\<close>

definition window_mmio_range :: "ext_ops \<Rightarrow> 'w mapping \<Rightarrow> (addr_range, 'e) res" where
  "window_mmio_range E R =
     (case range_try_from_start_size E (mp_paddr R) (range_size E (mp_range R)) of
        None \<Rightarrow> Panic
      | Some phys \<Rightarrow> mmio_from_phys_range phys)"

lemma from_usize_Usize: "v < usize_bound \<Longrightarrow> from_usize Usize v = Ok v"
  by (simp add: from_usize_def usize_bound_def)

lemma window_mmio_range_eq:
  assumes "ext_ok E" and "valid_range (mp_range R)"
  shows "window_mmio_range E R =
    (let end' = mp_paddr R + (r_end (mp_range R) - r_start (mp_range R))
     in if end' < usize_bound then Ok \<lparr>r_start = mp_paddr R, r_end = end'\<rparr> else Panic)"
  using assms by (simp add: window_mmio_range_def ext_ok_simps Let_def mmio_from_phys_range_def mmio_from_phys_def
      from_usize_Usize)

section \<open>Tables through the window\<close>

definition window_write_root_entry ::
    "ext_ops \<Rightarrow> root_table \<Rightarrow> u8 \<Rightarrow> words128 \<Rightarrow> (unit, error, 'd world) st" where
  "window_write_root_entry E t bus e = write_root_entry E t bus e"

definition window_read_root_entry :: "ext_ops \<Rightarrow> root_table \<Rightarrow> u8 \<Rightarrow> (words128, error, 'd world) st" where
  "window_read_root_entry E t bus = read_root_entry E t bus"

definition window_write_context_entry ::
    "ext_ops \<Rightarrow> context_table \<Rightarrow> pci_device \<Rightarrow> words128 \<Rightarrow> (unit, error, 'd world) st" where
  "window_write_context_entry E t client e = write_context_entry E t client e"

definition window_read_context_entry ::
    "ext_ops \<Rightarrow> context_table \<Rightarrow> pci_device \<Rightarrow> (words128, error, 'd world) st" where
  "window_read_context_entry E t client = read_context_entry E t client"

definition window_write_interrupt_remap_entry ::
    "ext_ops \<Rightarrow> interrupt_remap_table \<Rightarrow> u16 \<Rightarrow> words128 \<Rightarrow> (unit, error, 'd world) st" where
  "window_write_interrupt_remap_entry E t entry e = write_interrupt_remap_entry E t entry e"

text \<open>An entry written is the entry read, in every table.\<close>

lemma window_write_then_read:
  assumes "dtb_ok E ROOT_ENTRY_BYTES t" and "dtb_entry_count t = ROOT_ENTRY_COUNT"
  shows "fst (st_then (window_write_root_entry E t bus e) (window_read_root_entry E t bus) w) = Ok e"
proof -
  have "unat bus < 2 ^ LENGTH(8)" by (rule unsigned_less)
  then have "unat bus < dtb_entry_count t" using assms(2) by (simp add: ROOT_ENTRY_COUNT_def)
  from dtb.entry_addr_Ok [OF assms(1) this] show ?thesis
    by (simp add: window_write_root_entry_def window_read_root_entry_def write_root_entry_def read_root_entry_def
        root_entry_vaddr_def write_entry_at_def read_entry_at_def st_then_def st_bind_def st_gets_def)
qed

end
