(* ===== verification/Firm_Table.thy ===== *)
theory Firm_Table
  imports Errors Addr
begin

text \<open>
  What the ACPI table parsers (DMAR, IVRS, IORT) share: validating and cutting the table, bounded
  little-endian reads, register windows, and loops over the records of a table. Each parser of the
  source has its own copy of these helpers that differs in the messages only; the messages are
  arguments here. Offsets are computed on slices, whose length the language bounds far below
  \<open>2 ^ 64\<close>, so adding a record's length to an offset inside a slice does not overflow.
\<close>

section \<open>The table\<close>

definition table_bytes :: "ext_ops \<Rightarrow> string \<Rightarrow> string \<Rightarrow> string \<Rightarrow> u8 list \<Rightarrow> (u8 list, firm_error) res" where
  "table_bytes E signature short_header short_table bytes =
     (if length bytes < sdt_header_size E then Err (FirmMalformed short_header)
      else if sdt_signature E bytes \<noteq> signature then Err (FirmAcpi (SdtInvalidSignature signature))
      else
        let len = unat (sdt_length E bytes)
        in if len < sdt_header_size E \<or> length bytes < len then Err (FirmMalformed short_table)
           else case sdt_validate E bytes signature of
                  Some e \<Rightarrow> Err (FirmAcpi e)
                | None \<Rightarrow> slice bytes 0 len)"

section \<open>Reads\<close>

definition read_array :: "string \<Rightarrow> nat \<Rightarrow> u8 list \<Rightarrow> usize \<Rightarrow> string \<Rightarrow> (u8 list, firm_error) res" where
  "read_array overflow N bytes offset message =
     res_bind (ok_or (checked_add_usize offset N) (FirmMalformed overflow)) (\<lambda>end'.
     ok_or (slice_get_range bytes offset end') (FirmMalformed message))"

record read_msgs =
  rm_overflow :: string
  rm_bounds :: string

definition read_u8 :: "read_msgs \<Rightarrow> u8 list \<Rightarrow> usize \<Rightarrow> (u8, firm_error) res" where
  "read_u8 M bytes offset = ok_or (slice_get bytes offset) (FirmMalformed (rm_bounds M))"

definition read_u16 :: "read_msgs \<Rightarrow> u8 list \<Rightarrow> usize \<Rightarrow> (u16, firm_error) res" where
  "read_u16 M bytes offset = res_map word_of_le (read_array (rm_overflow M) 2 bytes offset (rm_bounds M))"

definition read_u32 :: "read_msgs \<Rightarrow> u8 list \<Rightarrow> usize \<Rightarrow> (u32, firm_error) res" where
  "read_u32 M bytes offset = res_map word_of_le (read_array (rm_overflow M) 4 bytes offset (rm_bounds M))"

definition read_u64 :: "read_msgs \<Rightarrow> u8 list \<Rightarrow> usize \<Rightarrow> (u64, firm_error) res" where
  "read_u64 M bytes offset = res_map word_of_le (read_array (rm_overflow M) 8 bytes offset (rm_bounds M))"

text \<open>The bytes of a word of the table, where a read finds it.\<close>

definition field_at :: "u8 list \<Rightarrow> usize \<Rightarrow> nat \<Rightarrow> 'a::len word" where
  "field_at bytes offset n = word_of_le (take n (drop offset bytes))"

lemma read_Ok:
  assumes "length bytes < usize_bound"
  shows "offset < length bytes \<Longrightarrow> read_u8 M bytes offset = Ok (bytes ! offset)"
    and "offset + 2 \<le> length bytes \<Longrightarrow> read_u16 M bytes offset = Ok (field_at bytes offset 2)"
    and "offset + 4 \<le> length bytes \<Longrightarrow> read_u32 M bytes offset = Ok (field_at bytes offset 4)"
    and "offset + 8 \<le> length bytes \<Longrightarrow> read_u64 M bytes offset = Ok (field_at bytes offset 8)"
  using assms
  by (simp_all add: read_u8_def read_u16_def read_u32_def read_u64_def read_array_def field_at_def
      slice_get_def slice_get_range_def checked_add_usize_def)

lemma read_no_panic [simp]:
  "read_u8 M bytes offset \<noteq> Panic" "read_u16 M bytes offset \<noteq> Panic"
  "read_u32 M bytes offset \<noteq> Panic" "read_u64 M bytes offset \<noteq> Panic"
  by (simp_all add: read_u8_def read_u16_def read_u32_def read_u64_def read_array_def
      res_bind_Panic_iff res_map_Panic_iff)

section \<open>Windows and ranges\<close>

definition usize_try_from :: "u64 \<Rightarrow> usize option" where
  "usize_try_from v = (if unat v < usize_bound then Some (unat v) else None)"

lemma usize_try_from_Some [simp]: "usize_try_from v = Some (unat v)"
  by (simp add: usize_try_from_def)

definition mmio_register_window :: "ext_ops \<Rightarrow> u64 \<Rightarrow> usize \<Rightarrow> string \<Rightarrow> string \<Rightarrow> (addr_range, firm_error) res" where
  "mmio_register_window E base sz addr_error range_error =
     res_bind (ok_or (usize_try_from base) (FirmMalformed addr_error)) (\<lambda>b.
     ok_or (mmio_from_start_size E b sz) (FirmMalformed range_error))"

lemma mmio_register_window_Ok_iff:
  assumes "ext_ok E"
  shows "mmio_register_window E base sz ae re = Ok r \<longleftrightarrow>
    unat base + sz < usize_bound \<and> r = \<lparr>r_start = unat base, r_end = unat base + sz\<rparr>"
  by (auto simp: mmio_register_window_def mmio_from_start_size_def ext_ok_try_from_start_size [OF assms] ok_or_Ok_iff)

lemma mmio_register_window_no_panic [simp]: "mmio_register_window E base sz ae re \<noteq> Panic"
  by (simp add: mmio_register_window_def res_bind_Panic_iff)

lemma mmio_window_valid:
  assumes "ext_ok E" and "mmio_register_window E base sz ae re = Ok r"
  shows "r = \<lparr>r_start = unat base, r_end = unat base + sz\<rparr> \<and> valid_range r"
  using assms by (simp add: mmio_register_window_Ok_iff valid_range_def)

section \<open>Loops over records\<close>

text \<open>
  A loop over an iterator of results that stops at the first error: \<open>for x in it { f(x?)?; }\<close>. The
  iterators and the scanning loops of the parsers depend on the table only, so the records they
  see are a list, and the loop is a consumer of it.
\<close>

fun for_each :: "('a \<Rightarrow> (unit, 'e, 's) st) \<Rightarrow> ('a, 'e) res list \<Rightarrow> (unit, 'e, 's) st" where
  "for_each f [] = st_ret ()"
| "for_each f (r # rs) = st_bind (st_lift r) (\<lambda>x. st_then (f x) (for_each f rs))"

text \<open>A loop that succeeds has seen good records only, and each step succeeded.\<close>

lemma for_each_Ok:
  assumes "for_each f rs s = (Ok (), s')"
  shows "\<exists>xs. rs = map Ok xs"
  using assms
proof (induction rs arbitrary: s)
  case (Cons r rs)
  then obtain x t where x: "r = Ok x" "f x s = (Ok (), t)" "for_each f rs t = (Ok (), s')"
    by (auto simp: st_bind_Ok_iff st_then_def)
  with Cons.IH obtain xs where "rs = map Ok xs" by blast
  then show ?case using x by (intro exI [of _ "x # xs"]) simp
qed simp

lemma for_each_invariant:
  assumes "for_each f (map Ok xs) s = (Ok (), s')" and "P [] s"
    and "\<And>ys x s t. P ys s \<Longrightarrow> x \<in> set xs \<Longrightarrow> f x s = (Ok (), t) \<Longrightarrow> P (ys @ [x]) t"
  shows "P xs s'"
proof -
  have "P (ys @ zs) s'" if "for_each f (map Ok zs) t = (Ok (), s')" "P ys t" "set zs \<subseteq> set xs" for ys zs t
    using that
  proof (induction zs arbitrary: ys t)
    case (Cons z zs)
    then obtain t' where t': "f z t = (Ok (), t')" "for_each f (map Ok zs) t' = (Ok (), s')"
      by (auto simp: st_bind_Ok_iff st_then_def)
    have "P (ys @ [z]) t'" using assms(3) Cons.prems t'(1) by simp
    then show ?case using Cons.IH [OF t'(2), of "ys @ [z]"] Cons.prems(3) by simp
  qed simp
  from this [of xs s "[]"] assms(1,2) show ?thesis by simp
qed

lemma for_each_safe:
  assumes "Panic \<notin> set rs" and "I s"
    and "\<And>x s. Ok x \<in> set rs \<Longrightarrow> I s \<Longrightarrow> fst (f x s) \<noteq> Panic \<and> (\<forall>t. f x s = (Ok (), t) \<longrightarrow> I t)"
  shows "fst (for_each f rs s) \<noteq> Panic \<and> (\<forall>t. for_each f rs s = (Ok (), t) \<longrightarrow> I t)"
  using assms
proof (induction rs arbitrary: s)
  case (Cons r rs)
  show ?case
  proof (cases r)
    case (Ok x)
    obtain q t where q: "f x s = (q, t)" by (rule prod.exhaust)
    have step: "q \<noteq> Panic" "q = Ok () \<Longrightarrow> I t" using Cons.prems(2) Cons.prems(3) [of x s] Ok q by auto
    show ?thesis
    proof (cases q)
      case (Ok u)
      have "fst (for_each f rs t) \<noteq> Panic \<and> (\<forall>t'. for_each f rs t = (Ok (), t') \<longrightarrow> I t')"
        using Cons.prems Ok step by (intro Cons.IH) auto
      then show ?thesis using \<open>r = Ok x\<close> Ok q by (simp add: st_then_def st_bind_def)
    qed (use step \<open>r = Ok x\<close> q in \<open>simp_all add: st_then_def st_bind_def\<close>)
  qed (use Cons.prems in simp_all)
qed simp

lemmas for_each_no_panic = for_each_safe [where I = "\<lambda>_. True", simplified]

text \<open>A loop whose steps only update the captured variables is a fold.\<close>

lemma for_each_fold:
  assumes "\<And>x s. x \<in> set xs \<Longrightarrow> f x s = (Ok (), g x s)"
  shows "for_each f (map Ok xs) s = (Ok (), fold g xs s)"
  using assms by (induction xs arbitrary: s) (simp_all add: st_then_def st_bind_def)

text \<open>What a loop leaves in its captured variables, when it does not fail.\<close>

fun run_walk :: "(unit, 'e, 's) st \<Rightarrow> 's \<Rightarrow> ('s, 'e) res" where
  "run_walk m s = (case m s of (Ok x, s') \<Rightarrow> Ok s' | (Err e, s') \<Rightarrow> Err e | (Panic, s') \<Rightarrow> Panic)"

declare run_walk.simps [simp del]

lemma run_walk_Ok_iff [res_iff]: "run_walk m s = Ok s' \<longleftrightarrow> m s = (Ok (), s')"
  by (auto simp: run_walk.simps split: prod.splits res.splits)

lemma run_walk_Panic_iff [res_iff]: "run_walk m s = Panic \<longleftrightarrow> fst (m s) = Panic"
  by (auto simp: run_walk.simps split: prod.splits res.splits)

definition is_Ok :: "('a, 'e) res \<Rightarrow> bool" where
  "is_Ok r = (case r of Ok x \<Rightarrow> True | _ \<Rightarrow> False)"

lemma is_Ok_simps [simp]: "is_Ok (Ok x)" "\<not> is_Ok (Err e)" "\<not> is_Ok Panic"
  by (simp_all add: is_Ok_def)

lemma is_Ok_iff: "is_Ok r \<longleftrightarrow> (\<exists>x. r = Ok x)"
  by (cases r) simp_all

text \<open>The records that parsed.\<close>

definition oks :: "('a, 'e) res list \<Rightarrow> 'a list" where
  "oks rs = concat (map (\<lambda>r. case r of Ok x \<Rightarrow> [x] | _ \<Rightarrow> []) rs)"

lemma oks_simps [simp]:
  "oks [] = []" "oks (Ok x # rs) = x # oks rs" "oks (Err e # rs) = oks rs" "oks (Panic # rs) = oks rs"
  by (simp_all add: oks_def)

lemma oks_map_Ok [simp]: "oks (map Ok xs) = xs"
  by (induction xs) (simp_all add: oks_def)

lemma set_oks: "set (oks rs) = {x. Ok x \<in> set rs}"
  by (induction rs) (auto simp: oks_def split: res.splits)

lemma oks_eq: "\<forall>r \<in> set rs. is_Ok r \<Longrightarrow> rs = map Ok (oks rs)"
  by (induction rs) (auto simp: oks_def is_Ok_iff)

text \<open>
  What makes such a loop end: a scanner that, from an offset below the limit, yields a record and
  a later offset, or an error, after which the loop stops.
\<close>

locale bounded_walk =
  fixes scan :: "'s \<Rightarrow> (('r, 'e) res \<times> 's) option"
    and items :: "'s \<Rightarrow> ('r, 'e) res list"
    and pos :: "'s \<Rightarrow> usize"
    and limit :: usize
  assumes below: "scan s = Some (r, s') \<Longrightarrow> pos s < limit"
    and advances: "scan s = Some (Ok x, s') \<Longrightarrow> pos s < pos s'"
    and items_eq: "items s =
      (case scan s of None \<Rightarrow> [] | Some (r, s') \<Rightarrow> r # (if is_Ok r then items s' else []))"
begin

lemma items_bounded: "length (items s) \<le> limit - pos s"
proof (induction "limit - pos s" arbitrary: s rule: less_induct)
  case less
  show ?case
  proof (cases "scan s")
    case (Some p)
    obtain r s' where p: "p = (r, s')" by (rule prod.exhaust)
    have lim: "pos s < limit" using below Some p by blast
    show ?thesis
    proof (cases r)
      case (Ok x)
      have s': "pos s < pos s'" using advances Some p Ok by blast
      then have "length (items s') \<le> limit - pos s'" using lim by (intro less) simp
      then show ?thesis using s' lim Some p Ok by (subst items_eq) auto
    qed (use lim Some p in \<open>simp_all add: items_eq [of s]\<close>)
  qed (simp add: items_eq [of s])
qed

lemma items_scanned:
  assumes "r \<in> set (items s)"
  shows "\<exists>s1 s2. scan s1 = Some (r, s2) \<and> pos s \<le> pos s1"
  using assms
proof (induction "limit - pos s" arbitrary: s rule: less_induct)
  case less
  obtain r' s' where s: "scan s = Some (r', s')" "r = r' \<or> is_Ok r' \<and> r \<in> set (items s')"
    using less.prems items_eq [of s] by (cases "scan s") (auto split: if_splits)
  show ?case
  proof (cases "r = r'")
    case False
    then have s': "pos s < limit" "pos s < pos s'" "r \<in> set (items s')"
      using below [OF s(1)] advances s by (auto simp: is_Ok_iff)
    then show ?thesis using less.hyps [of s'] by force
  qed (use s in blast)
qed

lemma items_all:
  assumes "\<And>s1 r s2. pos s \<le> pos s1 \<Longrightarrow> scan s1 = Some (r, s2) \<Longrightarrow> P r"
  shows "\<forall>r \<in> set (items s). P r"
  using items_scanned assms by blast

end

end
