(* ===== verification/Dmar.thy ===== *)
theory Dmar
  imports Firm_Table
begin

text \<open>
  \<open>src/arch/x86_64/intel/dmar.rs\<close>: the parser of the ACPI DMAR table and the questions the driver
  asks of it. A table is the byte slice of its SDT. The iterator over the remapping structures and
  the scanner of device scopes are step functions on an offset; the lists of what they yield, up to
  the first error, are what the loops of the code consume.
\<close>

section \<open>Constants and data\<close>

definition DMAR_HOST_ADDRESS_WIDTH_OFFSET :: usize where "DMAR_HOST_ADDRESS_WIDTH_OFFSET = 36"
definition DMAR_FLAGS_OFFSET :: usize where "DMAR_FLAGS_OFFSET = 37"
definition DMAR_STRUCTURES_OFFSET :: usize where "DMAR_STRUCTURES_OFFSET = 48"

definition DMAR_DRHD :: u16 where "DMAR_DRHD = 0"
definition DMAR_RMRR :: u16 where "DMAR_RMRR = 1"
definition DMAR_ATSR :: u16 where "DMAR_ATSR = 2"
definition DMAR_RHSA :: u16 where "DMAR_RHSA = 3"
definition DMAR_ANDD :: u16 where "DMAR_ANDD = 4"
definition DMAR_SATC :: u16 where "DMAR_SATC = 5"
definition DMAR_SIDP :: u16 where "DMAR_SIDP = 6"

definition DRHD_MIN_LENGTH :: usize where "DRHD_MIN_LENGTH = 16"
definition RMRR_MIN_LENGTH :: usize where "RMRR_MIN_LENGTH = 24"
definition ATSR_MIN_LENGTH :: usize where "ATSR_MIN_LENGTH = 8"
definition RHSA_MIN_LENGTH :: usize where "RHSA_MIN_LENGTH = 20"
definition ANDD_MIN_LENGTH :: usize where "ANDD_MIN_LENGTH = 8"
definition SATC_MIN_LENGTH :: usize where "SATC_MIN_LENGTH = 8"
definition SIDP_MIN_LENGTH :: usize where "SIDP_MIN_LENGTH = 8"
definition DEVICE_SCOPE_HEADER_LENGTH :: usize where "DEVICE_SCOPE_HEADER_LENGTH = 6"
definition VTD_REGISTER_WINDOW_SIZE :: usize where "VTD_REGISTER_WINDOW_SIZE = 0x1000"
definition DMAR_REQUESTER_WINDOW_CAPACITY :: usize where "DMAR_REQUESTER_WINDOW_CAPACITY = 16"

lemmas dmar_kinds = DMAR_DRHD_def DMAR_RMRR_def DMAR_ATSR_def DMAR_RHSA_def DMAR_ANDD_def
  DMAR_SATC_def DMAR_SIDP_def

lemmas dmar_lengths = DRHD_MIN_LENGTH_def RMRR_MIN_LENGTH_def ATSR_MIN_LENGTH_def
  RHSA_MIN_LENGTH_def ANDD_MIN_LENGTH_def SATC_MIN_LENGTH_def SIDP_MIN_LENGTH_def
  DEVICE_SCOPE_HEADER_LENGTH_def

definition dmar_msgs :: read_msgs where
  "dmar_msgs = \<lparr>rm_overflow = ''DMAR read offset overflow'',
                rm_bounds = ''DMAR table read is out of bounds''\<rparr>"

record dmar_table =
  dt_sdt :: "u8 list"

record dmar_drhd =
  drhd_flags :: u8
  drhd_segment :: u16
  drhd_registers :: addr_range
  drhd_include_all :: bool
  drhd_has_device_scopes :: bool
  drhd_structure_offset :: usize
  drhd_length :: usize

record dmar_rmrr =
  rmrr_segment :: u16
  rmrr_memory :: addr_range
  rmrr_has_device_scopes :: bool
  rmrr_structure_offset :: usize
  rmrr_length :: usize

record dmar_atsr =
  atsr_flags :: u8
  atsr_segment :: u16
  atsr_include_all :: bool
  atsr_has_device_scopes :: bool
  atsr_structure_offset :: usize
  atsr_length :: usize

record dmar_rhsa =
  rhsa_registers :: addr_range
  rhsa_proximity_domain :: u32

record dmar_andd =
  andd_acpi_device_number :: u8
  andd_object_name :: "u8 list"

record dmar_satc =
  satc_flags :: u8
  satc_segment :: u16
  satc_atc_required :: bool
  satc_has_device_scopes :: bool
  satc_structure_offset :: usize
  satc_length :: usize

record dmar_sidp =
  sidp_segment :: u16
  sidp_has_device_scopes :: bool
  sidp_structure_offset :: usize
  sidp_length :: usize

record dmar_unknown =
  unk_kind :: u16
  unk_offset :: usize
  unk_length :: usize

datatype dmar_structure =
    Drhd dmar_drhd | Rmrr dmar_rmrr | Atsr dmar_atsr | Rhsa dmar_rhsa | Andd dmar_andd
  | Satc dmar_satc | Sidp dmar_sidp | DmarUnknown dmar_unknown

datatype dmar_scope_kind =
  Endpoint | Bridge | IoApic | Hpet | NamespaceDevice | UnknownScope u8

record dmar_scope_path =
  dp_bytes :: "u8 list"

record dmar_path_entry =
  pe_device :: u8
  pe_function :: u8

record dmar_scope =
  sc_kind :: dmar_scope_kind
  sc_flags :: u8
  sc_enumeration_id :: u8
  sc_start_bus :: u8
  sc_path :: dmar_scope_path
  sc_requester :: "bdf_range option"

datatype dmar_requester_match = Covered | NotCovered | Unresolved

section \<open>The table header\<close>

definition dmar_parse :: "ext_ops \<Rightarrow> u8 list \<Rightarrow> (dmar_table, firm_error) res" where
  "dmar_parse E bytes =
     res_bind (table_bytes E ''DMAR'' ''DMAR table shorter than SDT header''
                 ''DMAR table length is invalid'' bytes) (\<lambda>sdt.
     if length sdt < DMAR_STRUCTURES_OFFSET then Err (FirmMalformed ''DMAR table shorter than fixed header'')
     else Ok \<lparr>dt_sdt = sdt\<rparr>)"

definition host_address_width :: "dmar_table \<Rightarrow> (u8, firm_error) res" where
  "host_address_width t = read_u8 dmar_msgs (dt_sdt t) DMAR_HOST_ADDRESS_WIDTH_OFFSET"

definition dmar_flags :: "dmar_table \<Rightarrow> (u8, firm_error) res" where
  "dmar_flags t = read_u8 dmar_msgs (dt_sdt t) DMAR_FLAGS_OFFSET"

section \<open>Remapping structures\<close>

definition inclusive_phys_range :: "ext_ops \<Rightarrow> u64 \<Rightarrow> u64 \<Rightarrow> string \<Rightarrow> string \<Rightarrow> (addr_range, firm_error) res" where
  "inclusive_phys_range E base limit addr_error limit_error =
     res_bind (ok_or (usize_try_from base) (FirmMalformed addr_error)) (\<lambda>b.
     res_bind (ok_or (if unat limit + 1 < 2 ^ 64 then Some (limit + 1) else None) (FirmMalformed limit_error)) (\<lambda>e.
     res_bind (ok_or (usize_try_from e) (FirmMalformed addr_error)) (\<lambda>e'.
     case range_new E b e' of Some r \<Rightarrow> Ok r | None \<Rightarrow> Panic)))"

definition parse_drhd :: "ext_ops \<Rightarrow> dmar_table \<Rightarrow> usize \<Rightarrow> usize \<Rightarrow> (dmar_drhd, firm_error) res" where
  "parse_drhd E t offset len =
     (if len < DRHD_MIN_LENGTH then Err (FirmMalformed ''DMAR DRHD structure shorter than minimum'')
      else
        res_bind (read_u8 dmar_msgs (dt_sdt t) (offset + 4)) (\<lambda>flags.
        res_bind (read_u16 dmar_msgs (dt_sdt t) (offset + 6)) (\<lambda>segment.
        res_bind (read_u64 dmar_msgs (dt_sdt t) (offset + 8)) (\<lambda>base.
        res_bind (mmio_register_window E base VTD_REGISTER_WINDOW_SIZE
                    ''DMAR DRHD register base cannot fit in usize''
                    ''DMAR DRHD register window overflows'') (\<lambda>registers.
        Ok \<lparr>drhd_flags = flags, drhd_segment = segment, drhd_registers = registers,
            drhd_include_all = (flags AND 0x01 \<noteq> 0),
            drhd_has_device_scopes = (DRHD_MIN_LENGTH < len),
            drhd_structure_offset = offset, drhd_length = len\<rparr>)))))"

definition parse_andd :: "dmar_table \<Rightarrow> usize \<Rightarrow> usize \<Rightarrow> (dmar_andd, firm_error) res" where
  "parse_andd t offset len =
     (if len < ANDD_MIN_LENGTH then Err (FirmMalformed ''DMAR ANDD structure shorter than minimum'')
      else
        res_bind (read_u8 dmar_msgs (dt_sdt t) (offset + 7)) (\<lambda>number.
        res_bind (slice (dt_sdt t) (offset + ANDD_MIN_LENGTH) (offset + len)) (\<lambda>name.
        Ok \<lparr>andd_acpi_device_number = number, andd_object_name = name\<rparr>)))"

definition parse_rmrr :: "ext_ops \<Rightarrow> dmar_table \<Rightarrow> usize \<Rightarrow> usize \<Rightarrow> (dmar_rmrr, firm_error) res" where
  "parse_rmrr E t offset len =
     (if len < RMRR_MIN_LENGTH then Err (FirmMalformed ''DMAR RMRR structure shorter than minimum'')
      else
        res_bind (read_u64 dmar_msgs (dt_sdt t) (offset + 8)) (\<lambda>base.
        res_bind (read_u64 dmar_msgs (dt_sdt t) (offset + 16)) (\<lambda>limit.
        if limit < base then Err (FirmMalformed ''DMAR RMRR limit smaller than base'')
        else
          res_bind (read_u16 dmar_msgs (dt_sdt t) (offset + 6)) (\<lambda>segment.
          res_bind (inclusive_phys_range E base limit ''DMAR RMRR address cannot fit in usize''
                      ''DMAR RMRR inclusive limit overflows'') (\<lambda>memory.
          Ok \<lparr>rmrr_segment = segment, rmrr_memory = memory,
              rmrr_has_device_scopes = (RMRR_MIN_LENGTH < len),
              rmrr_structure_offset = offset, rmrr_length = len\<rparr>)))))"

definition parse_atsr :: "dmar_table \<Rightarrow> usize \<Rightarrow> usize \<Rightarrow> (dmar_atsr, firm_error) res" where
  "parse_atsr t offset len =
     (if len < ATSR_MIN_LENGTH then Err (FirmMalformed ''DMAR ATSR structure shorter than minimum'')
      else
        res_bind (read_u8 dmar_msgs (dt_sdt t) (offset + 4)) (\<lambda>flags.
        res_bind (read_u16 dmar_msgs (dt_sdt t) (offset + 6)) (\<lambda>segment.
        Ok \<lparr>atsr_flags = flags, atsr_segment = segment,
            atsr_include_all = (flags AND 0x01 \<noteq> 0),
            atsr_has_device_scopes = (ATSR_MIN_LENGTH < len),
            atsr_structure_offset = offset, atsr_length = len\<rparr>)))"

definition parse_rhsa :: "ext_ops \<Rightarrow> dmar_table \<Rightarrow> usize \<Rightarrow> usize \<Rightarrow> (dmar_rhsa, firm_error) res" where
  "parse_rhsa E t offset len =
     (if len < RHSA_MIN_LENGTH then Err (FirmMalformed ''DMAR RHSA structure shorter than minimum'')
      else
        res_bind (read_u64 dmar_msgs (dt_sdt t) (offset + 8)) (\<lambda>base.
        res_bind (mmio_register_window E base VTD_REGISTER_WINDOW_SIZE
                    ''DMAR RHSA register base cannot fit in usize''
                    ''DMAR RHSA register window overflows'') (\<lambda>registers.
        res_bind (read_u32 dmar_msgs (dt_sdt t) (offset + 16)) (\<lambda>domain.
        Ok \<lparr>rhsa_registers = registers, rhsa_proximity_domain = domain\<rparr>))))"

definition parse_satc :: "dmar_table \<Rightarrow> usize \<Rightarrow> usize \<Rightarrow> (dmar_satc, firm_error) res" where
  "parse_satc t offset len =
     (if len < SATC_MIN_LENGTH then Err (FirmMalformed ''DMAR SATC structure shorter than minimum'')
      else
        res_bind (read_u8 dmar_msgs (dt_sdt t) (offset + 4)) (\<lambda>flags.
        res_bind (read_u16 dmar_msgs (dt_sdt t) (offset + 6)) (\<lambda>segment.
        Ok \<lparr>satc_flags = flags, satc_segment = segment,
            satc_atc_required = (flags AND 0x01 \<noteq> 0),
            satc_has_device_scopes = (SATC_MIN_LENGTH < len),
            satc_structure_offset = offset, satc_length = len\<rparr>)))"

definition parse_sidp :: "dmar_table \<Rightarrow> usize \<Rightarrow> usize \<Rightarrow> (dmar_sidp, firm_error) res" where
  "parse_sidp t offset len =
     (if len < SIDP_MIN_LENGTH then Err (FirmMalformed ''DMAR SIDP structure shorter than minimum'')
      else
        res_bind (read_u16 dmar_msgs (dt_sdt t) (offset + 6)) (\<lambda>segment.
        Ok \<lparr>sidp_segment = segment, sidp_has_device_scopes = (SIDP_MIN_LENGTH < len),
            sidp_structure_offset = offset, sidp_length = len\<rparr>))"

definition parse_structure :: "ext_ops \<Rightarrow> dmar_table \<Rightarrow> usize \<Rightarrow> usize \<Rightarrow> u16 \<Rightarrow> (dmar_structure, firm_error) res" where
  "parse_structure E t offset len kind =
     (if kind = DMAR_DRHD then res_map Drhd (parse_drhd E t offset len)
      else if kind = DMAR_RMRR then res_map Rmrr (parse_rmrr E t offset len)
      else if kind = DMAR_ATSR then res_map Atsr (parse_atsr t offset len)
      else if kind = DMAR_RHSA then res_map Rhsa (parse_rhsa E t offset len)
      else if kind = DMAR_ANDD then res_map Andd (parse_andd t offset len)
      else if kind = DMAR_SATC then res_map Satc (parse_satc t offset len)
      else if kind = DMAR_SIDP then res_map Sidp (parse_sidp t offset len)
      else Ok (DmarUnknown \<lparr>unk_kind = kind, unk_offset = offset, unk_length = len\<rparr>))"

text \<open>One call of the iterator: what it yields, with the offset it continues at.\<close>

definition structure_next :: "ext_ops \<Rightarrow> dmar_table \<Rightarrow> usize \<Rightarrow> ((dmar_structure, firm_error) res \<times> usize) option" where
  "structure_next E t offset =
     (if length (dt_sdt t) \<le> offset then None
      else if length (dt_sdt t) < offset + 4
      then Some (Err (FirmMalformed ''DMAR structure truncated before header''), length (dt_sdt t))
      else case read_u16 dmar_msgs (dt_sdt t) offset of
        Err e \<Rightarrow> Some (Err e, offset)
      | Panic \<Rightarrow> Some (Panic, offset)
      | Ok kind \<Rightarrow>
          (case read_u16 dmar_msgs (dt_sdt t) (offset + 2) of
            Err e \<Rightarrow> Some (Err e, offset)
          | Panic \<Rightarrow> Some (Panic, offset)
          | Ok l \<Rightarrow>
              (let len = unat l
               in if len < 4
                  then Some (Err (FirmMalformed ''DMAR structure length smaller than header''), length (dt_sdt t))
                  else if length (dt_sdt t) < offset + len
                  then Some (Err (FirmMalformed ''DMAR structure extends past table length''), length (dt_sdt t))
                  else Some (parse_structure E t offset len kind, offset + len))))"

lemma structure_next_Ok:
  assumes "structure_next E t offset = Some (Ok x, offset')"
  shows "offset < length (dt_sdt t)" "offset + 4 \<le> offset'" "offset' \<le> length (dt_sdt t)"
    "\<exists>kind. parse_structure E t offset (offset' - offset) kind = Ok x"
  using assms by (auto simp: structure_next_def Let_def split: if_splits res.splits)

lemma structure_next_less:
  "structure_next E t offset = Some (Ok x, offset') \<Longrightarrow>
    length (dt_sdt t) - offset' < length (dt_sdt t) - offset"
  using structure_next_Ok(1,2) [of E t offset x offset'] by linarith

function structures_from :: "ext_ops \<Rightarrow> dmar_table \<Rightarrow> usize \<Rightarrow> (dmar_structure, firm_error) res list" where
  "structures_from E t offset =
     (case structure_next E t offset of
        None \<Rightarrow> []
      | Some (Ok x, offset') \<Rightarrow> Ok x # structures_from E t offset'
      | Some (r, offset') \<Rightarrow> [r])"
  by pat_completeness auto
termination
  by (relation "measure (\<lambda>(E, t, offset). length (dt_sdt t) - offset)")
    (auto dest: structure_next_less)

declare structures_from.simps [simp del]

definition structures :: "ext_ops \<Rightarrow> dmar_table \<Rightarrow> (dmar_structure, firm_error) res list" where
  "structures E t = structures_from E t DMAR_STRUCTURES_OFFSET"

interpretation structures: bounded_walk "structure_next E t" "structures_from E t" "\<lambda>offset. offset"
  "length (dt_sdt t)"
proof unfold_locales
  show "structure_next E t o1 = Some (r, o2) \<Longrightarrow> o1 < length (dt_sdt t)" for o1 r o2
    by (auto simp: structure_next_def split: if_splits)
  show "structure_next E t o1 = Some (Ok x, o2) \<Longrightarrow> o1 < o2" for o1 x o2
    using structure_next_Ok(2) by fastforce
  show "structures_from E t o1 = (case structure_next E t o1 of None \<Rightarrow> []
    | Some (r, o2) \<Rightarrow> r # (if is_Ok r then structures_from E t o2 else []))" for o1
    by (subst structures_from.simps) (auto split: option.split prod.split res.split)
qed

section \<open>Device scopes\<close>

definition dp_depth :: "dmar_scope_path \<Rightarrow> usize" where
  "dp_depth p = length (dp_bytes p) div 2"

definition dp_entry :: "dmar_scope_path \<Rightarrow> usize \<Rightarrow> dmar_path_entry option" where
  "dp_entry p index =
     Option.bind (checked_mul_usize index 2) (\<lambda>offset.
     Option.bind (slice_get (dp_bytes p) offset) (\<lambda>device.
     Option.bind (slice_get (dp_bytes p) (offset + 1)) (\<lambda>function'.
     Some \<lparr>pe_device = device, pe_function = function'\<rparr>)))"

definition dp_last_entry :: "dmar_scope_path \<Rightarrow> dmar_path_entry option" where
  "dp_last_entry p = Option.bind (checked_sub_usize (dp_depth p) 1) (dp_entry p)"

definition single_requester :: "dmar_scope_path \<Rightarrow> u8 \<Rightarrow> (bdf, firm_error) res" where
  "single_requester p start_bus =
     (if dp_depth p \<noteq> 1 then Err (FirmMalformed ''DMAR scope path is not a single requester'')
      else
        res_bind (ok_or (dp_entry p 0) (FirmMalformed ''DMAR scope path missing requester'')) (\<lambda>entry.
        res_map_err (\<lambda>_. FirmMalformed ''DMAR scope requester BDF is invalid'')
          (bdf_new start_bus (pe_device entry) (pe_function entry))))"

definition scope_kind_from_raw :: "u8 \<Rightarrow> dmar_scope_kind" where
  "scope_kind_from_raw raw =
     (if raw = 1 then Endpoint else if raw = 2 then Bridge else if raw = 3 then IoApic
      else if raw = 4 then Hpet else if raw = 5 then NamespaceDevice else UnknownScope raw)"

text \<open>One round of the loop of \<open>walk_device_scopes\<close>, up to the call of its closure.\<close>

definition scope_next :: "dmar_table \<Rightarrow> usize \<Rightarrow> usize \<Rightarrow> usize \<Rightarrow> ((dmar_scope, firm_error) res \<times> usize) option" where
  "scope_next t structure_offset structure_length offset =
     (if structure_length \<le> offset then None
      else if structure_length < offset + DEVICE_SCOPE_HEADER_LENGTH
      then Some (Err (FirmMalformed ''DMAR device scope truncated before fixed header''), offset)
      else
        let scope_offset = structure_offset + offset
        in case read_u8 dmar_msgs (dt_sdt t) (scope_offset + 1) of
            Err e \<Rightarrow> Some (Err e, offset)
          | Panic \<Rightarrow> Some (Panic, offset)
          | Ok l \<Rightarrow>
              (let scope_length = unat l
               in if scope_length < DEVICE_SCOPE_HEADER_LENGTH
                  then Some (Err (FirmMalformed ''DMAR device scope shorter than minimum''), offset)
                  else if structure_length < offset + scope_length
                  then Some (Err (FirmMalformed ''DMAR device scope extends past structure''), offset)
                  else if (scope_length - DEVICE_SCOPE_HEADER_LENGTH) mod 2 \<noteq> 0
                  then Some (Err (FirmMalformed ''DMAR device scope path has odd byte length''), offset)
                  else
                    Some (res_bind (read_u8 dmar_msgs (dt_sdt t) (scope_offset + 5)) (\<lambda>start_bus.
                          res_bind (slice (dt_sdt t) (scope_offset + DEVICE_SCOPE_HEADER_LENGTH)
                                      (scope_offset + scope_length)) (\<lambda>bytes.
                          let path = \<lparr>dp_bytes = bytes\<rparr>;
                              requester = map_option br_single (res_ok (single_requester path start_bus))
                          in res_bind (read_u8 dmar_msgs (dt_sdt t) scope_offset) (\<lambda>kind.
                             res_bind (read_u8 dmar_msgs (dt_sdt t) (scope_offset + 2)) (\<lambda>flags.
                             res_bind (read_u8 dmar_msgs (dt_sdt t) (scope_offset + 4)) (\<lambda>enumeration.
                             Ok \<lparr>sc_kind = scope_kind_from_raw kind, sc_flags = flags,
                                 sc_enumeration_id = enumeration, sc_start_bus = start_bus,
                                 sc_path = path, sc_requester = requester\<rparr>))))),
                          offset + scope_length)))"

lemma scope_next_advances:
  assumes "scope_next t so sl offset = Some (Ok x, offset')"
  shows "offset < sl" "offset + DEVICE_SCOPE_HEADER_LENGTH \<le> offset'" "offset' \<le> sl"
  using assms by (auto simp: scope_next_def Let_def split: if_splits res.splits)

lemma scope_next_less:
  "scope_next t so sl offset = Some (Ok x, offset') \<Longrightarrow> sl - offset' < sl - offset"
  using scope_next_advances [of t so sl offset x offset'] by (simp add: DEVICE_SCOPE_HEADER_LENGTH_def)

function scopes_from :: "dmar_table \<Rightarrow> usize \<Rightarrow> usize \<Rightarrow> usize \<Rightarrow> (dmar_scope, firm_error) res list" where
  "scopes_from t structure_offset structure_length offset =
     (case scope_next t structure_offset structure_length offset of
        None \<Rightarrow> []
      | Some (Ok x, offset') \<Rightarrow> Ok x # scopes_from t structure_offset structure_length offset'
      | Some (r, offset') \<Rightarrow> [r])"
  by pat_completeness auto
termination
  by (relation "measure (\<lambda>(t, so, sl, offset). sl - offset)")
    (auto dest: scope_next_less)

declare scopes_from.simps [simp del]

interpretation scopes: bounded_walk "scope_next t so sl" "scopes_from t so sl" "\<lambda>offset. offset" sl
proof unfold_locales
  show "scope_next t so sl o1 = Some (r, o2) \<Longrightarrow> o1 < sl" for o1 r o2
    by (auto simp: scope_next_def split: if_splits)
  show "scope_next t so sl o1 = Some (Ok x, o2) \<Longrightarrow> o1 < o2" for o1 x o2
    using scope_next_advances(2) by (fastforce simp: DEVICE_SCOPE_HEADER_LENGTH_def)
  show "scopes_from t so sl o1 = (case scope_next t so sl o1 of None \<Rightarrow> []
    | Some (r, o2) \<Rightarrow> r # (if is_Ok r then scopes_from t so sl o2 else []))" for o1
    by (subst scopes_from.simps) (auto split: option.split prod.split res.split)
qed

definition walk_device_scopes :: "dmar_table \<Rightarrow> usize \<Rightarrow> usize \<Rightarrow> usize \<Rightarrow>
    (dmar_scope \<Rightarrow> (unit, firm_error, 's) st) \<Rightarrow> (unit, firm_error, 's) st" where
  "walk_device_scopes t structure_offset scopes_offset structure_length f =
     for_each f (scopes_from t structure_offset structure_length scopes_offset)"

section \<open>Loops over the table\<close>

definition for_each_structure :: "ext_ops \<Rightarrow> dmar_table \<Rightarrow>
    (dmar_structure \<Rightarrow> (unit, firm_error, 's) st) \<Rightarrow> (unit, firm_error, 's) st" where
  "for_each_structure E t f = for_each f (structures E t)"

definition for_each_drhd :: "ext_ops \<Rightarrow> dmar_table \<Rightarrow>
    (u8 \<Rightarrow> dmar_drhd \<Rightarrow> (unit, firm_error, 's) st) \<Rightarrow> (unit, firm_error, 's) st" where
  "for_each_drhd E t f =
     st_bind (st_lift (host_address_width t)) (\<lambda>host_width.
     for_each_structure E t (\<lambda>x. case x of Drhd u \<Rightarrow> f host_width u | _ \<Rightarrow> st_ret ()))"

definition for_each_rmrr :: "ext_ops \<Rightarrow> dmar_table \<Rightarrow>
    (dmar_rmrr \<Rightarrow> (unit, firm_error, 's) st) \<Rightarrow> (unit, firm_error, 's) st" where
  "for_each_rmrr E t f = for_each_structure E t (\<lambda>x. case x of Rmrr u \<Rightarrow> f u | _ \<Rightarrow> st_ret ())"

definition for_each_atsr :: "ext_ops \<Rightarrow> dmar_table \<Rightarrow>
    (dmar_atsr \<Rightarrow> (unit, firm_error, 's) st) \<Rightarrow> (unit, firm_error, 's) st" where
  "for_each_atsr E t f = for_each_structure E t (\<lambda>x. case x of Atsr u \<Rightarrow> f u | _ \<Rightarrow> st_ret ())"

definition for_each_rhsa :: "ext_ops \<Rightarrow> dmar_table \<Rightarrow>
    (dmar_rhsa \<Rightarrow> (unit, firm_error, 's) st) \<Rightarrow> (unit, firm_error, 's) st" where
  "for_each_rhsa E t f = for_each_structure E t (\<lambda>x. case x of Rhsa u \<Rightarrow> f u | _ \<Rightarrow> st_ret ())"

definition for_each_andd :: "ext_ops \<Rightarrow> dmar_table \<Rightarrow>
    (dmar_andd \<Rightarrow> (unit, firm_error, 's) st) \<Rightarrow> (unit, firm_error, 's) st" where
  "for_each_andd E t f = for_each_structure E t (\<lambda>x. case x of Andd u \<Rightarrow> f u | _ \<Rightarrow> st_ret ())"

definition for_each_satc :: "ext_ops \<Rightarrow> dmar_table \<Rightarrow>
    (dmar_satc \<Rightarrow> (unit, firm_error, 's) st) \<Rightarrow> (unit, firm_error, 's) st" where
  "for_each_satc E t f = for_each_structure E t (\<lambda>x. case x of Satc u \<Rightarrow> f u | _ \<Rightarrow> st_ret ())"

definition for_each_sidp :: "ext_ops \<Rightarrow> dmar_table \<Rightarrow>
    (dmar_sidp \<Rightarrow> (unit, firm_error, 's) st) \<Rightarrow> (unit, firm_error, 's) st" where
  "for_each_sidp E t f = for_each_structure E t (\<lambda>x. case x of Sidp u \<Rightarrow> f u | _ \<Rightarrow> st_ret ())"

definition for_each_drhd_device_scope :: "dmar_table \<Rightarrow> dmar_drhd \<Rightarrow>
    (dmar_scope \<Rightarrow> (unit, firm_error, 's) st) \<Rightarrow> (unit, firm_error, 's) st" where
  "for_each_drhd_device_scope t u f =
     walk_device_scopes t (drhd_structure_offset u) DRHD_MIN_LENGTH (drhd_length u) f"

definition for_each_rmrr_device_scope :: "dmar_table \<Rightarrow> dmar_rmrr \<Rightarrow>
    (dmar_scope \<Rightarrow> (unit, firm_error, 's) st) \<Rightarrow> (unit, firm_error, 's) st" where
  "for_each_rmrr_device_scope t u f =
     walk_device_scopes t (rmrr_structure_offset u) RMRR_MIN_LENGTH (rmrr_length u) f"

definition for_each_atsr_device_scope :: "dmar_table \<Rightarrow> dmar_atsr \<Rightarrow>
    (dmar_scope \<Rightarrow> (unit, firm_error, 's) st) \<Rightarrow> (unit, firm_error, 's) st" where
  "for_each_atsr_device_scope t u f =
     walk_device_scopes t (atsr_structure_offset u) ATSR_MIN_LENGTH (atsr_length u) f"

definition for_each_satc_device_scope :: "dmar_table \<Rightarrow> dmar_satc \<Rightarrow>
    (dmar_scope \<Rightarrow> (unit, firm_error, 's) st) \<Rightarrow> (unit, firm_error, 's) st" where
  "for_each_satc_device_scope t u f =
     walk_device_scopes t (satc_structure_offset u) SATC_MIN_LENGTH (satc_length u) f"

definition for_each_sidp_device_scope :: "dmar_table \<Rightarrow> dmar_sidp \<Rightarrow>
    (dmar_scope \<Rightarrow> (unit, firm_error, 's) st) \<Rightarrow> (unit, firm_error, 's) st" where
  "for_each_sidp_device_scope t u f =
     walk_device_scopes t (sidp_structure_offset u) SIDP_MIN_LENGTH (sidp_length u) f"

section \<open>Questions about the table\<close>

definition has_sidp :: "ext_ops \<Rightarrow> dmar_table \<Rightarrow> (bool, firm_error) res" where
  "has_sidp E t = run_walk (for_each_sidp E t (\<lambda>_. st_modify (\<lambda>_. True))) False"

record bdf_walk =
  bw_found :: bool
  bw_ranges :: bdf_range_set
  bw_unresolved :: bool

definition bdf_walk_start :: bdf_walk where
  "bdf_walk_start = \<lparr>bw_found = False, bw_ranges = rs_empty DMAR_REQUESTER_WINDOW_CAPACITY,
                     bw_unresolved = False\<rparr>"

text \<open>The closure over a device scope, the same in both collectors.\<close>

definition collect_scope :: "dmar_scope \<Rightarrow> (unit, firm_error, bdf_walk) st" where
  "collect_scope scope w =
     (case sc_requester scope of
        Some requester \<Rightarrow>
          (case firm_insert (bw_ranges w) requester of
             Ok s \<Rightarrow> (Ok (), w\<lparr>bw_ranges := s\<rparr>)
           | Err e \<Rightarrow> (Err e, w)
           | Panic \<Rightarrow> (Panic, w))
      | None \<Rightarrow> (Ok (), w\<lparr>bw_unresolved := True\<rparr>))"

definition drhd_collect :: "dmar_table \<Rightarrow> addr_range \<Rightarrow> dmar_structure \<Rightarrow> (unit, firm_error, bdf_walk) st" where
  "drhd_collect t registers x =
     (case x of
        Drhd u \<Rightarrow>
          if drhd_registers u \<noteq> registers then st_ret ()
          else st_then (st_modify (\<lambda>w. w\<lparr>bw_found := True\<rparr>))
            (if drhd_include_all u then st_ret ()
             else walk_device_scopes t (drhd_structure_offset u) DRHD_MIN_LENGTH (drhd_length u) collect_scope)
      | _ \<Rightarrow> st_ret ())"

definition bdf_walk_result :: "bdf_walk \<Rightarrow> bdf_range_set option" where
  "bdf_walk_result w =
     (if \<not> bw_found w \<or> bw_unresolved w \<or> rs_is_empty (bw_ranges w) then None
      else Some (bw_ranges w))"

definition drhd_bdf_ranges :: "ext_ops \<Rightarrow> dmar_table \<Rightarrow> addr_range \<Rightarrow> (bdf_range_set option, firm_error) res" where
  "drhd_bdf_ranges E t registers =
     res_map bdf_walk_result
       (run_walk (for_each_structure E t (drhd_collect t registers)) bdf_walk_start)"

definition rmrr_collect :: "dmar_table \<Rightarrow> u16 \<Rightarrow> addr_range \<Rightarrow> dmar_structure \<Rightarrow> (unit, firm_error, bdf_walk) st" where
  "rmrr_collect t segment memory x =
     (case x of
        Rmrr u \<Rightarrow>
          if rmrr_segment u \<noteq> segment \<or> rmrr_memory u \<noteq> memory then st_ret ()
          else st_then (st_modify (\<lambda>w. w\<lparr>bw_found := True\<rparr>))
            (walk_device_scopes t (rmrr_structure_offset u) RMRR_MIN_LENGTH (rmrr_length u) collect_scope)
      | _ \<Rightarrow> st_ret ())"

definition rmrr_bdf_ranges :: "ext_ops \<Rightarrow> dmar_table \<Rightarrow> u16 \<Rightarrow> addr_range \<Rightarrow> (bdf_range_set option, firm_error) res" where
  "rmrr_bdf_ranges E t segment memory =
     res_map bdf_walk_result
       (run_walk (for_each_structure E t (rmrr_collect t segment memory)) bdf_walk_start)"

record match_walk =
  mw_exact :: bool
  mw_unresolved :: bool

definition match_scope :: "pci_device \<Rightarrow> dmar_scope \<Rightarrow> (unit, firm_error, match_walk) st" where
  "match_scope requester scope =
     st_modify (\<lambda>w. case sc_requester scope of
        Some r \<Rightarrow> if br_contains r (pci_bdf requester) then w\<lparr>mw_exact := True\<rparr> else w
      | None \<Rightarrow> w\<lparr>mw_unresolved := True\<rparr>)"

definition drhd_match :: "dmar_table \<Rightarrow> addr_range \<Rightarrow> pci_device \<Rightarrow> dmar_structure \<Rightarrow>
    (unit, firm_error, dmar_requester_match option) st" where
  "drhd_match t registers requester x =
     (case x of
        Drhd u \<Rightarrow>
          if drhd_registers u \<noteq> registers then st_ret ()
          else if drhd_segment u \<noteq> pci_segment requester then st_modify (\<lambda>_. Some NotCovered)
          else if drhd_include_all u then st_modify (\<lambda>_. Some Covered)
          else
            st_bind (st_lift (run_walk (walk_device_scopes t (drhd_structure_offset u) DRHD_MIN_LENGTH
                        (drhd_length u) (match_scope requester))
                      \<lparr>mw_exact = False, mw_unresolved = False\<rparr>)) (\<lambda>w.
            st_modify (\<lambda>_. Some (if mw_exact w then Covered
                                 else if mw_unresolved w then Unresolved else NotCovered)))
      | _ \<Rightarrow> st_ret ())"

definition drhd_requester_match :: "ext_ops \<Rightarrow> dmar_table \<Rightarrow> addr_range \<Rightarrow> pci_device \<Rightarrow>
    (dmar_requester_match option, firm_error) res" where
  "drhd_requester_match E t registers requester =
     run_walk (for_each_structure E t (drhd_match t registers requester)) None"

definition satc_require :: "dmar_table \<Rightarrow> pci_device \<Rightarrow> dmar_structure \<Rightarrow> (unit, firm_error, bool) st" where
  "satc_require t requester x =
     (case x of
        Satc u \<Rightarrow>
          if satc_segment u \<noteq> pci_segment requester \<or> \<not> satc_atc_required u \<or> \<not> satc_has_device_scopes u
          then st_ret ()
          else walk_device_scopes t (satc_structure_offset u) SATC_MIN_LENGTH (satc_length u)
            (\<lambda>scope. st_modify (\<lambda>required.
               case sc_requester scope of
                 Some r \<Rightarrow> if br_contains r (pci_bdf requester) then True else required
               | None \<Rightarrow> required))
      | _ \<Rightarrow> st_ret ())"

definition satc_device_ats_required :: "ext_ops \<Rightarrow> dmar_table \<Rightarrow> pci_device \<Rightarrow> (bool, firm_error) res" where
  "satc_device_ats_required E t requester =
     res_bind (has_sidp E t) (\<lambda>sidp.
     if sidp then Ok False
     else run_walk (for_each_structure E t (satc_require t requester)) False)"

definition rhsa_proximity_domain_for_registers :: "ext_ops \<Rightarrow> dmar_table \<Rightarrow> addr_range \<Rightarrow> (u32 option, firm_error) res" where
  "rhsa_proximity_domain_for_registers E t registers =
     run_walk (for_each_rhsa E t (\<lambda>u. st_modify (\<lambda>d.
       if rhsa_registers u = registers then Some (rhsa_proximity_domain u) else d))) None"

definition andd_name_for_device_number :: "ext_ops \<Rightarrow> dmar_table \<Rightarrow> u8 \<Rightarrow> (u8 list option, firm_error) res" where
  "andd_name_for_device_number E t number =
     run_walk (for_each_andd E t (\<lambda>u. st_modify (\<lambda>n.
       if andd_acpi_device_number u = number then Some (andd_object_name u) else n))) None"

end
