(* ===== verification/Dmar_Facts.thy ===== *)
theory Dmar_Facts
  imports Dmar
begin

text \<open>
  What the DMAR parser promises: no bytes make it panic, what it yields lies inside the table, and
  the answers it gives about requesters agree with reference definitions over the parsed structures.
\<close>

section \<open>Reference view of a table\<close>

definition drhds_of :: "addr_range \<Rightarrow> dmar_structure list \<Rightarrow> dmar_drhd list" where
  "drhds_of registers xs =
     concat (map (\<lambda>x. case x of Drhd u \<Rightarrow> if drhd_registers u = registers then [u] else [] | _ \<Rightarrow> []) xs)"

lemma drhds_of_simps [simp]:
  "drhds_of registers [] = []" "drhds_of registers (xs @ ys) = drhds_of registers xs @ drhds_of registers ys"
  by (simp_all add: drhds_of_def)

definition drhd_scopes :: "dmar_table \<Rightarrow> dmar_drhd \<Rightarrow> (dmar_scope, firm_error) res list" where
  "drhd_scopes t u = scopes_from t (drhd_structure_offset u) (drhd_length u) DRHD_MIN_LENGTH"

definition rmrr_scopes :: "dmar_table \<Rightarrow> dmar_rmrr \<Rightarrow> (dmar_scope, firm_error) res list" where
  "rmrr_scopes t u = scopes_from t (rmrr_structure_offset u) (rmrr_length u) RMRR_MIN_LENGTH"

definition satc_scopes :: "dmar_table \<Rightarrow> dmar_satc \<Rightarrow> (dmar_scope, firm_error) res list" where
  "satc_scopes t u = scopes_from t (satc_structure_offset u) (satc_length u) SATC_MIN_LENGTH"

text \<open>A table all of whose structures and device scopes parse.\<close>

fun structure_scopes_ok :: "dmar_table \<Rightarrow> dmar_structure \<Rightarrow> bool" where
  "structure_scopes_ok t (Drhd u) \<longleftrightarrow> (\<forall>r \<in> set (drhd_scopes t u). is_Ok r)"
| "structure_scopes_ok t (Rmrr u) \<longleftrightarrow> (\<forall>r \<in> set (rmrr_scopes t u). is_Ok r)"
| "structure_scopes_ok t (Satc u) \<longleftrightarrow> (\<forall>r \<in> set (satc_scopes t u). is_Ok r)"
| "structure_scopes_ok t _ \<longleftrightarrow> True"

definition dmar_wellformed :: "ext_ops \<Rightarrow> dmar_table \<Rightarrow> bool" where
  "dmar_wellformed E t \<longleftrightarrow>
     (\<forall>r \<in> set (structures E t). is_Ok r \<and> (case r of Ok x \<Rightarrow> structure_scopes_ok t x | _ \<Rightarrow> True))"

lemma dmar_wellformedD:
  assumes "dmar_wellformed E t"
  shows "structures E t = map Ok (oks (structures E t))"
    and "x \<in> set (oks (structures E t)) \<Longrightarrow> structure_scopes_ok t x"
  using assms by (auto simp: dmar_wellformed_def set_oks intro!: oks_eq)

section \<open>What a structure is\<close>

text \<open>The place a structure occupies and the fields read from it.\<close>

fun structure_at :: "dmar_table \<Rightarrow> dmar_structure \<Rightarrow> usize \<Rightarrow> usize \<Rightarrow> bool" where
  "structure_at t (Drhd u) offset len \<longleftrightarrow>
     16 \<le> len \<and> drhd_structure_offset u = offset \<and> drhd_length u = len \<and>
     drhd_segment u = field_at (dt_sdt t) (offset + 6) 2 \<and>
     (drhd_include_all u \<longleftrightarrow> bit (dt_sdt t ! (offset + 4)) 0) \<and>
     (\<exists>base. base = unat (field_at (dt_sdt t) (offset + 8) 8 :: u64) \<and>
        drhd_registers u = \<lparr>r_start = base, r_end = base + 4096\<rparr> \<and> valid_range (drhd_registers u))"
| "structure_at t (Rmrr u) offset len \<longleftrightarrow>
     24 \<le> len \<and> rmrr_structure_offset u = offset \<and> rmrr_length u = len \<and>
     rmrr_segment u = field_at (dt_sdt t) (offset + 6) 2 \<and>
     r_start (rmrr_memory u) = unat (field_at (dt_sdt t) (offset + 8) 8 :: u64) \<and>
     r_end (rmrr_memory u) = unat (field_at (dt_sdt t) (offset + 16) 8 :: u64) + 1 \<and>
     r_start (rmrr_memory u) < r_end (rmrr_memory u) \<and> valid_range (rmrr_memory u)"
| "structure_at t (Atsr u) offset len \<longleftrightarrow>
     8 \<le> len \<and> atsr_structure_offset u = offset \<and> atsr_length u = len \<and>
     atsr_segment u = field_at (dt_sdt t) (offset + 6) 2 \<and>
     (atsr_include_all u \<longleftrightarrow> bit (dt_sdt t ! (offset + 4)) 0)"
| "structure_at t (Rhsa u) offset len \<longleftrightarrow>
     20 \<le> len \<and> rhsa_proximity_domain u = field_at (dt_sdt t) (offset + 16) 4 \<and>
     valid_range (rhsa_registers u)"
| "structure_at t (Andd u) offset len \<longleftrightarrow>
     8 \<le> len \<and> andd_object_name u = take (len - 8) (drop (offset + 8) (dt_sdt t)) \<and>
     andd_acpi_device_number u = dt_sdt t ! (offset + 7)"
| "structure_at t (Satc u) offset len \<longleftrightarrow>
     8 \<le> len \<and> satc_structure_offset u = offset \<and> satc_length u = len \<and>
     satc_segment u = field_at (dt_sdt t) (offset + 6) 2 \<and>
     (satc_atc_required u \<longleftrightarrow> bit (dt_sdt t ! (offset + 4)) 0)"
| "structure_at t (Sidp u) offset len \<longleftrightarrow>
     8 \<le> len \<and> sidp_structure_offset u = offset \<and> sidp_length u = len \<and>
     sidp_segment u = field_at (dt_sdt t) (offset + 6) 2"
| "structure_at t (DmarUnknown u) offset len \<longleftrightarrow>
     unk_offset u = offset \<and> unk_length u = len \<and> unk_kind u \<notin> {0, 1, 2, 3, 4, 5, 6}"

lemma and_1_iff [simp]: "(f :: u8) AND 1 = 0 \<longleftrightarrow> \<not> bit f 0"
  by (simp add: and_one_eq even_iff_mod_2_eq_zero [symmetric] bit_0)

lemma inclusive_phys_range_Ok:
  assumes "ext_ok E" and "\<not> limit < base" and "inclusive_phys_range E base limit ae le = Ok r"
  shows "r = \<lparr>r_start = unat base, r_end = unat limit + 1\<rparr> \<and> valid_range r"
proof -
  have "unat limit + 1 < 2 ^ 64"
    using assms(3) by (auto simp: inclusive_phys_range_def res_bind_Ok_iff ok_or_Ok_iff split: if_splits)
  moreover from this have "unat (limit + 1) = unat limit + 1"
    by (simp add: unat_word_ariths)
  ultimately show ?thesis
    using assms by (auto simp: inclusive_phys_range_def ext_ok_range_new valid_range_def usize_bound_def
        res_bind_Ok_iff word_le_nat_alt split: if_splits)
qed

lemma inclusive_phys_range_no_panic:
  assumes "ext_ok E" and "base \<le> limit"
  shows "inclusive_phys_range E base limit ae le \<noteq> Panic"
proof
  assume *: "inclusive_phys_range E base limit ae le = Panic"
  then have "unat limit + 1 < 2 ^ 64"
    by (auto simp: inclusive_phys_range_def res_bind_Panic_iff ok_or_Ok_iff split: if_splits)
  moreover from this have "unat (limit + 1) = unat limit + 1"
    by (simp add: unat_word_ariths)
  ultimately show False
    using * assms by (auto simp: inclusive_phys_range_def ext_ok_range_new word_le_nat_alt)
qed

lemma parse_rmrr_at:
  assumes E: "ext_ok E" and fit: "length (dt_sdt t) < usize_bound" "offset + len \<le> length (dt_sdt t)"
    and p: "parse_rmrr E t offset len = Ok u"
  shows "structure_at t (Rmrr u) offset len"
proof -
  have len: "24 \<le> len" using p by (auto simp: parse_rmrr_def dmar_lengths split: if_splits)
  define base :: u64 where "base = field_at (dt_sdt t) (offset + 8) 8"
  define limit :: u64 where "limit = field_at (dt_sdt t) (offset + 16) 8"
  obtain m where m: "\<not> limit < base" "inclusive_phys_range E base limit
      ''DMAR RMRR address cannot fit in usize'' ''DMAR RMRR inclusive limit overflows'' = Ok m"
    "rmrr_memory u = m"
    using p len fit by (auto simp: parse_rmrr_def dmar_lengths read_Ok res_bind_Ok_iff
        base_def limit_def split: if_splits)
  have r: "m = \<lparr>r_start = unat base, r_end = unat limit + 1\<rparr>" "valid_range m"
    using inclusive_phys_range_Ok [OF E m(1,2)] by blast+
  moreover have "unat base \<le> unat limit" using m(1) by (simp add: word_less_nat_alt)
  ultimately show ?thesis
    using p len fit m(3) by (auto simp: parse_rmrr_def dmar_lengths read_Ok res_bind_Ok_iff
        base_def limit_def split: if_splits)
qed

lemma parse_structure_at:
  assumes "ext_ok E" and "length (dt_sdt t) < usize_bound" and "offset + len \<le> length (dt_sdt t)"
    and "parse_structure E t offset len kind = Ok x"
  shows "structure_at t x offset len"
proof (cases "kind = DMAR_RMRR")
  case True
  then obtain u where "parse_rmrr E t offset len = Ok u" "x = Rmrr u"
    using assms(4) by (auto simp: parse_structure_def dmar_kinds res_map_Ok_iff)
  then show ?thesis using parse_rmrr_at [OF assms(1-3)] by blast
next
  case False
  then show ?thesis
    using assms(2-)
    by (auto simp: parse_structure_def res_map_Ok_iff res_bind_Ok_iff read_Ok slice_def dmar_lengths
        dmar_kinds parse_drhd_def parse_atsr_def parse_rhsa_def parse_andd_def parse_satc_def
        parse_sidp_def VTD_REGISTER_WINDOW_SIZE_def
        split: if_splits dest!: mmio_window_valid [OF assms(1)])
qed

lemma parse_structure_no_panic:
  assumes "ext_ok E" and "offset + len \<le> length (dt_sdt t)"
  shows "parse_structure E t offset len kind \<noteq> Panic"
  using assms(2) inclusive_phys_range_no_panic [OF assms(1)]
  by (auto simp: parse_structure_def res_map_Panic_iff res_bind_Panic_iff slice_Panic_iff dmar_lengths
      parse_drhd_def parse_rmrr_def parse_atsr_def parse_rhsa_def parse_andd_def parse_satc_def
      parse_sidp_def not_less)

section \<open>What a table yields\<close>

lemma structures_no_panic:
  assumes "ext_ok E"
  shows "Panic \<notin> set (structures E t)"
proof -
  have "r \<noteq> Panic" if "structure_next E t o2 = Some (r, o3)" for o2 r o3
    using that parse_structure_no_panic [OF assms, of o2 "o3 - o2" t]
    by (auto simp: structure_next_def Let_def split: if_splits res.splits)
  then have "\<forall>r \<in> set (structures E t). r \<noteq> Panic"
    unfolding structures_def by (intro structures.items_all)
  then show ?thesis by blast
qed

lemma structures_placed:
  assumes "ext_ok E" and "length (dt_sdt t) < usize_bound" and "Ok x \<in> set (structures E t)"
  shows "\<exists>offset len. DMAR_STRUCTURES_OFFSET \<le> offset \<and> offset + len \<le> length (dt_sdt t) \<and>
    structure_at t x offset len"
proof -
  obtain o2 o3 where o: "structure_next E t o2 = Some (Ok x, o3)" "DMAR_STRUCTURES_OFFSET \<le> o2"
    using structures.items_scanned assms(3) unfolding structures_def by blast
  obtain kind where k: "parse_structure E t o2 (o3 - o2) kind = Ok x"
    using structure_next_Ok(4) [OF o(1)] by blast
  have len: "o2 + (o3 - o2) \<le> length (dt_sdt t)" using structure_next_Ok [OF o(1)] by simp
  with k assms(1,2) have "structure_at t x o2 (o3 - o2)" by (intro parse_structure_at)
  with len o(2) show ?thesis by blast
qed

text \<open>Scopes of a structure that lies in the table.\<close>

lemma single_requester_no_panic [simp]: "single_requester p bus \<noteq> Panic"
  by (auto simp: single_requester_def res_bind_Panic_iff res_map_err_Panic_iff bdf_new_def)

lemma scopes_no_panic:
  assumes "so + sl \<le> length (dt_sdt t)"
  shows "Panic \<notin> set (scopes_from t so sl offset)"
proof -
  have "r \<noteq> Panic" if "scope_next t so sl o2 = Some (r, o3)" for o2 r o3
    using that assms
    by (auto simp: scope_next_def Let_def res_bind_Panic_iff slice_Panic_iff split: if_splits res.splits)
  then have "\<forall>r \<in> set (scopes_from t so sl offset). r \<noteq> Panic"
    by (intro scopes.items_all)
  then show ?thesis by blast
qed

text \<open>A scope names a requester exactly when its path has one hop to a valid function.\<close>

definition scope_names :: "dmar_scope \<Rightarrow> bdf \<Rightarrow> bool" where
  "scope_names scope b \<longleftrightarrow>
     (case dp_bytes (sc_path scope) of
        [device, function'] \<Rightarrow> bdf_new (sc_start_bus scope) device function' = Ok b
      | _ \<Rightarrow> False)"

lemma scope_names_unique: "scope_names scope b \<Longrightarrow> scope_names scope c \<Longrightarrow> c = b"
  by (auto simp: scope_names_def split: list.splits)

lemma single_requester_Ok_iff:
  assumes "even (length (dp_bytes p))"
  shows "single_requester p bus = Ok b \<longleftrightarrow>
    (case dp_bytes p of [device, function'] \<Rightarrow> bdf_new bus device function' = Ok b | _ \<Rightarrow> False)"
  using assms
  by (cases "dp_bytes p" rule: remdups_adj.cases)
    (auto simp: single_requester_def dp_depth_def dp_entry_def checked_mul_usize_def usize_bound_def
      slice_get_def res_bind_Ok_iff res_map_err_Ok_iff ok_or_Ok_iff split: list.splits)

lemma scope_requester:
  assumes "Ok scope \<in> set (scopes_from t so sl offset)"
  shows "sc_requester scope = Some r \<longleftrightarrow> (\<exists>b. scope_names scope b \<and> r = br_single b)"
proof -
  obtain o2 o3 where o: "scope_next t so sl o2 = Some (Ok scope, o3)"
    using scopes.items_scanned assms by blast
  have "even (length (dp_bytes (sc_path scope)))"
    and "sc_requester scope = map_option br_single (res_ok (single_requester (sc_path scope) (sc_start_bus scope)))"
    using o by (auto simp: scope_next_def Let_def res_bind_Ok_iff slice_def even_iff_mod_2_eq_zero
        split: if_splits res.splits)
  then show ?thesis
    by (auto simp: scope_names_def single_requester_Ok_iff [symmetric] res_ok_Some_iff)
qed

section \<open>Collecting the requesters of a unit\<close>

lemma for_each_collect:
  assumes "for_each collect_scope (map Ok xs) w = (Ok (), w')" and "rs_inv (bw_ranges w)"
    and "\<forall>scope \<in> set xs. \<forall>r. sc_requester scope = Some r \<longrightarrow> br_wf r"
  shows "bw_found w' = bw_found w \<and> rs_inv (bw_ranges w') \<and>
    rs_members (bw_ranges w') = rs_members (bw_ranges w) \<union>
      (\<Union>scope \<in> set xs. case sc_requester scope of Some r \<Rightarrow> br_members r | None \<Rightarrow> {}) \<and>
    (bw_unresolved w' \<longleftrightarrow> bw_unresolved w \<or> (\<exists>scope \<in> set xs. sc_requester scope = None))"
  using assms
proof (induction xs arbitrary: w)
  case (Cons x xs)
  obtain v where v: "collect_scope x w = (Ok (), v)" "for_each collect_scope (map Ok xs) v = (Ok (), w')"
    using Cons.prems(1) by (auto simp: st_bind_Ok_iff st_then_def)
  have w: "bw_found v = bw_found w \<and> rs_inv (bw_ranges v) \<and>
      rs_members (bw_ranges v) = rs_members (bw_ranges w) \<union>
        (case sc_requester x of Some r \<Rightarrow> br_members r | None \<Rightarrow> {}) \<and>
      (bw_unresolved v \<longleftrightarrow> bw_unresolved w \<or> sc_requester x = None)"
  proof (cases "sc_requester x")
    case (Some r)
    then have "br_wf r" using Cons.prems(3) by simp
    then show ?thesis
      using v(1) Some Cons.prems(2) firm_set.insert_inv [of "bw_ranges w" r]
        firm_set.insert_members [of "bw_ranges w" r]
      by (auto simp: collect_scope_def split: res.splits)
  qed (use v(1) Cons.prems(2) in \<open>auto simp: collect_scope_def\<close>)
  have "rs_inv (bw_ranges v)" using w by blast
  moreover have "\<forall>scope \<in> set xs. \<forall>r. sc_requester scope = Some r \<longrightarrow> br_wf r"
    using Cons.prems(3) by simp
  ultimately show ?case using Cons.IH [OF v(2)] w by (simp add: Un_assoc)
qed simp

text \<open>The scopes the walk over a structure list inspects.\<close>

definition walked :: "dmar_table \<Rightarrow> addr_range \<Rightarrow> dmar_structure list \<Rightarrow> dmar_scope list" where
  "walked t registers xs =
     concat (map (\<lambda>u. if drhd_include_all u then [] else oks (drhd_scopes t u)) (drhds_of registers xs))"

lemma walked_simps [simp]:
  "walked t registers [] = []" "walked t registers (xs @ ys) = walked t registers xs @ walked t registers ys"
  by (simp_all add: walked_def)

definition collected :: "dmar_scope list \<Rightarrow> bool \<Rightarrow> bdf_walk \<Rightarrow> bool" where
  "collected scopes found w \<longleftrightarrow>
     (bw_found w \<longleftrightarrow> found) \<and> rs_inv (bw_ranges w) \<and>
     rs_members (bw_ranges w) = {b. \<exists>scope \<in> set scopes. scope_names scope b} \<and>
     (bw_unresolved w \<longleftrightarrow> (\<exists>scope \<in> set scopes. \<forall>b. \<not> scope_names scope b))"

lemma collected_start: "collected [] False bdf_walk_start"
  by (simp add: collected_def bdf_walk_start_def)

lemma collected_scopes:
  assumes "collected scopes found w" and "for_each collect_scope rs w = (Ok (), w')"
    and rs: "rs = scopes_from t so sl offset"
  shows "collected (scopes @ oks rs) found w'"
proof -
  obtain xs where xs: "rs = map Ok xs" using for_each_Ok [OF assms(2)] by blast
  have names: "sc_requester scope = Some r \<longleftrightarrow> (\<exists>b. scope_names scope b \<and> r = br_single b)"
    if "scope \<in> set xs" for scope r
    using that xs by (intro scope_requester [of _ t so sl offset]) (simp flip: rs)
  have none: "sc_requester scope = None \<longleftrightarrow> (\<forall>b. \<not> scope_names scope b)" if "scope \<in> set xs" for scope
    using names [OF that] by (cases "sc_requester scope") auto
  have memb: "(case sc_requester scope of Some r \<Rightarrow> br_members r | None \<Rightarrow> {}) = {b. scope_names scope b}"
    if m: "scope \<in> set xs" for scope
  proof (cases "sc_requester scope")
    case (Some r)
    then obtain b where "scope_names scope b" "r = br_single b" using names [OF m] by blast
    moreover from this have "{c. scope_names scope c} = {b}" using scope_names_unique by blast
    ultimately show ?thesis using Some by simp
  qed (use none [OF m] in simp)
  have inv: "rs_inv (bw_ranges w)" using assms(1) by (simp add: collected_def)
  have wf: "\<forall>scope \<in> set xs. \<forall>r. sc_requester scope = Some r \<longrightarrow> br_wf r"
  proof (intro ballI allI impI)
    fix scope r
    assume "scope \<in> set xs" and "sc_requester scope = Some r"
    then obtain b where "r = br_single b" using names [of scope r] by blast
    then show "br_wf r" by simp
  qed
  note walk = for_each_collect [OF assms(2) [unfolded xs] inv wf]
  note before = assms(1) [unfolded collected_def]
  have "rs_members (bw_ranges w') = {b. \<exists>scope \<in> set (scopes @ xs). scope_names scope b}"
  proof -
    have "(\<Union>scope \<in> set xs. case sc_requester scope of Some r \<Rightarrow> br_members r | None \<Rightarrow> {}) =
        {b. \<exists>scope \<in> set xs. scope_names scope b}" using memb by auto
    moreover have "{b. \<exists>scope \<in> set (scopes @ xs). scope_names scope b} =
        {b. \<exists>scope \<in> set scopes. scope_names scope b} \<union> {b. \<exists>scope \<in> set xs. scope_names scope b}"
      by auto
    ultimately show ?thesis using walk before by argo
  qed
  moreover have "bw_unresolved w' \<longleftrightarrow> (\<exists>scope \<in> set (scopes @ xs). \<forall>b. \<not> scope_names scope b)"
    using walk before none by auto
  ultimately show ?thesis
    using walk before unfolding collected_def xs oks_map_Ok by argo
qed

text \<open>
  The collecting walks of units and of reserved regions: a structure is left out, or gives the scopes
  to collect.
\<close>

definition collects ::
    "(dmar_structure \<Rightarrow> (unit, firm_error, bdf_walk) st) \<Rightarrow> dmar_table \<Rightarrow>
     (dmar_structure \<Rightarrow> (dmar_scope, firm_error) res list option) \<Rightarrow> bool" where
  "collects f t g \<longleftrightarrow>
     (\<forall>x w. f x w = (case g x of None \<Rightarrow> (Ok (), w) | Some rs \<Rightarrow> for_each collect_scope rs (w\<lparr>bw_found := True\<rparr>))) \<and>
     (\<forall>x rs. g x = Some rs \<longrightarrow> rs = [] \<or> (\<exists>so sl offset. rs = scopes_from t so sl offset))"

definition scopes_given :: "(dmar_structure \<Rightarrow> (dmar_scope, firm_error) res list option) \<Rightarrow> dmar_structure list \<Rightarrow> dmar_scope list" where
  "scopes_given g xs = concat (map (\<lambda>x. case g x of None \<Rightarrow> [] | Some rs \<Rightarrow> oks rs) xs)"

lemma collects_step:
  assumes "collects f t g" and "collected (scopes_given g ys) (\<exists>y \<in> set ys. g y \<noteq> None) w" and "f x w = (Ok (), w')"
  shows "collected (scopes_given g (ys @ [x])) (\<exists>y \<in> set (ys @ [x]). g y \<noteq> None) w'"
proof (cases "g x")
  case None
  then have "w' = w" using assms(1,3) by (simp add: collects_def)
  then show ?thesis using assms(2) None by (simp add: scopes_given_def)
next
  case (Some rs)
  let ?w = "w\<lparr>bw_found := True\<rparr>"
  have walk: "for_each collect_scope rs ?w = (Ok (), w')" using assms(1,3) Some by (simp add: collects_def)
  have found: "collected (scopes_given g ys) True ?w" using assms(2) by (simp add: collected_def)
  have given: "scopes_given g (ys @ [x]) = scopes_given g ys @ oks rs" using Some by (simp add: scopes_given_def)
  consider "rs = []" | so sl offset where "rs = scopes_from t so sl offset"
    using assms(1) Some unfolding collects_def by blast
  then have "collected (scopes_given g ys @ oks rs) True w'"
  proof cases
    case 1
    then show ?thesis using walk found by simp
  next
    case 2
    show ?thesis using collected_scopes [OF found walk 2] .
  qed
  then show ?thesis using Some by (simp add: given)
qed

text \<open>What such a walk answers: a set exactly when something was selected and all its scopes name requesters.\<close>

definition names_exactly :: "dmar_scope list \<Rightarrow> bool \<Rightarrow> bdf_range_set option \<Rightarrow> bool" where
  "names_exactly scopes found answer \<longleftrightarrow>
     (answer \<noteq> None \<longleftrightarrow> found \<and> scopes \<noteq> [] \<and> (\<forall>scope \<in> set scopes. \<exists>b. scope_names scope b)) \<and>
     (\<forall>s. answer = Some s \<longrightarrow> rs_inv s \<and> rs_members s = {b. \<exists>scope \<in> set scopes. scope_names scope b})"

lemma collected_result: "collected scopes found w \<Longrightarrow> names_exactly scopes found (bdf_walk_result w)"
proof -
  assume c: "collected scopes found w"
  moreover from c have "rs_is_empty (bw_ranges w) \<longleftrightarrow> (\<forall>scope \<in> set scopes. \<forall>b. \<not> scope_names scope b)"
    using rs_is_empty_iff [of "bw_ranges w"] by (auto simp: collected_def)
  ultimately show ?thesis
    unfolding names_exactly_def bdf_walk_result_def collected_def by (cases scopes) auto
qed

lemma collects_exact:
  assumes "collects f t g"
    and "res_map bdf_walk_result (run_walk (for_each_structure E t f) bdf_walk_start) = Ok answer"
  defines "xs \<equiv> oks (structures E t)"
  shows "structures E t = map Ok xs \<and> names_exactly (scopes_given g xs) (\<exists>x \<in> set xs. g x \<noteq> None) answer"
proof -
  obtain w where w: "for_each f (structures E t) bdf_walk_start = (Ok (), w)" "answer = bdf_walk_result w"
    using assms(2) by (auto simp: res_map_Ok_iff run_walk_Ok_iff for_each_structure_def)
  then have xs: "structures E t = map Ok xs" using for_each_Ok by (fastforce simp: xs_def)
  have start: "collected (scopes_given g []) (\<exists>x \<in> set []. g x \<noteq> None) bdf_walk_start"
    using collected_start by (simp add: scopes_given_def)
  have "collected (scopes_given g xs) (\<exists>x \<in> set xs. g x \<noteq> None) w"
    by (rule for_each_invariant [where P = "\<lambda>ys. collected (scopes_given g ys) (\<exists>y \<in> set ys. g y \<noteq> None)",
          OF w(1) [unfolded xs] start]) (rule collects_step [OF assms(1)])
  then show ?thesis using xs collected_result w(2) by simp
qed

definition drhd_given ::
    "dmar_table \<Rightarrow> addr_range \<Rightarrow> dmar_structure \<Rightarrow> (dmar_scope, firm_error) res list option" where
  "drhd_given t registers x =
     (case x of
        Drhd u \<Rightarrow> if drhd_registers u = registers then Some (if drhd_include_all u then [] else drhd_scopes t u) else None
      | _ \<Rightarrow> None)"

lemma drhd_collects: "collects (drhd_collect t registers) t (drhd_given t registers)"
  by (auto simp: collects_def drhd_given_def drhd_collect_def drhd_scopes_def walk_device_scopes_def st_then_def
      split: dmar_structure.splits)

lemma drhd_given_walked:
  "scopes_given (drhd_given t registers) xs = walked t registers xs"
  "(\<exists>x \<in> set xs. drhd_given t registers x \<noteq> None) \<longleftrightarrow> drhds_of registers xs \<noteq> []"
  by (induction xs) (auto simp: scopes_given_def drhd_given_def walked_def drhds_of_def split: dmar_structure.splits)

text \<open>The reserved regions of a segment with a given memory, and their scopes.\<close>

definition rmrrs_of :: "u16 \<Rightarrow> addr_range \<Rightarrow> dmar_structure list \<Rightarrow> dmar_rmrr list" where
  "rmrrs_of segment memory xs =
     concat (map (\<lambda>x. case x of Rmrr u \<Rightarrow> if rmrr_segment u = segment \<and> rmrr_memory u = memory then [u] else [] | _ \<Rightarrow> []) xs)"

definition rmrr_walked :: "dmar_table \<Rightarrow> u16 \<Rightarrow> addr_range \<Rightarrow> dmar_structure list \<Rightarrow> dmar_scope list" where
  "rmrr_walked t segment memory xs = concat (map (\<lambda>u. oks (rmrr_scopes t u)) (rmrrs_of segment memory xs))"

definition rmrr_given ::
    "dmar_table \<Rightarrow> u16 \<Rightarrow> addr_range \<Rightarrow> dmar_structure \<Rightarrow> (dmar_scope, firm_error) res list option" where
  "rmrr_given t segment memory x =
     (case x of
        Rmrr u \<Rightarrow> if rmrr_segment u = segment \<and> rmrr_memory u = memory then Some (rmrr_scopes t u) else None
      | _ \<Rightarrow> None)"

lemma rmrr_collects: "collects (rmrr_collect t segment memory) t (rmrr_given t segment memory)"
  by (auto simp: collects_def rmrr_given_def rmrr_collect_def rmrr_scopes_def walk_device_scopes_def st_then_def
      split: dmar_structure.splits)

lemma rmrr_given_walked:
  "scopes_given (rmrr_given t segment memory) xs = rmrr_walked t segment memory xs"
  "(\<exists>x \<in> set xs. rmrr_given t segment memory x \<noteq> None) \<longleftrightarrow> rmrrs_of segment memory xs \<noteq> []"
  by (induction xs) (auto simp: scopes_given_def rmrr_given_def rmrr_walked_def rmrrs_of_def split: dmar_structure.splits)

section \<open>Classifying a requester\<close>

lemma scope_requester_cases:
  assumes "rs = scopes_from t so sl offset" and "scope \<in> set (oks rs)"
  shows "(\<exists>b. scope_names scope b \<and> sc_requester scope = Some (br_single b)) \<or>
    (\<forall>b. \<not> scope_names scope b) \<and> sc_requester scope = None"
proof -
  have "Ok scope \<in> set (scopes_from t so sl offset)" using assms by (simp add: set_oks)
  note names = scope_requester [OF this]
  show ?thesis
  proof (cases "sc_requester scope")
    case None
    then show ?thesis using names by auto
  next
    case (Some r)
    then show ?thesis using names [of r] by auto
  qed
qed

lemma br_contains_single [simp]: "br_contains (br_single b) c \<longleftrightarrow> c = b"
proof -
  have "br_contains (br_single b) c \<longleftrightarrow> c \<in> br_members (br_single b)" by (simp add: br_members_def)
  then show ?thesis by simp
qed

definition names_some :: "dmar_scope list \<Rightarrow> bdf \<Rightarrow> bool" where
  "names_some scopes b \<longleftrightarrow> (\<exists>scope \<in> set scopes. scope_names scope b)"

definition has_unresolved :: "dmar_scope list \<Rightarrow> bool" where
  "has_unresolved scopes \<longleftrightarrow> (\<exists>scope \<in> set scopes. \<forall>b. \<not> scope_names scope b)"

lemma match_scope_fold:
  assumes "\<forall>scope \<in> set xs. (\<exists>b. scope_names scope b \<and> sc_requester scope = Some (br_single b)) \<or>
    (\<forall>b. \<not> scope_names scope b) \<and> sc_requester scope = None"
  shows "for_each (match_scope requester) (map Ok xs) w =
    (Ok (), \<lparr>mw_exact = mw_exact w \<or> names_some xs (pci_bdf requester),
             mw_unresolved = mw_unresolved w \<or> has_unresolved xs\<rparr>)"
  using assms
proof (induction xs arbitrary: w)
  case (Cons x xs)
  have "match_scope requester x w = (Ok (), \<lparr>mw_exact = mw_exact w \<or> scope_names x (pci_bdf requester),
      mw_unresolved = mw_unresolved w \<or> (\<forall>b. \<not> scope_names x b)\<rparr>)"
    using Cons.prems scope_names_unique [of x] by (cases w) (auto simp: match_scope_def)
  with Cons show ?case by (simp add: st_then_def st_bind_def names_some_def has_unresolved_def)
qed (simp add: names_some_def has_unresolved_def)

definition requester_class :: "dmar_table \<Rightarrow> pci_device \<Rightarrow> dmar_drhd \<Rightarrow> dmar_requester_match" where
  "requester_class t requester u =
     (if drhd_segment u \<noteq> pci_segment requester then NotCovered
      else if drhd_include_all u then Covered
      else if names_some (oks (drhd_scopes t u)) (pci_bdf requester) then Covered
      else if has_unresolved (oks (drhd_scopes t u)) then Unresolved
      else NotCovered)"

definition class_step :: "dmar_table \<Rightarrow> addr_range \<Rightarrow> pci_device \<Rightarrow> dmar_structure \<Rightarrow>
    dmar_requester_match option \<Rightarrow> dmar_requester_match option" where
  "class_step t registers requester x m =
     (case drhds_of registers [x] of [] \<Rightarrow> m | u # _ \<Rightarrow> Some (requester_class t requester u))"

lemma class_step_fold:
  "fold (class_step t registers requester) xs None =
     (case rev (drhds_of registers xs) of [] \<Rightarrow> None | u # _ \<Rightarrow> Some (requester_class t requester u))"
proof (induction xs rule: rev_induct)
  case (snoc x xs)
  have "drhds_of registers [x] = [] \<or> (\<exists>u. drhds_of registers [x] = [u])"
    by (cases x) (simp_all add: drhds_of_def)
  then show ?case using snoc by (auto simp: class_step_def)
qed simp

lemma drhd_match_step:
  assumes "structure_scopes_ok t x"
  shows "drhd_match t registers requester x m = (Ok (), class_step t registers requester x m)"
proof (cases x)
  case (Drhd u)
  have ok: "drhd_scopes t u = map Ok (oks (drhd_scopes t u))" using assms Drhd by (auto intro: oks_eq)
  have "\<forall>scope \<in> set (oks (drhd_scopes t u)).
      (\<exists>b. scope_names scope b \<and> sc_requester scope = Some (br_single b)) \<or>
      (\<forall>b. \<not> scope_names scope b) \<and> sc_requester scope = None"
    using scope_requester_cases [OF drhd_scopes_def] by blast
  note walk = match_scope_fold [OF this]
  have "for_each (match_scope requester) (drhd_scopes t u) \<lparr>mw_exact = False, mw_unresolved = False\<rparr> =
      (Ok (), \<lparr>mw_exact = names_some (oks (drhd_scopes t u)) (pci_bdf requester),
               mw_unresolved = has_unresolved (oks (drhd_scopes t u))\<rparr>)"
    by (subst ok) (simp add: walk)
  then show ?thesis
    using Drhd by (simp add: drhd_match_def class_step_def drhds_of_def requester_class_def run_walk.simps
        walk_device_scopes_def drhd_scopes_def)
qed (simp_all add: drhd_match_def class_step_def drhds_of_def)

section \<open>Deciding whether ATS is required\<close>

lemma has_sidp_eq:
  assumes "dmar_wellformed E t"
  shows "has_sidp E t = Ok (\<exists>u. Sidp u \<in> set (oks (structures E t)))"
proof -
  let ?f = "\<lambda>x. case x of Sidp u \<Rightarrow> st_modify (\<lambda>_. True) | _ \<Rightarrow> st_ret ()"
  let ?g = "\<lambda>x s. s \<or> (\<exists>u. x = Sidp u)"
  have "for_each ?f (map Ok xs) s = (Ok (), fold ?g xs s)" for xs s
    by (rule for_each_fold) (auto split: dmar_structure.splits)
  then have "for_each ?f (structures E t) False = (Ok (), fold ?g (oks (structures E t)) False)"
    by (subst dmar_wellformedD(1) [OF assms])
  moreover have "fold ?g xs s \<longleftrightarrow> s \<or> (\<exists>u. Sidp u \<in> set xs)" for xs s
    by (induction xs arbitrary: s) auto
  ultimately show ?thesis
    by (simp add: has_sidp_def for_each_sidp_def for_each_structure_def run_walk.simps)
qed

definition satc_requires :: "dmar_table \<Rightarrow> pci_device \<Rightarrow> dmar_structure \<Rightarrow> bool" where
  "satc_requires t requester x \<longleftrightarrow>
     (\<exists>u. x = Satc u \<and> satc_segment u = pci_segment requester \<and> satc_atc_required u \<and>
        satc_has_device_scopes u \<and> names_some (oks (satc_scopes t u)) (pci_bdf requester))"

lemma satc_require_step:
  assumes "structure_scopes_ok t x"
  shows "satc_require t requester x s = (Ok (), s \<or> satc_requires t requester x)"
proof (cases x)
  case (Satc u)
  let ?f = "\<lambda>scope. st_modify (\<lambda>required. case sc_requester scope of
    Some r \<Rightarrow> if br_contains r (pci_bdf requester) then True else required | None \<Rightarrow> required)"
  let ?g = "\<lambda>scope s. s \<or> scope_names scope (pci_bdf requester)"
  have cases: "(\<exists>b. scope_names scope b \<and> sc_requester scope = Some (br_single b)) \<or>
      (\<forall>b. \<not> scope_names scope b) \<and> sc_requester scope = None"
    if "scope \<in> set (oks (satc_scopes t u))" for scope
    using scope_requester_cases [OF satc_scopes_def that] .
  have "?f scope s = (Ok (), ?g scope s)" if "scope \<in> set (oks (satc_scopes t u))" for scope s
    using cases [OF that] scope_names_unique [of scope] by auto
  then have walk: "for_each ?f (map Ok (oks (satc_scopes t u))) s = (Ok (), fold ?g (oks (satc_scopes t u)) s)" for s
    by (rule for_each_fold)
  have fold: "fold ?g ys s \<longleftrightarrow> s \<or> names_some ys (pci_bdf requester)" for ys s
    by (induction ys arbitrary: s) (auto simp: names_some_def)
  have ok: "satc_scopes t u = map Ok (oks (satc_scopes t u))"
    using assms Satc by (auto intro: oks_eq)
  have "for_each ?f (satc_scopes t u) s =
      (Ok (), s \<or> names_some (oks (satc_scopes t u)) (pci_bdf requester))"
    by (subst ok) (simp only: walk fold)
  then show ?thesis
    using Satc by (auto simp: satc_require_def satc_requires_def walk_device_scopes_def satc_scopes_def)
qed (simp_all add: satc_require_def satc_requires_def)

section \<open>No panics\<close>

lemma drhd_scopes_bounds:
  assumes "ext_ok E" and "length (dt_sdt t) < usize_bound" and "Ok (Drhd u) \<in> set (structures E t)"
  shows "Panic \<notin> set (drhd_scopes t u)" "length (drhd_scopes t u) \<le> drhd_length u - 16"
  using structures_placed [OF assms] scopes_no_panic scopes.items_bounded [of t _ _ DRHD_MIN_LENGTH]
  by (auto simp: drhd_scopes_def DRHD_MIN_LENGTH_def)

lemma rmrr_scopes_no_panic:
  assumes "ext_ok E" and "length (dt_sdt t) < usize_bound" and "Ok (Rmrr u) \<in> set (structures E t)"
  shows "Panic \<notin> set (rmrr_scopes t u)"
  using structures_placed [OF assms] scopes_no_panic by (auto simp: rmrr_scopes_def)

lemma satc_scopes_no_panic:
  assumes "ext_ok E" and "length (dt_sdt t) < usize_bound" and "Ok (Satc u) \<in> set (structures E t)"
  shows "Panic \<notin> set (satc_scopes t u)"
  using structures_placed [OF assms] scopes_no_panic by (auto simp: satc_scopes_def)

lemma collect_scope_safe:
  assumes "Ok scope \<in> set (scopes_from t so sl offset)" and "rs_inv (bw_ranges w)"
  shows "fst (collect_scope scope w) \<noteq> Panic \<and>
    (\<forall>w'. collect_scope scope w = (Ok (), w') \<longrightarrow> rs_inv (bw_ranges w'))"
proof (cases "sc_requester scope")
  case (Some r)
  then have wf: "br_wf r" using scope_requester [OF assms(1), of r] by auto
  from firm_set.insert_no_panic [OF assms(2) wf] firm_set.insert_inv [OF assms(2) wf]
  show ?thesis using Some by (auto simp: collect_scope_def split: res.splits)
qed (use assms in \<open>simp add: collect_scope_def\<close>)

lemma collect_walk_safe:
  assumes "Panic \<notin> set (scopes_from t so sl offset)" and "rs_inv (bw_ranges w)"
  shows "fst (walk_device_scopes t so offset sl collect_scope w) \<noteq> Panic \<and>
    (\<forall>w'. walk_device_scopes t so offset sl collect_scope w = (Ok (), w') \<longrightarrow> rs_inv (bw_ranges w'))"
  unfolding walk_device_scopes_def
  using assms collect_scope_safe by (intro for_each_safe [where I = "\<lambda>w. rs_inv (bw_ranges w)"]) blast+

lemma collector_no_panic:
  assumes E: "ext_ok E"
    and step: "\<And>x w. Ok x \<in> set (structures E t) \<Longrightarrow> rs_inv (bw_ranges w) \<Longrightarrow>
      fst (f x w) \<noteq> Panic \<and> (\<forall>w'. f x w = (Ok (), w') \<longrightarrow> rs_inv (bw_ranges w'))"
  shows "run_walk (for_each_structure E t f) bdf_walk_start \<noteq> Panic"
proof -
  have "fst (for_each f (structures E t) bdf_walk_start) \<noteq> Panic \<and>
      (\<forall>w'. for_each f (structures E t) bdf_walk_start = (Ok (), w') \<longrightarrow> rs_inv (bw_ranges w'))"
    using structures_no_panic [OF E] step
    by (intro for_each_safe [where I = "\<lambda>w. rs_inv (bw_ranges w)"]) (simp_all add: bdf_walk_start_def)
  then show ?thesis by (simp add: run_walk_Panic_iff for_each_structure_def)
qed

lemma drhd_bdf_ranges_no_panic:
  assumes "ext_ok E" and "length (dt_sdt t) < usize_bound"
  shows "drhd_bdf_ranges E t registers \<noteq> Panic"
proof -
  have "fst (drhd_collect t registers x w) \<noteq> Panic \<and>
      (\<forall>w'. drhd_collect t registers x w = (Ok (), w') \<longrightarrow> rs_inv (bw_ranges w'))"
    if "Ok x \<in> set (structures E t)" "rs_inv (bw_ranges w)" for x w
  proof (cases x)
    case (Drhd u)
    then have "Panic \<notin> set (drhd_scopes t u)" using drhd_scopes_bounds(1) [OF assms] that(1) by simp
    from collect_walk_safe [OF this [unfolded drhd_scopes_def], of "w\<lparr>bw_found := True\<rparr>"]
    show ?thesis using Drhd that(2) by (simp add: drhd_collect_def st_then_def)
  qed (use that(2) in \<open>simp_all add: drhd_collect_def\<close>)
  then show ?thesis
    using collector_no_panic [OF assms(1)] by (simp add: drhd_bdf_ranges_def res_map_Panic_iff)
qed

lemma rmrr_bdf_ranges_no_panic:
  assumes "ext_ok E" and "length (dt_sdt t) < usize_bound"
  shows "rmrr_bdf_ranges E t segment memory \<noteq> Panic"
proof -
  have "fst (rmrr_collect t segment memory x w) \<noteq> Panic \<and>
      (\<forall>w'. rmrr_collect t segment memory x w = (Ok (), w') \<longrightarrow> rs_inv (bw_ranges w'))"
    if "Ok x \<in> set (structures E t)" "rs_inv (bw_ranges w)" for x w
  proof (cases x)
    case (Rmrr u)
    then have "Panic \<notin> set (rmrr_scopes t u)" using rmrr_scopes_no_panic [OF assms] that(1) by simp
    from collect_walk_safe [OF this [unfolded rmrr_scopes_def], of "w\<lparr>bw_found := True\<rparr>"]
    show ?thesis using Rmrr that(2) by (simp add: rmrr_collect_def st_then_def)
  qed (use that(2) in \<open>simp_all add: rmrr_collect_def\<close>)
  then show ?thesis
    using collector_no_panic [OF assms(1)] by (simp add: rmrr_bdf_ranges_def res_map_Panic_iff)
qed

lemma drhd_requester_match_no_panic:
  assumes "ext_ok E" and "length (dt_sdt t) < usize_bound"
  shows "drhd_requester_match E t registers requester \<noteq> Panic"
proof -
  have "fst (drhd_match t registers requester x m) \<noteq> Panic" if "Ok x \<in> set (structures E t)" for x m
  proof (cases x)
    case (Drhd u)
    then have "Panic \<notin> set (drhd_scopes t u)" using drhd_scopes_bounds(1) [OF assms] that by simp
    then have "fst (for_each (match_scope requester) (drhd_scopes t u) v) \<noteq> Panic" for v
      by (rule for_each_no_panic) (simp add: match_scope_def)
    then have "run_walk (walk_device_scopes t (drhd_structure_offset u) DRHD_MIN_LENGTH (drhd_length u)
        (match_scope requester)) v \<noteq> Panic" for v
      by (simp add: run_walk_Panic_iff walk_device_scopes_def drhd_scopes_def)
    then show ?thesis
      using Drhd by (auto simp: drhd_match_def st_bind_def st_lift_def split: res.splits)
  qed (simp_all add: drhd_match_def)
  with structures_no_panic [OF assms(1)]
  have "fst (for_each (drhd_match t registers requester) (structures E t) None) \<noteq> Panic"
    by (rule for_each_no_panic)
  then show ?thesis
    by (simp add: drhd_requester_match_def for_each_structure_def run_walk_Panic_iff)
qed

lemma satc_ats_required_no_panic:
  assumes "ext_ok E" and "length (dt_sdt t) < usize_bound"
  shows "satc_device_ats_required E t requester \<noteq> Panic"
proof -
  have "fst (satc_require t requester x m) \<noteq> Panic" if "Ok x \<in> set (structures E t)" for x m
  proof (cases x)
    case (Satc u)
    then have safe: "Panic \<notin> set (satc_scopes t u)" using satc_scopes_no_panic [OF assms] that by simp
    have "fst (for_each (\<lambda>scope. st_modify (h scope)) (satc_scopes t u) s) \<noteq> Panic" for h and s :: bool
      using safe by (rule for_each_no_panic) simp
    then show ?thesis
      using Satc by (simp only: satc_require_def walk_device_scopes_def satc_scopes_def) simp
  qed (simp_all add: satc_require_def)
  with structures_no_panic [OF assms(1)]
  have "fst (for_each (satc_require t requester) (structures E t) False) \<noteq> Panic"
    by (rule for_each_no_panic)
  moreover have "fst (for_each (\<lambda>x. case x of Sidp u \<Rightarrow> st_modify (\<lambda>_. True) | _ \<Rightarrow> st_ret ())
      (structures E t) False) \<noteq> Panic"
    using structures_no_panic [OF assms(1)]
    by (rule for_each_no_panic) (simp split: dmar_structure.splits)
  ultimately show ?thesis
    by (simp add: satc_device_ats_required_def has_sidp_def for_each_sidp_def
        for_each_structure_def res_bind_Panic_iff run_walk_Panic_iff)
qed

section \<open>Properties\<close>

text \<open>C5. Collecting the requesters of a remapping unit (\<open>drhd_bdf_ranges\<close>) and of a reserved memory region
(\<open>rmrr_bdf_ranges\<close>): when the query answers, every structure of the table parsed; a set is returned
exactly when some unit has the given registers, or some region the given segment and memory, at least
one device scope was found in them (those of a unit that covers everything left aside), and every one
of these scopes names a single requester. The set satisfies its invariant and its members are exactly
the requesters the scopes name.\<close>

theorem dmar_bdf_ranges_exact:
  fixes E :: ext_ops and t :: dmar_table
  defines "xs \<equiv> oks (structures E t)"
  shows "(drhd_bdf_ranges E t registers = Ok units \<longrightarrow> structures E t = map Ok xs \<and>
      names_exactly (walked t registers xs) (drhds_of registers xs \<noteq> []) units) \<and>
    (rmrr_bdf_ranges E t segment memory = Ok regions \<longrightarrow> structures E t = map Ok xs \<and>
      names_exactly (rmrr_walked t segment memory xs) (rmrrs_of segment memory xs \<noteq> []) regions)"
  using collects_exact [OF drhd_collects] collects_exact [OF rmrr_collects]
  unfolding drhd_bdf_ranges_def rmrr_bdf_ranges_def drhd_given_walked rmrr_given_walked xs_def by blast

text \<open>C11. Classifying a requester (\<open>drhd_requester_match\<close>): on a table whose structures and device scopes
parse, the answer is always returned and is the classification by the last unit with the given
registers, \<open>None\<close> when there is none. A unit of another segment does not cover the requester; a unit
that includes all devices covers it, whatever other units list it explicitly; otherwise the unit's
scopes decide, and a scope that names no single requester leaves the answer open.\<close>

theorem drhd_requester_match_exact:
  assumes "dmar_wellformed E t"
  shows "drhd_requester_match E t registers requester =
    Ok (case rev (drhds_of registers (oks (structures E t))) of
          [] \<Rightarrow> None
        | u # _ \<Rightarrow> Some (requester_class t requester u))"
proof -
  let ?xs = "oks (structures E t)"
  have "for_each (drhd_match t registers requester) (map Ok ?xs) None =
      (Ok (), fold (class_step t registers requester) ?xs None)"
    using dmar_wellformedD(2) [OF assms] by (intro for_each_fold) (simp add: drhd_match_step)
  then have "for_each_structure E t (drhd_match t registers requester) None =
      (Ok (), fold (class_step t registers requester) ?xs None)"
    unfolding for_each_structure_def by (subst dmar_wellformedD(1) [OF assms])
  then show ?thesis
    by (simp add: drhd_requester_match_def run_walk.simps class_step_fold)
qed

text \<open>C27. Deciding whether a device needs ATS (\<open>satc_device_ats_required\<close>): on a table that parses the
answer is always returned. It is yes exactly when no SIDP structure is present and some SATC structure
of the requester's segment requires the address-translation cache and has a device scope that names
the requester.\<close>

theorem satc_ats_required_exact:
  assumes "dmar_wellformed E t"
  shows "satc_device_ats_required E t requester =
    Ok ((\<nexists>u. Sidp u \<in> set (oks (structures E t))) \<and>
        (\<exists>x \<in> set (oks (structures E t)). satc_requires t requester x))"
proof -
  let ?xs = "oks (structures E t)"
  let ?g = "\<lambda>x s. s \<or> satc_requires t requester x"
  have "for_each (satc_require t requester) (map Ok ?xs) False = (Ok (), fold ?g ?xs False)"
    using dmar_wellformedD(2) [OF assms] by (intro for_each_fold) (simp add: satc_require_step)
  then have "for_each_structure E t (satc_require t requester) False = (Ok (), fold ?g ?xs False)"
    unfolding for_each_structure_def by (subst dmar_wellformedD(1) [OF assms])
  moreover have "fold ?g ys s \<longleftrightarrow> s \<or> (\<exists>x \<in> set ys. satc_requires t requester x)" for ys s
    by (induction ys arbitrary: s) auto
  ultimately show ?thesis
    by (simp add: satc_device_ats_required_def has_sidp_eq [OF assms] run_walk.simps)
qed



section \<open>A concrete table\<close>

text \<open>One unit at \<open>0xfed90000\<close> of segment 3 with the scope \<open>2a:05.1\<close>, and a SATC structure for it.\<close>

definition wit_dmar :: dmar_table where
  "wit_dmar = \<lparr>dt_sdt = replicate 48 0 @
     [0, 0, 24, 0, 0, 0, 3, 0, 0, 0, 0xd9, 0xfe, 0, 0, 0, 0, 1, 8, 0, 0, 0, 0x2a, 5, 1] @
     [5, 0, 16, 0, 1, 0, 3, 0, 1, 8, 0, 0, 0, 0x2a, 5, 1]\<rparr>"

definition wit_registers :: addr_range where
  "wit_registers = \<lparr>r_start = 0xfed90000, r_end = 0xfed91000\<rparr>"

definition wit_drhd :: dmar_drhd where
  "wit_drhd = \<lparr>drhd_flags = 0, drhd_segment = 3, drhd_registers = wit_registers,
     drhd_include_all = False, drhd_has_device_scopes = True, drhd_structure_offset = 48,
     drhd_length = 24\<rparr>"

definition wit_satc :: dmar_satc where
  "wit_satc = \<lparr>satc_flags = 1, satc_segment = 3, satc_atc_required = True,
     satc_has_device_scopes = True, satc_structure_offset = 72, satc_length = 16\<rparr>"

definition wit_scope :: dmar_scope where
  "wit_scope = \<lparr>sc_kind = Endpoint, sc_flags = 0, sc_enumeration_id = 0, sc_start_bus = 0x2a,
     sc_path = \<lparr>dp_bytes = [5, 1]\<rparr>, sc_requester = Some (br_single (Bdf 0x2a29))\<rparr>"

lemmas wit_reads = read_u8_def read_u16_def read_u32_def read_u64_def read_array_def slice_get_def
  slice_get_range_def checked_add_usize_def usize_bound_def nth_append wit_dmar_def slice_def

lemma wit_next:
  "structure_next std_ext wit_dmar 48 = Some (Ok (Drhd wit_drhd), 72)"
  "structure_next std_ext wit_dmar 72 = Some (Ok (Satc wit_satc), 88)"
  "structure_next std_ext wit_dmar 88 = None"
  by (simp_all add: structure_next_def wit_reads parse_structure_def dmar_kinds parse_drhd_def parse_satc_def
      dmar_lengths mmio_register_window_def mmio_from_start_size_def std_ext_def VTD_REGISTER_WINDOW_SIZE_def
      wit_drhd_def wit_satc_def wit_registers_def usize_try_from_def)

lemma wit_scope_next:
  "scope_next wit_dmar 48 24 16 = Some (Ok wit_scope, 24)" "scope_next wit_dmar 48 24 24 = None"
  "scope_next wit_dmar 72 16 8 = Some (Ok wit_scope, 16)" "scope_next wit_dmar 72 16 16 = None"
  by (simp_all add: scope_next_def wit_reads dmar_lengths wit_scope_def scope_kind_from_raw_def
      single_requester_def dp_depth_def dp_entry_def checked_mul_usize_def bdf_new_def word_le_nat_alt)

lemma wit_structures: "structures std_ext wit_dmar = [Ok (Drhd wit_drhd), Ok (Satc wit_satc)]"
  by (simp add: structures_def structures_from.simps wit_next DMAR_STRUCTURES_OFFSET_def)

lemma wit_scopes:
  "drhd_scopes wit_dmar wit_drhd = [Ok wit_scope]" "satc_scopes wit_dmar wit_satc = [Ok wit_scope]"
  by (simp_all add: drhd_scopes_def satc_scopes_def scopes_from.simps wit_scope_next wit_drhd_def wit_satc_def
      dmar_lengths)

lemma wit_dmar_wellformed: "dmar_wellformed std_ext wit_dmar"
  by (simp add: dmar_wellformed_def wit_structures wit_scopes)

lemma wit_drhd_fields [simp]:
  "drhd_registers wit_drhd = wit_registers" "\<not> drhd_include_all wit_drhd" "drhd_segment wit_drhd = 3"
  by (simp_all add: wit_drhd_def)

lemma wit_scope_names [simp]: "scope_names wit_scope b \<longleftrightarrow> b = Bdf 0x2a29"
  by (auto simp: scope_names_def wit_scope_def bdf_new_def word_le_nat_alt)

lemma wit_walk:
  "oks (structures std_ext wit_dmar) = [Drhd wit_drhd, Satc wit_satc]"
  "drhds_of wit_registers [Drhd wit_drhd, Satc wit_satc] = [wit_drhd]"
  "walked wit_dmar wit_registers [Drhd wit_drhd, Satc wit_satc] = [wit_scope]"
  by (simp_all add: wit_structures oks_def drhds_of_def walked_def wit_scopes)

lemma wit_insert: "\<exists>s. firm_insert (rs_empty 16) (br_single (Bdf 0x2a29)) = Ok s \<and> \<not> rs_is_empty s"
proof -
  have "case firm_insert (rs_empty 16) (br_single (Bdf 0x2a29)) of Ok s \<Rightarrow> \<not> rs_is_empty s | _ \<Rightarrow> False"
    by code_simp
  then show ?thesis by (simp split: res.splits)
qed

lemma wit_drhd_ranges: "\<exists>s. drhd_bdf_ranges std_ext wit_dmar wit_registers = Ok (Some s)"
proof -
  obtain s where s: "firm_insert (rs_empty 16) (br_single (Bdf 0x2a29)) = Ok s" "\<not> rs_is_empty s"
    using wit_insert by blast
  have "scopes_from wit_dmar 48 24 16 = [Ok wit_scope]"
    using wit_scopes(1) by (simp add: drhd_scopes_def wit_drhd_def dmar_lengths)
  then show ?thesis
    using s by (simp add: drhd_bdf_ranges_def for_each_structure_def wit_structures drhd_collect_def
        walk_device_scopes_def wit_drhd_def dmar_lengths collect_scope_def wit_scope_def bdf_walk_start_def
        DMAR_REQUESTER_WINDOW_CAPACITY_def run_walk.simps bdf_walk_result_def st_then_def st_bind_def)
qed

text \<open>A table with one reserved region, \<open>0x1000\<close> to \<open>0x1fff\<close> of segment 3, for the requester \<open>2a:05.1\<close>.\<close>

definition wit_reserved :: dmar_table where
  "wit_reserved = \<lparr>dt_sdt = replicate 48 0 @
     [1, 0, 32, 0, 0, 0, 3, 0, 0, 0x10, 0, 0, 0, 0, 0, 0, 0xff, 0x1f, 0, 0, 0, 0, 0, 0, 1, 8, 0, 0, 0, 0x2a, 5, 1]\<rparr>"

definition wit_memory :: addr_range where
  "wit_memory = \<lparr>r_start = 0x1000, r_end = 0x2000\<rparr>"

definition wit_rmrr :: dmar_rmrr where
  "wit_rmrr = \<lparr>rmrr_segment = 3, rmrr_memory = wit_memory, rmrr_has_device_scopes = True,
     rmrr_structure_offset = 48, rmrr_length = 32\<rparr>"

lemmas wit_reserved_reads = read_u8_def read_u16_def read_u32_def read_u64_def read_array_def slice_get_def
  slice_get_range_def checked_add_usize_def usize_bound_def nth_append wit_reserved_def slice_def

lemma wit_reserved_next:
  "structure_next std_ext wit_reserved 48 = Some (Ok (Rmrr wit_rmrr), 80)"
  "structure_next std_ext wit_reserved 80 = None"
  "scope_next wit_reserved 48 32 24 = Some (Ok wit_scope, 32)" "scope_next wit_reserved 48 32 32 = None"
  by (simp_all add: structure_next_def wit_reserved_reads parse_structure_def dmar_kinds parse_rmrr_def
      dmar_lengths inclusive_phys_range_def std_ext_def wit_rmrr_def wit_memory_def usize_try_from_def
      scope_next_def wit_scope_def scope_kind_from_raw_def
      single_requester_def dp_depth_def dp_entry_def checked_mul_usize_def bdf_new_def word_le_nat_alt)

lemma wit_reserved_structures:
  "structures std_ext wit_reserved = [Ok (Rmrr wit_rmrr)]" "rmrr_scopes wit_reserved wit_rmrr = [Ok wit_scope]"
  by (simp_all add: structures_def structures_from.simps wit_reserved_next DMAR_STRUCTURES_OFFSET_def
      rmrr_scopes_def scopes_from.simps wit_rmrr_def dmar_lengths)

lemma wit_rmrr_ranges: "\<exists>s. rmrr_bdf_ranges std_ext wit_reserved 3 wit_memory = Ok (Some s)"
proof -
  obtain s where s: "firm_insert (rs_empty 16) (br_single (Bdf 0x2a29)) = Ok s" "\<not> rs_is_empty s"
    using wit_insert by blast
  have "scopes_from wit_reserved 48 32 24 = [Ok wit_scope]"
    using wit_reserved_structures(2) by (simp add: rmrr_scopes_def wit_rmrr_def dmar_lengths)
  then show ?thesis
    using s by (simp add: rmrr_bdf_ranges_def for_each_structure_def wit_reserved_structures rmrr_collect_def
        walk_device_scopes_def wit_rmrr_def dmar_lengths collect_scope_def wit_scope_def bdf_walk_start_def
        DMAR_REQUESTER_WINDOW_CAPACITY_def run_walk.simps bdf_walk_result_def st_then_def st_bind_def)
qed

section \<open>Witnesses\<close>

lemma dmar_bdf_ranges_exact_witness:
  "(\<exists>s. drhd_bdf_ranges std_ext wit_dmar wit_registers = Ok (Some s) \<and> rs_inv s \<and> rs_members s = {Bdf 0x2a29}) \<and>
   (\<exists>s. rmrr_bdf_ranges std_ext wit_reserved 3 wit_memory = Ok (Some s) \<and> rs_inv s \<and> rs_members s = {Bdf 0x2a29})"
proof -
  obtain s where s: "drhd_bdf_ranges std_ext wit_dmar wit_registers = Ok (Some s)"
    using wit_drhd_ranges by blast
  obtain s' where s': "rmrr_bdf_ranges std_ext wit_reserved 3 wit_memory = Ok (Some s')"
    using wit_rmrr_ranges by blast
  have "rmrr_walked wit_reserved 3 wit_memory [Rmrr wit_rmrr] = [wit_scope]"
    by (simp add: rmrr_walked_def rmrrs_of_def wit_reserved_structures(2) oks_def) (simp add: wit_rmrr_def)
  moreover have "oks (structures std_ext wit_reserved) = [Rmrr wit_rmrr]"
    by (simp add: wit_reserved_structures(1) oks_def)
  moreover note dmar_bdf_ranges_exact [of std_ext wit_reserved wit_registers None 3 wit_memory "Some s'"] s'
  moreover note dmar_bdf_ranges_exact [of std_ext wit_dmar wit_registers "Some s" 3 wit_memory None] s
  ultimately show ?thesis by (simp add: wit_walk names_exactly_def)
qed

lemma drhd_requester_match_exact_witness:
  "drhd_requester_match std_ext wit_dmar wit_registers (pci_from_segment_bdf 3 (Bdf 0x2a29)) =
     Ok (Some Covered) \<and>
   drhd_requester_match std_ext wit_dmar wit_registers (pci_from_segment_bdf 3 (Bdf 0x2a2a)) =
     Ok (Some NotCovered)"
  by (simp add: drhd_requester_match_exact [OF wit_dmar_wellformed] wit_walk requester_class_def
      names_some_def has_unresolved_def wit_scopes)

lemma satc_ats_required_exact_witness:
  "satc_device_ats_required std_ext wit_dmar (pci_from_segment_bdf 3 (Bdf 0x2a29)) = Ok True"
  by (simp add: satc_ats_required_exact [OF wit_dmar_wellformed] wit_walk satc_requires_def
      names_some_def wit_scopes) (simp add: wit_satc_def)

lemma wit_dmar_length: "length (dt_sdt wit_dmar) < usize_bound"
  by (simp add: wit_dmar_def usize_bound_def)



end
