(* ===== verification/Dmar_Encode.thy ===== *)
theory Dmar_Encode
  imports Dmar_Facts
begin

text \<open>
  Tables as firmware writes them: an encoder of remapping units with their device scopes, and the
  proof that the parser of \<open>dmar.rs\<close> reads back what was encoded. The encoder follows the layout of
  the VT-d specification and is the reference; it models no code.
\<close>

section \<open>Bytes at a place\<close>

definition holds_at :: "u8 list \<Rightarrow> usize \<Rightarrow> u8 list \<Rightarrow> bool" where
  "holds_at bytes offset bs \<longleftrightarrow> (\<exists>before after. bytes = before @ bs @ after \<and> length before = offset)"

lemma holds_at_append:
  "holds_at bytes offset (xs @ ys) \<Longrightarrow> holds_at bytes offset xs \<and> holds_at bytes (offset + length xs) ys"
  by (auto simp: holds_at_def) (metis append.assoc length_append)

fun holds_parts :: "u8 list \<Rightarrow> usize \<Rightarrow> u8 list list \<Rightarrow> bool" where
  "holds_parts bytes offset [] \<longleftrightarrow> True"
| "holds_parts bytes offset (p # ps) \<longleftrightarrow> holds_at bytes offset p \<and> holds_parts bytes (offset + length p) ps"

lemma holds_at_concat: "holds_at bytes offset (concat ps) \<Longrightarrow> holds_parts bytes offset ps"
  by (induction ps arbitrary: offset) (auto dest: holds_at_append)

lemma holds_at_bound: "holds_at bytes offset bs \<Longrightarrow> offset + length bs \<le> length bytes"
  by (auto simp: holds_at_def)

lemma holds_at_field: "holds_at bytes offset bs \<Longrightarrow> field_at bytes offset (length bs) = word_of_le bs"
  by (auto simp: holds_at_def field_at_def)

lemma holds_at_slice: "holds_at bytes offset bs \<Longrightarrow> slice bytes offset (offset + length bs) = Ok bs"
  by (auto simp: holds_at_def slice_def)

lemma holds_at_read:
  assumes "length bytes < usize_bound" and "holds_at bytes offset bs"
  shows "bs = [b] \<Longrightarrow> read_u8 M bytes offset = Ok b"
    and "length bs = 2 \<Longrightarrow> read_u16 M bytes offset = Ok (word_of_le bs)"
    and "length bs = 8 \<Longrightarrow> read_u64 M bytes offset = Ok (word_of_le bs)"
proof -
  note b = holds_at_bound [OF assms(2)] and f = holds_at_field [OF assms(2)]
  show "bs = [b] \<Longrightarrow> read_u8 M bytes offset = Ok b"
    using assms by (auto simp: holds_at_def read_Ok(1) nth_append)
  show "length bs = 2 \<Longrightarrow> read_u16 M bytes offset = Ok (word_of_le bs)"
    using read_Ok(2) [OF assms(1), of offset M] b f [where ?'a = 16] by simp
  show "length bs = 8 \<Longrightarrow> read_u64 M bytes offset = Ok (word_of_le bs)"
    using read_Ok(4) [OF assms(1), of offset M] b f [where ?'a = 64] by simp
qed

lemma unat_of_small: "n < 2 ^ LENGTH('a) \<Longrightarrow> unat (word_of_nat n :: 'a::len word) = n"
  by (simp add: unsigned_of_nat take_bit_nat_eq_self)

definition le16 :: "u16 \<Rightarrow> u8 list" where
  "le16 w = [ucast w, ucast (drop_bit 8 w)]"

lemma le16_simps [simp]: "length (le16 w) = 2" "word_of_le (le16 w) = w"
proof -
  show "word_of_le (le16 w) = w"
    by (rule bit_word_eqI) (auto simp: le16_def bit_simps)
qed (simp add: le16_def)

section \<open>The encoder\<close>

record scope_spec =
  sp_kind :: u8
  sp_flags :: u8
  sp_enumeration :: u8
  sp_bus :: u8
  sp_path :: "(u8 \<times> u8) list"

record unit_spec =
  us_flags :: u8
  us_segment :: u16
  us_base :: u64
  us_scopes :: "scope_spec list"

definition path_bytes :: "(u8 \<times> u8) list \<Rightarrow> u8 list" where
  "path_bytes p = concat (map (\<lambda>(device, function'). [device, function']) p)"

lemma length_path_bytes [simp]: "length (path_bytes p) = 2 * length p"
  by (induction p) (auto simp: path_bytes_def)

definition encode_scope :: "scope_spec \<Rightarrow> u8 list" where
  "encode_scope s = [sp_kind s, word_of_nat (6 + 2 * length (sp_path s)), sp_flags s, 0, sp_enumeration s, sp_bus s] @
     path_bytes (sp_path s)"

definition encode_unit :: "unit_spec \<Rightarrow> u8 list" where
  "encode_unit u =
     (let scopes = concat (map encode_scope (us_scopes u))
      in le16 0 @ le16 (word_of_nat (16 + length scopes)) @ [us_flags u] @ [0] @ le16 (us_segment u) @
         le_bytes (us_base u) @ scopes)"

definition scope_ok :: "scope_spec \<Rightarrow> bool" where
  "scope_ok s \<longleftrightarrow> 6 + 2 * length (sp_path s) < 2 ^ 8"

definition unit_ok :: "unit_spec \<Rightarrow> bool" where
  "unit_ok u \<longleftrightarrow> (\<forall>s \<in> set (us_scopes u). scope_ok s) \<and> length (encode_unit u) < 2 ^ 16 \<and>
     unat (us_base u) + 4096 < usize_bound"

text \<open>What the parser is to yield for a scope.\<close>

definition scope_of :: "scope_spec \<Rightarrow> dmar_scope" where
  "scope_of s = \<lparr>sc_kind = scope_kind_from_raw (sp_kind s), sc_flags = sp_flags s,
     sc_enumeration_id = sp_enumeration s, sc_start_bus = sp_bus s,
     sc_path = \<lparr>dp_bytes = path_bytes (sp_path s)\<rparr>,
     sc_requester = (case sp_path s of
        [(device, function')] \<Rightarrow> map_option br_single (res_ok (bdf_new (sp_bus s) device function'))
      | _ \<Rightarrow> None)\<rparr>"

lemma length_encode_scope [simp]: "length (encode_scope s) = 6 + 2 * length (sp_path s)"
  by (simp add: encode_scope_def)

lemma length_encode_unit:
  "length (encode_unit u) = 16 + length (concat (map encode_scope (us_scopes u)))"
  by (simp add: encode_unit_def Let_def)

section \<open>Reading back\<close>

lemma single_requester_path:
  "map_option br_single (res_ok (single_requester \<lparr>dp_bytes = path_bytes p\<rparr> bus)) =
     (case p of [(device, function')] \<Rightarrow> map_option br_single (res_ok (bdf_new bus device function')) | _ \<Rightarrow> None)"
proof -
  let ?single = "case p of [(device, function')] \<Rightarrow> res_ok (bdf_new bus device function') | _ \<Rightarrow> None"
  have "res_ok (single_requester \<lparr>dp_bytes = path_bytes p\<rparr> bus) = Some b \<longleftrightarrow> ?single = Some b" for b
    unfolding res_ok_Some_iff single_requester_Ok_iff [of "\<lparr>dp_bytes = path_bytes p\<rparr>" bus b,
        unfolded dmar_scope_path.simps length_path_bytes, OF dvd_triv_left]
    by (cases p rule: remdups_adj.cases) (auto simp: path_bytes_def res_ok_Some_iff split: prod.splits)
  then have "res_ok (single_requester \<lparr>dp_bytes = path_bytes p\<rparr> bus) = ?single"
    by (metis not_None_eq)
  then show ?thesis by (auto split: list.splits)
qed

lemma scope_next_encoded:
  assumes "length (dt_sdt t) < usize_bound" and "holds_at (dt_sdt t) (so + offset) (encode_scope s)"
    and "scope_ok s" and "offset + length (encode_scope s) \<le> sl"
  shows "scope_next t so sl offset = Some (Ok (scope_of s), offset + length (encode_scope s))"
proof -
  let ?n = "6 + 2 * length (sp_path s)"
  define l :: u8 where "l = word_of_nat ?n"
  have n: "unat l = ?n"
    unfolding l_def using assms(3) by (intro unat_of_small) (simp add: scope_ok_def)
  have "encode_scope s = concat [[sp_kind s], [l], [sp_flags s], [0], [sp_enumeration s],
      [sp_bus s], path_bytes (sp_path s)]"
    by (simp add: encode_scope_def l_def)
  then have parts: "holds_parts (dt_sdt t) (so + offset) [[sp_kind s], [l], [sp_flags s], [0],
      [sp_enumeration s], [sp_bus s], path_bytes (sp_path s)]"
    using assms(2) holds_at_concat by metis
  have at: "holds_at (dt_sdt t) (so + offset) [sp_kind s]"
    "holds_at (dt_sdt t) (so + offset + 1) [l]"
    "holds_at (dt_sdt t) (so + offset + 2) [sp_flags s]"
    "holds_at (dt_sdt t) (so + offset + 4) [sp_enumeration s]"
    "holds_at (dt_sdt t) (so + offset + 5) [sp_bus s]"
    "holds_at (dt_sdt t) (so + offset + 6) (path_bytes (sp_path s))"
    using parts by (simp_all add: eval_nat_numeral)
  note r = at(1-5) [THEN holds_at_read(1) [OF assms(1) _ refl], simplified]
  have path: "slice (dt_sdt t) (so + offset + 6) (so + offset + ?n) = Ok (path_bytes (sp_path s))"
    using holds_at_slice [OF at(6)] by (simp add: add.assoc)
  show ?thesis
    using assms(4) by (simp add: scope_next_def dmar_lengths r n path Let_def scope_of_def single_requester_path)
qed

lemma scopes_encoded:
  assumes "length (dt_sdt t) < usize_bound" and "\<forall>s \<in> set ss. scope_ok s"
    and "holds_at (dt_sdt t) (so + offset) (concat (map encode_scope ss))"
    and "offset + length (concat (map encode_scope ss)) = sl"
  shows "scopes_from t so sl offset = map (\<lambda>s. Ok (scope_of s)) ss"
  using assms
proof (induction ss arbitrary: offset)
  case Nil
  then show ?case by (subst scopes.items_eq) (simp add: scope_next_def)
next
  case (Cons s ss)
  have h: "holds_at (dt_sdt t) (so + offset) (encode_scope s)"
    "holds_at (dt_sdt t) (so + (offset + length (encode_scope s))) (concat (map encode_scope ss))"
    using Cons.prems(3) by (auto dest!: holds_at_append simp: add.assoc)
  have "scope_next t so sl offset = Some (Ok (scope_of s), offset + length (encode_scope s))"
    using scope_next_encoded [OF Cons.prems(1) h(1)] Cons.prems(2,4) by simp
  then show ?case
    using Cons.IH [OF Cons.prems(1) _ h(2)] Cons.prems(2,4)
    by (subst scopes.items_eq) simp
qed

text \<open>What the parser is to yield for a unit at an offset.\<close>

definition unit_of :: "unit_spec \<Rightarrow> usize \<Rightarrow> dmar_drhd" where
  "unit_of u offset = \<lparr>drhd_flags = us_flags u, drhd_segment = us_segment u,
     drhd_registers = \<lparr>r_start = unat (us_base u), r_end = unat (us_base u) + 4096\<rparr>,
     drhd_include_all = bit (us_flags u) 0, drhd_has_device_scopes = (us_scopes u \<noteq> []),
     drhd_structure_offset = offset, drhd_length = length (encode_unit u)\<rparr>"

lemma unit_encoded:
  assumes "ext_ok E" and "length (dt_sdt t) < usize_bound" and "holds_at (dt_sdt t) offset (encode_unit u)"
    and "unit_ok u"
  shows "structure_next E t offset = Some (Ok (Drhd (unit_of u offset)), offset + length (encode_unit u))"
    and "drhd_scopes t (unit_of u offset) = map (\<lambda>s. Ok (scope_of s)) (us_scopes u)"
proof -
  let ?scopes = "concat (map encode_scope (us_scopes u))"
  let ?n = "16 + length ?scopes"
  have len: "length (encode_unit u) = ?n" by (rule length_encode_unit)
  define l :: u16 where "l = word_of_nat ?n"
  have n: "unat l = ?n"
    unfolding l_def using assms(4) len by (intro unat_of_small) (simp add: unit_ok_def)
  have "encode_unit u = concat [le16 0, le16 l, [us_flags u] @ [0], le16 (us_segment u),
      le_bytes (us_base u), ?scopes]"
    by (simp add: encode_unit_def Let_def l_def)
  then have parts: "holds_parts (dt_sdt t) offset [le16 0, le16 l, [us_flags u] @ [0],
      le16 (us_segment u), le_bytes (us_base u), ?scopes]"
    using assms(3) holds_at_concat by metis
  have at: "holds_at (dt_sdt t) offset (le16 0)" "holds_at (dt_sdt t) (offset + 2) (le16 l)"
    "holds_at (dt_sdt t) (offset + 4) ([us_flags u] @ [0])" "holds_at (dt_sdt t) (offset + 6) (le16 (us_segment u))"
    "holds_at (dt_sdt t) (offset + 8) (le_bytes (us_base u))" "holds_at (dt_sdt t) (offset + 16) ?scopes"
    using parts by (simp_all add: eval_nat_numeral)
  note r2 = at(1,2,4) [THEN holds_at_read(2) [OF assms(2)], simplified]
  note r1 = holds_at_read(1) [OF assms(2) conjunct1 [OF holds_at_append [OF at(3)]] refl] and r8 = holds_at_read(3) [OF assms(2) at(5), simplified]
  have window: "mmio_register_window E (us_base u) 0x1000 ae re =
      Ok \<lparr>r_start = unat (us_base u), r_end = unat (us_base u) + 4096\<rparr>" for ae re
    using assms(4) by (simp add: mmio_register_window_Ok_iff [OF assms(1)] unit_ok_def)
  have some: "0 < length ?scopes \<longleftrightarrow> us_scopes u \<noteq> []"
    by (cases "us_scopes u") simp_all
  have inside: "offset + ?n \<le> length (dt_sdt t)" using holds_at_bound [OF assms(3)] len by simp
  show "structure_next E t offset = Some (Ok (Drhd (unit_of u offset)), offset + length (encode_unit u))"
    using inside
    by (simp add: structure_next_def r2 n Let_def parse_structure_def parse_drhd_def dmar_kinds dmar_lengths
        r1 r8 window VTD_REGISTER_WINDOW_SIZE_def unit_of_def len some [symmetric] del: length_concat)
  show "drhd_scopes t (unit_of u offset) = map (\<lambda>s. Ok (scope_of s)) (us_scopes u)"
    using scopes_encoded [OF assms(2) _ at(6)] assms(4)
    by (simp add: drhd_scopes_def unit_of_def DRHD_MIN_LENGTH_def unit_ok_def len del: length_concat)
qed

definition reads_back :: "dmar_table \<Rightarrow> unit_spec \<Rightarrow> (dmar_structure, firm_error) res \<Rightarrow> bool" where
  "reads_back t u r \<longleftrightarrow>
     (\<exists>offset. r = Ok (Drhd (unit_of u offset)) \<and>
        drhd_scopes t (unit_of u offset) = map (\<lambda>s. Ok (scope_of s)) (us_scopes u))"

lemma structures_encoded:
  assumes "ext_ok E" and "length (dt_sdt t) < usize_bound" and "\<forall>u \<in> set us. unit_ok u"
    and "holds_at (dt_sdt t) offset (concat (map encode_unit us))"
    and "offset + length (concat (map encode_unit us)) = length (dt_sdt t)"
  shows "list_all2 (reads_back t) us (structures_from E t offset)"
  using assms
proof (induction us arbitrary: offset)
  case Nil
  then show ?case by (subst structures.items_eq) (simp add: structure_next_def)
next
  case (Cons u us)
  have h: "holds_at (dt_sdt t) offset (encode_unit u)"
    "holds_at (dt_sdt t) (offset + length (encode_unit u)) (concat (map encode_unit us))"
    using Cons.prems(4) by (auto dest!: holds_at_append)
  have ok: "unit_ok u" using Cons.prems(3) by simp
  note one = unit_encoded [OF Cons.prems(1,2) h(1) ok]
  have "list_all2 (reads_back t) us (structures_from E t (offset + length (encode_unit u)))"
    using Cons.prems(5) by (intro Cons.IH [OF Cons.prems(1,2) _ h(2)]) (use Cons.prems(3) in simp_all)
  then show ?case
    using one by (subst structures.items_eq) (auto simp: reads_back_def)
qed

section \<open>Properties\<close>

text \<open>C18. Round trip of the DMAR parser: of a table that firmware builds as a 48-byte header followed by
remapping units with device scopes, encoded as the VT-d specification lays them out, the iterator
yields exactly these units in order, with the flags, segment and register window of each, and the walk
over a unit's device scopes yields exactly its scopes with their kind, flags, enumeration identifier,
start bus and path; a scope has a requester exactly when its path is one valid device and function.\<close>

theorem dmar_units_roundtrip:
  assumes "ext_ok E" and "length header = 48" and "\<forall>u \<in> set us. unit_ok u"
    and "48 + length (concat (map encode_unit us)) < usize_bound"
  shows "let t = \<lparr>dt_sdt = header @ concat (map encode_unit us)\<rparr>
    in list_all2 (reads_back t) us (structures E t)"
proof -
  let ?t = "\<lparr>dt_sdt = header @ concat (map encode_unit us)\<rparr> :: dmar_table"
  have "holds_at (dt_sdt ?t) 48 (concat (map encode_unit us))"
    unfolding holds_at_def using assms(2) by (intro exI [of _ header] exI [of _ "[]"]) simp
  then have "list_all2 (reads_back ?t) us (structures_from E ?t 48)"
    using assms by (intro structures_encoded) simp_all
  then show ?thesis by (simp add: structures_def DMAR_STRUCTURES_OFFSET_def Let_def)
qed

definition wit_unit_spec :: unit_spec where
  "wit_unit_spec = \<lparr>us_flags = 0, us_segment = 7, us_base = 0xfed90000,
     us_scopes = [\<lparr>sp_kind = 1, sp_flags = 0, sp_enumeration = 0, sp_bus = 2, sp_path = [(3, 1)]\<rparr>,
                  \<lparr>sp_kind = 2, sp_flags = 0, sp_enumeration = 0, sp_bus = 0, sp_path = [(28, 0), (4, 0)]\<rparr>]\<rparr>"

lemma dmar_units_roundtrip_witness:
  "\<exists>d. structures std_ext \<lparr>dt_sdt = replicate 48 0 @ encode_unit wit_unit_spec\<rparr> = [Ok (Drhd d)] \<and>
     drhd_segment d = 7 \<and> r_start (drhd_registers d) = 0xfed90000 \<and> drhd_length d = 34"
proof -
  have len: "length (encode_unit wit_unit_spec) = 34"
    by (simp add: length_encode_unit wit_unit_spec_def)
  have ok: "\<forall>u \<in> set [wit_unit_spec]. unit_ok u"
    using len by (simp add: unit_ok_def usize_bound_def) (simp add: wit_unit_spec_def scope_ok_def)
  have small: "48 + length (concat (map encode_unit [wit_unit_spec])) < usize_bound"
    using len by (simp add: usize_bound_def)
  have "list_all2 (reads_back \<lparr>dt_sdt = replicate 48 0 @ encode_unit wit_unit_spec\<rparr>) [wit_unit_spec]
      (structures std_ext \<lparr>dt_sdt = replicate 48 0 @ encode_unit wit_unit_spec\<rparr>)"
    using dmar_units_roundtrip [OF std_ext_ok _ ok small, of "replicate 48 0"] by (simp add: Let_def)
  then show ?thesis
    by (auto simp: list_all2_Cons1 reads_back_def unit_of_def len) (simp_all add: wit_unit_spec_def)
qed

end
