(* ===== verification/Ivrs.thy ===== *)
theory Ivrs
  imports Firm_Table
begin

text \<open>
  \<open>src/arch/x86_64/amd/ivrs.rs\<close>: the parser of the ACPI IVRS table. A table is the byte slice of its
  SDT; the iterator over its blocks is a step function on an offset, the walk over the device entries
  of a block a step function on the offset and the pending start of a range.
\<close>

section \<open>Constants and data\<close>

definition IVRS_IVINFO_OFFSET :: usize where "IVRS_IVINFO_OFFSET = 36"
definition IVRS_BLOCKS_OFFSET :: usize where "IVRS_BLOCKS_OFFSET = 48"

definition IVHD_TYPE_10H :: u8 where "IVHD_TYPE_10H = 0x10"
definition IVHD_TYPE_11H :: u8 where "IVHD_TYPE_11H = 0x11"
definition IVHD_TYPE_40H :: u8 where "IVHD_TYPE_40H = 0x40"
definition IVMD_TYPE_ALL :: u8 where "IVMD_TYPE_ALL = 0x20"
definition IVMD_TYPE_SPECIFIED :: u8 where "IVMD_TYPE_SPECIFIED = 0x21"
definition IVMD_TYPE_RANGE :: u8 where "IVMD_TYPE_RANGE = 0x22"

lemmas ivrs_kinds = IVHD_TYPE_10H_def IVHD_TYPE_11H_def IVHD_TYPE_40H_def
  IVMD_TYPE_ALL_def IVMD_TYPE_SPECIFIED_def IVMD_TYPE_RANGE_def

definition IVHD_FLAGS_OFFSET :: usize where "IVHD_FLAGS_OFFSET = 1"
definition IVHD_LENGTH_OFFSET :: usize where "IVHD_LENGTH_OFFSET = 2"
definition IVHD_DEVICE_ID_OFFSET :: usize where "IVHD_DEVICE_ID_OFFSET = 4"
definition IVHD_CAP_OFFSET :: usize where "IVHD_CAP_OFFSET = 6"
definition IVHD_BASE_ADDR_OFFSET :: usize where "IVHD_BASE_ADDR_OFFSET = 8"
definition IVHD_SEGMENT_OFFSET :: usize where "IVHD_SEGMENT_OFFSET = 16"
definition IVHD_INFO_OFFSET :: usize where "IVHD_INFO_OFFSET = 18"
definition IVHD_10H_FEATURE_OFFSET :: usize where "IVHD_10H_FEATURE_OFFSET = 20"
definition IVHD_10H_DEVICE_ENTRIES_OFFSET :: usize where "IVHD_10H_DEVICE_ENTRIES_OFFSET = 24"
definition IVHD_11H_EFR_OFFSET :: usize where "IVHD_11H_EFR_OFFSET = 24"
definition IVHD_11H_DEVICE_ENTRIES_OFFSET :: usize where "IVHD_11H_DEVICE_ENTRIES_OFFSET = 40"
definition IVHD_10H_MIN_LENGTH :: usize where "IVHD_10H_MIN_LENGTH = 24"
definition IVHD_11H_MIN_LENGTH :: usize where "IVHD_11H_MIN_LENGTH = 40"
definition IVMD_MIN_LENGTH :: usize where "IVMD_MIN_LENGTH = 24"
definition IVMD_FLAGS_OFFSET :: usize where "IVMD_FLAGS_OFFSET = 1"
definition IVMD_DEVICE_ID_OFFSET :: usize where "IVMD_DEVICE_ID_OFFSET = 4"
definition IVMD_AUX_OFFSET :: usize where "IVMD_AUX_OFFSET = 6"
definition IVMD_START_ADDR_OFFSET :: usize where "IVMD_START_ADDR_OFFSET = 8"
definition IVMD_MEM_LENGTH_OFFSET :: usize where "IVMD_MEM_LENGTH_OFFSET = 16"

lemmas ivrs_offsets = IVHD_FLAGS_OFFSET_def IVHD_LENGTH_OFFSET_def IVHD_DEVICE_ID_OFFSET_def
  IVHD_CAP_OFFSET_def IVHD_BASE_ADDR_OFFSET_def IVHD_SEGMENT_OFFSET_def IVHD_INFO_OFFSET_def
  IVHD_10H_FEATURE_OFFSET_def IVHD_10H_DEVICE_ENTRIES_OFFSET_def IVHD_11H_EFR_OFFSET_def
  IVHD_11H_DEVICE_ENTRIES_OFFSET_def IVHD_10H_MIN_LENGTH_def IVHD_11H_MIN_LENGTH_def
  IVMD_MIN_LENGTH_def IVMD_FLAGS_OFFSET_def IVMD_DEVICE_ID_OFFSET_def IVMD_AUX_OFFSET_def
  IVMD_START_ADDR_OFFSET_def IVMD_MEM_LENGTH_OFFSET_def IVRS_BLOCKS_OFFSET_def

definition DEVENTRY_PAD :: u8 where "DEVENTRY_PAD = 0x00"
definition DEVENTRY_ALL :: u8 where "DEVENTRY_ALL = 0x01"
definition DEVENTRY_SELECT :: u8 where "DEVENTRY_SELECT = 0x02"
definition DEVENTRY_RANGE_START :: u8 where "DEVENTRY_RANGE_START = 0x03"
definition DEVENTRY_RANGE_END :: u8 where "DEVENTRY_RANGE_END = 0x04"
definition DEVENTRY_ALIAS_SELECT :: u8 where "DEVENTRY_ALIAS_SELECT = 0x42"
definition DEVENTRY_ALIAS_RANGE_START :: u8 where "DEVENTRY_ALIAS_RANGE_START = 0x43"
definition DEVENTRY_EXTENDED_SELECT :: u8 where "DEVENTRY_EXTENDED_SELECT = 0x46"
definition DEVENTRY_EXTENDED_RANGE_START :: u8 where "DEVENTRY_EXTENDED_RANGE_START = 0x47"
definition DEVENTRY_SPECIAL :: u8 where "DEVENTRY_SPECIAL = 0x48"
definition DEVENTRY_ACPI_NAMED :: u8 where "DEVENTRY_ACPI_NAMED = 0xf0"
definition DEVENTRY_ACPI_NAMED_MIN_LENGTH :: usize where "DEVENTRY_ACPI_NAMED_MIN_LENGTH = 22"

lemmas deventry_kinds = DEVENTRY_PAD_def DEVENTRY_ALL_def DEVENTRY_SELECT_def
  DEVENTRY_RANGE_START_def DEVENTRY_RANGE_END_def DEVENTRY_ALIAS_SELECT_def
  DEVENTRY_ALIAS_RANGE_START_def DEVENTRY_EXTENDED_SELECT_def DEVENTRY_EXTENDED_RANGE_START_def
  DEVENTRY_SPECIAL_def DEVENTRY_ACPI_NAMED_def

definition IVHD_FLAG_IOTLB_SUP :: u8 where "IVHD_FLAG_IOTLB_SUP = push_bit 4 1"
definition IVHD_FLAG_COHERENT :: u8 where "IVHD_FLAG_COHERENT = push_bit 5 1"
definition IVHD_FLAG_PREFSUP :: u8 where "IVHD_FLAG_PREFSUP = push_bit 6 1"
definition IVHD_FLAG_PPRSUP :: u8 where "IVHD_FLAG_PPRSUP = push_bit 7 1"
definition AMD_VI_REGISTER_WINDOW_SIZE :: usize where "AMD_VI_REGISTER_WINDOW_SIZE = 0x4000"
definition IVRS_REQUESTER_WINDOW_CAPACITY :: usize where "IVRS_REQUESTER_WINDOW_CAPACITY = 16"

definition ivrs_msgs :: read_msgs where
  "ivrs_msgs = \<lparr>rm_overflow = ''IVRS read offset overflow'',
                rm_bounds = ''IVRS table read is out of bounds''\<rparr>"

record ivrs_table =
  it_sdt :: "u8 list"

record ivrs_unknown =
  iu_kind :: u8
  iu_offset :: usize
  iu_length :: usize

record ivhd =
  ivhd_block_type :: u8
  ivhd_flags :: u8
  ivhd_registers :: addr_range
  ivhd_device :: pci_device
  ivhd_capability_offset :: u16
  ivhd_iommu_info :: u16
  ivhd_feature_info :: "u32 option"
  ivhd_efr :: "u64 option"
  ivhd_include_all :: bool
  ivhd_has_device_scopes :: bool
  ivhd_block_offset :: usize
  ivhd_length :: usize

record ivmd =
  ivmd_type :: u8
  ivmd_flags :: u8
  ivmd_device_id :: bdf
  ivmd_aux_device_id :: bdf
  ivmd_memory :: addr_range

datatype ivrs_block = Ivhd ivhd | Ivmd ivmd | IvrsUnknown ivrs_unknown

datatype pending_kind = PlainRange | AliasRangeOf bdf | ExtendedRangeOf u32

record pending_range =
  pr_start :: bdf
  pr_kind :: pending_kind
  pr_data_setting :: u8

datatype ivhd_entry =
    Pad
  | AllDevices (ie_data: u8)
  | Select (ie_id: bdf) (ie_data: u8)
  | Range (ie_start: bdf) (ie_end: bdf) (ie_data: u8)
  | AliasSelect (ie_id: bdf) (ie_source: bdf) (ie_data: u8)
  | AliasRange (ie_start: bdf) (ie_end: bdf) (ie_source: bdf) (ie_data: u8)
  | ExtendedSelect (ie_id: bdf) (ie_data: u8) (ie_extended: u32)
  | ExtendedRange (ie_start: bdf) (ie_end: bdf) (ie_data: u8) (ie_extended: u32)
  | SpecialDevice (ie_id: bdf) (ie_variety: u8)
  | AcpiNamed (ie_id: bdf) (ie_data: u8) (ie_hardware_id: u64) (ie_compatible_id: u64)
      (ie_uid_format: u8) (ie_uid: "u8 list")

definition ivhd_segment :: "ivhd \<Rightarrow> u16" where
  "ivhd_segment u = pci_segment (ivhd_device u)"

definition ivhd_bdf :: "ivhd \<Rightarrow> bdf" where
  "ivhd_bdf u = pci_bdf (ivhd_device u)"

definition iotlb_support :: "ivhd \<Rightarrow> bool" where
  "iotlb_support u \<longleftrightarrow> ivhd_flags u AND IVHD_FLAG_IOTLB_SUP \<noteq> 0"

definition coherent :: "ivhd \<Rightarrow> bool" where
  "coherent u \<longleftrightarrow> ivhd_flags u AND IVHD_FLAG_COHERENT \<noteq> 0"

definition prefsup :: "ivhd \<Rightarrow> bool" where
  "prefsup u \<longleftrightarrow> ivhd_flags u AND IVHD_FLAG_PREFSUP \<noteq> 0"

definition pprsup :: "ivhd \<Rightarrow> bool" where
  "pprsup u \<longleftrightarrow> ivhd_flags u AND IVHD_FLAG_PPRSUP \<noteq> 0"

definition ivmd_is_all_devices :: "ivmd \<Rightarrow> bool" where
  "ivmd_is_all_devices m \<longleftrightarrow> ivmd_type m = IVMD_TYPE_ALL"

definition ivmd_is_specified :: "ivmd \<Rightarrow> bool" where
  "ivmd_is_specified m \<longleftrightarrow> ivmd_type m = IVMD_TYPE_SPECIFIED"

definition ivmd_is_range :: "ivmd \<Rightarrow> bool" where
  "ivmd_is_range m \<longleftrightarrow> ivmd_type m = IVMD_TYPE_RANGE"

definition ivmd_start_address :: "ivmd \<Rightarrow> phys_addr" where
  "ivmd_start_address m = r_start (ivmd_memory m)"

definition ivmd_limit_address :: "ivmd \<Rightarrow> (phys_addr, 'e) res" where
  "ivmd_limit_address m =
     (if r_end (ivmd_memory m) = 0 then Panic else Ok (r_end (ivmd_memory m) - 1))"

section \<open>The table header\<close>

definition ivrs_parse :: "ext_ops \<Rightarrow> u8 list \<Rightarrow> (ivrs_table, firm_error) res" where
  "ivrs_parse E bytes =
     res_bind (table_bytes E ''IVRS'' ''IVRS table shorter than SDT header''
                 ''IVRS table length is invalid'' bytes) (\<lambda>sdt.
     if length sdt < IVRS_BLOCKS_OFFSET then Err (FirmMalformed ''IVRS table shorter than fixed header'')
     else Ok \<lparr>it_sdt = sdt\<rparr>)"

definition ivinfo :: "ivrs_table \<Rightarrow> (u32, firm_error) res" where
  "ivinfo t = read_u32 ivrs_msgs (it_sdt t) IVRS_IVINFO_OFFSET"

definition phys_range_from_start_size :: "ext_ops \<Rightarrow> u64 \<Rightarrow> u64 \<Rightarrow> string \<Rightarrow> string \<Rightarrow> (addr_range, firm_error) res" where
  "phys_range_from_start_size E start sz addr_error range_error =
     res_bind (ok_or (usize_try_from start) (FirmMalformed addr_error)) (\<lambda>a.
     res_bind (ok_or (usize_try_from sz) (FirmMalformed addr_error)) (\<lambda>n.
     if n = 0 then Err (FirmMalformed range_error)
     else ok_or (range_try_from_start_size E a n) (FirmMalformed range_error)))"

definition device_entries_offset :: "u8 \<Rightarrow> usize" where
  "device_entries_offset block_type =
     (if block_type = IVHD_TYPE_11H \<or> block_type = IVHD_TYPE_40H then IVHD_11H_DEVICE_ENTRIES_OFFSET
      else IVHD_10H_DEVICE_ENTRIES_OFFSET)"

section \<open>Device entries\<close>

text \<open>
  The size of an entry: \<open>None\<close> ends the walk (the reserved kinds from \<open>0xf1\<close>).
\<close>

definition entry_size :: "ivrs_table \<Rightarrow> usize \<Rightarrow> usize \<Rightarrow> usize \<Rightarrow> u8 \<Rightarrow> (usize option, firm_error) res" where
  "entry_size t block_offset block_length offset entry_type =
     (if entry_type \<le> 0x04 then Ok (Some 4)
      else if entry_type \<in> {0x42, 0x43, 0x46, 0x47, 0x48} then Ok (Some 8)
      else if entry_type = DEVENTRY_ACPI_NAMED then
        if block_length < offset + DEVENTRY_ACPI_NAMED_MIN_LENGTH
        then Err (FirmMalformed ''IVHD ACPI named device entry truncated before UID length'')
        else res_map (\<lambda>n. Some (DEVENTRY_ACPI_NAMED_MIN_LENGTH + unat n))
               (read_u8 ivrs_msgs (it_sdt t) (block_offset + offset + 21))
      else if 0xf1 \<le> entry_type then Ok None
      else Ok (Some 4))"

text \<open>The requester and the data setting, and then the entry: what it passes to the closure, if
  anything, and the pending range after it.\<close>

definition entry_ids :: "ivrs_table \<Rightarrow> usize \<Rightarrow> u8 \<Rightarrow> (bdf \<times> u8, firm_error) res" where
  "entry_ids t entry_offset entry_type =
     (if entry_type = DEVENTRY_ACPI_NAMED then
        res_bind (read_u16 ivrs_msgs (it_sdt t) (entry_offset + 1)) (\<lambda>d.
        res_bind (read_u8 ivrs_msgs (it_sdt t) (entry_offset + 3)) (\<lambda>s. Ok (Bdf d, s)))
      else
        res_bind (read_u16 ivrs_msgs (it_sdt t) (entry_offset + 2)) (\<lambda>d.
        res_bind (read_u8 ivrs_msgs (it_sdt t) (entry_offset + 1)) (\<lambda>s. Ok (Bdf d, s))))"

fun range_entry :: "pending_range \<Rightarrow> bdf \<Rightarrow> ivhd_entry" where
  "range_entry p device_id =
     (case pr_kind p of
        PlainRange \<Rightarrow> Range (pr_start p) device_id (pr_data_setting p)
      | AliasRangeOf source \<Rightarrow> AliasRange (pr_start p) device_id source (pr_data_setting p)
      | ExtendedRangeOf extended \<Rightarrow> ExtendedRange (pr_start p) device_id (pr_data_setting p) extended)"

definition entry_decode :: "ivrs_table \<Rightarrow> usize \<Rightarrow> usize \<Rightarrow> u8 \<Rightarrow> bdf \<Rightarrow> u8 \<Rightarrow> pending_range option \<Rightarrow>
    (ivhd_entry option \<times> pending_range option, firm_error) res" where
  "entry_decode t entry_offset size' entry_type device_id data_setting pending =
     (if entry_type = DEVENTRY_PAD then Ok (Some Pad, pending)
      else if entry_type = DEVENTRY_ALL then Ok (Some (AllDevices data_setting), pending)
      else if entry_type = DEVENTRY_SELECT then Ok (Some (Select device_id data_setting), pending)
      else if entry_type = DEVENTRY_RANGE_START then
        Ok (None, Some \<lparr>pr_start = device_id, pr_kind = PlainRange, pr_data_setting = data_setting\<rparr>)
      else if entry_type = DEVENTRY_ALIAS_RANGE_START then
        res_bind (read_u16 ivrs_msgs (it_sdt t) (entry_offset + 6)) (\<lambda>source.
        Ok (None, Some \<lparr>pr_start = device_id, pr_kind = AliasRangeOf (Bdf source), pr_data_setting = data_setting\<rparr>))
      else if entry_type = DEVENTRY_EXTENDED_RANGE_START then
        res_bind (read_u32 ivrs_msgs (it_sdt t) (entry_offset + 4)) (\<lambda>extended.
        Ok (None, Some \<lparr>pr_start = device_id, pr_kind = ExtendedRangeOf extended, pr_data_setting = data_setting\<rparr>))
      else if entry_type = DEVENTRY_RANGE_END then
        (case pending of
           None \<Rightarrow> Ok (None, None)
         | Some p \<Rightarrow>
             if device_id < pr_start p then Err (FirmMalformed ''IVHD device range is reversed'')
             else Ok (Some (range_entry p device_id), None))
      else if entry_type = DEVENTRY_ALIAS_SELECT then
        res_bind (read_u16 ivrs_msgs (it_sdt t) (entry_offset + 6)) (\<lambda>source.
        Ok (Some (AliasSelect device_id (Bdf source) data_setting), pending))
      else if entry_type = DEVENTRY_EXTENDED_SELECT then
        res_bind (read_u32 ivrs_msgs (it_sdt t) (entry_offset + 4)) (\<lambda>extended.
        Ok (Some (ExtendedSelect device_id data_setting extended), pending))
      else if entry_type = DEVENTRY_SPECIAL then
        res_bind (read_u16 ivrs_msgs (it_sdt t) (entry_offset + 6)) (\<lambda>special.
        Ok (Some (SpecialDevice (Bdf special) data_setting), pending))
      else if entry_type = DEVENTRY_ACPI_NAMED then
        res_bind (read_u64 ivrs_msgs (it_sdt t) (entry_offset + 4)) (\<lambda>hardware.
        res_bind (read_u64 ivrs_msgs (it_sdt t) (entry_offset + 12)) (\<lambda>compatible.
        res_bind (read_u8 ivrs_msgs (it_sdt t) (entry_offset + 20)) (\<lambda>uid_format.
        res_bind (slice (it_sdt t) (entry_offset + DEVENTRY_ACPI_NAMED_MIN_LENGTH) (entry_offset + size')) (\<lambda>uid.
        Ok (Some (AcpiNamed device_id data_setting hardware compatible uid_format uid), pending)))))
      else Ok (None, pending))"

text \<open>One round of the loop of \<open>walk_device_entries\<close>, up to the call of its closure.\<close>

type_synonym entry_cursor = "usize \<times> pending_range option"

definition entry_next :: "ivrs_table \<Rightarrow> usize \<Rightarrow> usize \<Rightarrow> entry_cursor \<Rightarrow>
    ((ivhd_entry option, firm_error) res \<times> entry_cursor) option" where
  "entry_next t block_offset block_length cursor =
     (let offset = fst cursor; entry_offset = block_offset + offset
      in if block_length \<le> offset then None
         else case res_bind (read_u8 ivrs_msgs (it_sdt t) entry_offset) (\<lambda>entry_type.
                   res_map (\<lambda>n. (entry_type, n)) (entry_size t block_offset block_length offset entry_type)) of
             Err e \<Rightarrow> Some (Err e, cursor)
           | Panic \<Rightarrow> Some (Panic, cursor)
           | Ok (_, None) \<Rightarrow> None
           | Ok (entry_type, Some size') \<Rightarrow>
               if block_length < offset + size'
               then Some (Err (FirmMalformed ''IVHD device entry extends past block''), cursor)
               else case res_bind (entry_ids t entry_offset entry_type) (\<lambda>(device_id, data_setting).
                         entry_decode t entry_offset size' entry_type device_id data_setting (snd cursor)) of
                   Err e \<Rightarrow> Some (Err e, cursor)
                 | Panic \<Rightarrow> Some (Panic, cursor)
                 | Ok (entry, pending) \<Rightarrow> Some (Ok entry, (offset + size', pending)))"

lemma entry_size_pos: "entry_size t bo bl offset k = Ok (Some n) \<Longrightarrow> 4 \<le> n"
  by (auto simp: entry_size_def DEVENTRY_ACPI_NAMED_MIN_LENGTH_def res_map_Ok_iff split: if_splits)

lemma entry_next_advances:
  assumes "entry_next t bo bl cursor = Some (Ok x, cursor')"
  shows "fst cursor < bl" "fst cursor + 4 \<le> fst cursor'" "fst cursor' \<le> bl"
  using assms
  by (auto simp: entry_next_def Let_def res_bind_Ok_iff res_map_Ok_iff dest: entry_size_pos
      split: if_splits res.splits option.splits prod.splits)

lemma entry_next_less:
  "entry_next t bo bl cursor = Some (Ok x, cursor') \<Longrightarrow> bl - fst cursor' < bl - fst cursor"
  using entry_next_advances [of t bo bl cursor x cursor'] by linarith

function entries_from :: "ivrs_table \<Rightarrow> usize \<Rightarrow> usize \<Rightarrow> entry_cursor \<Rightarrow> (ivhd_entry option, firm_error) res list" where
  "entries_from t block_offset block_length cursor =
     (case entry_next t block_offset block_length cursor of
        None \<Rightarrow> []
      | Some (Ok x, cursor') \<Rightarrow> Ok x # entries_from t block_offset block_length cursor'
      | Some (r, cursor') \<Rightarrow> [r])"
  by pat_completeness auto
termination
  by (relation "measure (\<lambda>(t, bo, bl, cursor). bl - fst cursor)") (auto dest: entry_next_less)

declare entries_from.simps [simp del]

interpretation entries: bounded_walk "entry_next t bo bl" "entries_from t bo bl" fst bl
proof unfold_locales
  show "entry_next t bo bl s = Some (r, s') \<Longrightarrow> fst s < bl" for s r s'
    by (auto simp: entry_next_def Let_def split: if_splits)
  show "entry_next t bo bl s = Some (Ok x, s') \<Longrightarrow> fst s < fst s'" for s x s'
    using entry_next_advances(2) by fastforce
  show "entries_from t bo bl s = (case entry_next t bo bl s of None \<Rightarrow> []
    | Some (r, s') \<Rightarrow> r # (if is_Ok r then entries_from t bo bl s' else []))" for s
    by (subst entries_from.simps) (auto split: option.split prod.split res.split)
qed

definition on_entry :: "(ivhd_entry \<Rightarrow> (unit, firm_error, 's) st) \<Rightarrow> ivhd_entry option \<Rightarrow> (unit, firm_error, 's) st" where
  "on_entry f x = (case x of None \<Rightarrow> st_ret () | Some entry \<Rightarrow> f entry)"

definition walk_device_entries :: "ivrs_table \<Rightarrow> usize \<Rightarrow> usize \<Rightarrow> usize \<Rightarrow>
    (ivhd_entry \<Rightarrow> (unit, firm_error, 's) st) \<Rightarrow> (unit, firm_error, 's) st" where
  "walk_device_entries t block_offset entries_offset block_length f =
     for_each (on_entry f) (entries_from t block_offset block_length (entries_offset, None))"

section \<open>Blocks\<close>

text \<open>The closure of \<open>parse_ivhd\<close>, over its two flags.\<close>

definition note_entry :: "ivhd_entry \<Rightarrow> (unit, firm_error, bool \<times> bool) st" where
  "note_entry entry =
     (case entry of
        AllDevices _ \<Rightarrow> st_modify (\<lambda>(include_all, has_device_scopes). (True, has_device_scopes))
      | Pad \<Rightarrow> st_ret ()
      | _ \<Rightarrow> st_modify (\<lambda>(include_all, has_device_scopes). (include_all, True)))"

definition parse_ivhd :: "ext_ops \<Rightarrow> ivrs_table \<Rightarrow> usize \<Rightarrow> usize \<Rightarrow> u8 \<Rightarrow> (ivhd, firm_error) res" where
  "parse_ivhd E t offset len block_type =
     res_bind (if block_type = IVHD_TYPE_10H then Ok IVHD_10H_MIN_LENGTH
               else if block_type = IVHD_TYPE_11H \<or> block_type = IVHD_TYPE_40H then Ok IVHD_11H_MIN_LENGTH
               else Err (FirmMalformed ''unsupported IVHD block type'')) (\<lambda>min_length.
     if len < min_length then Err (FirmMalformed ''IVHD block shorter than minimum for its type'')
     else
       res_bind (if device_entries_offset block_type < len
                 then run_walk (walk_device_entries t offset (device_entries_offset block_type) len note_entry) (False, False)
                 else Ok (False, False)) (\<lambda>(include_all, has_device_scopes).
       res_bind (read_u8 ivrs_msgs (it_sdt t) (offset + IVHD_FLAGS_OFFSET)) (\<lambda>flags.
       res_bind (read_u16 ivrs_msgs (it_sdt t) (offset + IVHD_CAP_OFFSET)) (\<lambda>cap.
       res_bind (read_u64 ivrs_msgs (it_sdt t) (offset + IVHD_BASE_ADDR_OFFSET)) (\<lambda>base.
       res_bind (mmio_register_window E base AMD_VI_REGISTER_WINDOW_SIZE
                   ''IVHD base address cannot fit in usize'' ''IVHD register window overflows'') (\<lambda>registers.
       res_bind (read_u16 ivrs_msgs (it_sdt t) (offset + IVHD_SEGMENT_OFFSET)) (\<lambda>segment.
       res_bind (read_u16 ivrs_msgs (it_sdt t) (offset + IVHD_DEVICE_ID_OFFSET)) (\<lambda>device.
       res_bind (read_u16 ivrs_msgs (it_sdt t) (offset + IVHD_INFO_OFFSET)) (\<lambda>info.
       res_bind (if block_type = IVHD_TYPE_10H
                 then res_map Some (read_u32 ivrs_msgs (it_sdt t) (offset + IVHD_10H_FEATURE_OFFSET))
                 else Ok None) (\<lambda>feature.
       res_bind (if block_type = IVHD_TYPE_11H \<or> block_type = IVHD_TYPE_40H
                 then res_map Some (read_u64 ivrs_msgs (it_sdt t) (offset + IVHD_11H_EFR_OFFSET))
                 else Ok None) (\<lambda>efr.
       Ok \<lparr>ivhd_block_type = block_type, ivhd_flags = flags, ivhd_registers = registers,
           ivhd_device = pci_from_segment_bdf segment (Bdf device),
           ivhd_capability_offset = cap, ivhd_iommu_info = info, ivhd_feature_info = feature,
           ivhd_efr = efr, ivhd_include_all = include_all,
           ivhd_has_device_scopes = has_device_scopes, ivhd_block_offset = offset,
           ivhd_length = len\<rparr>)))))))))))"

definition parse_ivmd :: "ext_ops \<Rightarrow> ivrs_table \<Rightarrow> usize \<Rightarrow> usize \<Rightarrow> u8 \<Rightarrow> (ivmd, firm_error) res" where
  "parse_ivmd E t offset len block_type =
     (if len < IVMD_MIN_LENGTH then Err (FirmMalformed ''IVMD block too short'')
      else
        res_bind (read_u8 ivrs_msgs (it_sdt t) (offset + IVMD_FLAGS_OFFSET)) (\<lambda>flags.
        res_bind (read_u16 ivrs_msgs (it_sdt t) (offset + IVMD_DEVICE_ID_OFFSET)) (\<lambda>device.
        res_bind (read_u16 ivrs_msgs (it_sdt t) (offset + IVMD_AUX_OFFSET)) (\<lambda>aux.
        res_bind (read_u64 ivrs_msgs (it_sdt t) (offset + IVMD_START_ADDR_OFFSET)) (\<lambda>start.
        res_bind (read_u64 ivrs_msgs (it_sdt t) (offset + IVMD_MEM_LENGTH_OFFSET)) (\<lambda>n.
        res_bind (phys_range_from_start_size E start n ''IVMD memory address cannot fit in usize''
                    ''IVMD memory range overflows'') (\<lambda>memory.
        Ok \<lparr>ivmd_type = block_type, ivmd_flags = flags, ivmd_device_id = Bdf device,
            ivmd_aux_device_id = Bdf aux, ivmd_memory = memory\<rparr>)))))))"

definition parse_block :: "ext_ops \<Rightarrow> ivrs_table \<Rightarrow> usize \<Rightarrow> usize \<Rightarrow> u8 \<Rightarrow> (ivrs_block, firm_error) res" where
  "parse_block E t offset len kind =
     (if kind \<in> {IVHD_TYPE_10H, IVHD_TYPE_11H, IVHD_TYPE_40H} then res_map Ivhd (parse_ivhd E t offset len kind)
      else if kind \<in> {IVMD_TYPE_ALL, IVMD_TYPE_SPECIFIED, IVMD_TYPE_RANGE}
      then res_map Ivmd (parse_ivmd E t offset len kind)
      else Ok (IvrsUnknown \<lparr>iu_kind = kind, iu_offset = offset, iu_length = len\<rparr>))"

definition block_next :: "ext_ops \<Rightarrow> ivrs_table \<Rightarrow> usize \<Rightarrow> ((ivrs_block, firm_error) res \<times> usize) option" where
  "block_next E t offset =
     (if length (it_sdt t) \<le> offset then None
      else if length (it_sdt t) < offset + 4
      then Some (Err (FirmMalformed ''IVRS block truncated before header''), length (it_sdt t))
      else case read_u8 ivrs_msgs (it_sdt t) offset of
        Err e \<Rightarrow> Some (Err e, offset)
      | Panic \<Rightarrow> Some (Panic, offset)
      | Ok kind \<Rightarrow>
          (case read_u16 ivrs_msgs (it_sdt t) (offset + IVHD_LENGTH_OFFSET) of
            Err e \<Rightarrow> Some (Err e, offset)
          | Panic \<Rightarrow> Some (Panic, offset)
          | Ok l \<Rightarrow>
              (let len = unat l
               in if len < 4
                  then Some (Err (FirmMalformed ''IVRS block length smaller than header''), length (it_sdt t))
                  else if length (it_sdt t) < offset + len
                  then Some (Err (FirmMalformed ''IVRS block extends past table length''), length (it_sdt t))
                  else Some (parse_block E t offset len kind, offset + len))))"

lemma block_next_Ok:
  assumes "block_next E t offset = Some (Ok x, offset')"
  shows "offset < length (it_sdt t)" "offset + 4 \<le> offset'" "offset' \<le> length (it_sdt t)"
    "\<exists>kind. parse_block E t offset (offset' - offset) kind = Ok x"
  using assms by (auto simp: block_next_def Let_def split: if_splits res.splits)

lemma block_next_less:
  "block_next E t offset = Some (Ok x, offset') \<Longrightarrow>
    length (it_sdt t) - offset' < length (it_sdt t) - offset"
  using block_next_Ok(1,2) [of E t offset x offset'] by linarith

function blocks_from :: "ext_ops \<Rightarrow> ivrs_table \<Rightarrow> usize \<Rightarrow> (ivrs_block, firm_error) res list" where
  "blocks_from E t offset =
     (case block_next E t offset of
        None \<Rightarrow> []
      | Some (Ok x, offset') \<Rightarrow> Ok x # blocks_from E t offset'
      | Some (r, offset') \<Rightarrow> [r])"
  by pat_completeness auto
termination
  by (relation "measure (\<lambda>(E, t, offset). length (it_sdt t) - offset)") (auto dest: block_next_less)

declare blocks_from.simps [simp del]

definition blocks :: "ext_ops \<Rightarrow> ivrs_table \<Rightarrow> (ivrs_block, firm_error) res list" where
  "blocks E t = blocks_from E t IVRS_BLOCKS_OFFSET"

interpretation blocks: bounded_walk "block_next E t" "blocks_from E t" "\<lambda>offset. offset"
  "length (it_sdt t)"
proof unfold_locales
  show "block_next E t s = Some (r, s') \<Longrightarrow> s < length (it_sdt t)" for s r s'
    by (auto simp: block_next_def split: if_splits)
  show "block_next E t s = Some (Ok x, s') \<Longrightarrow> s < s'" for s x s'
    using block_next_Ok(2) by fastforce
  show "blocks_from E t s = (case block_next E t s of None \<Rightarrow> []
    | Some (r, s') \<Rightarrow> r # (if is_Ok r then blocks_from E t s' else []))" for s
    by (subst blocks_from.simps) (auto split: option.split prod.split res.split)
qed

section \<open>Loops and queries\<close>

definition for_each_block :: "ext_ops \<Rightarrow> ivrs_table \<Rightarrow>
    (ivrs_block \<Rightarrow> (unit, firm_error, 's) st) \<Rightarrow> (unit, firm_error, 's) st" where
  "for_each_block E t f = for_each f (blocks E t)"

definition for_each_ivhd :: "ext_ops \<Rightarrow> ivrs_table \<Rightarrow>
    (u32 \<Rightarrow> ivhd \<Rightarrow> (unit, firm_error, 's) st) \<Rightarrow> (unit, firm_error, 's) st" where
  "for_each_ivhd E t f =
     st_bind (st_lift (ivinfo t)) (\<lambda>info.
     for_each_block E t (\<lambda>x. case x of Ivhd u \<Rightarrow> f info u | _ \<Rightarrow> st_ret ()))"

definition for_each_ivmd :: "ext_ops \<Rightarrow> ivrs_table \<Rightarrow>
    (ivmd \<Rightarrow> (unit, firm_error, 's) st) \<Rightarrow> (unit, firm_error, 's) st" where
  "for_each_ivmd E t f = for_each_block E t (\<lambda>x. case x of Ivmd m \<Rightarrow> f m | _ \<Rightarrow> st_ret ())"

record ivhd_walk =
  iw_found :: bool
  iw_ranges :: bdf_range_set
  iw_saw_all :: bool

definition ivhd_walk_start :: ivhd_walk where
  "ivhd_walk_start = \<lparr>iw_found = False, iw_ranges = rs_empty IVRS_REQUESTER_WINDOW_CAPACITY,
                      iw_saw_all = False\<rparr>"

definition add_range :: "(bdf_range, firm_error) res \<Rightarrow> (unit, firm_error, ivhd_walk) st" where
  "add_range r w =
     (case res_bind r (firm_insert (iw_ranges w)) of
        Ok s \<Rightarrow> (Ok (), w\<lparr>iw_ranges := s\<rparr>)
      | Err e \<Rightarrow> (Err e, w)
      | Panic \<Rightarrow> (Panic, w))"

text \<open>\<open>insert_single\<close> inserts the window of one requester; \<open>inclusive\<close> can reject a reversed one.\<close>

definition window_between :: "bdf \<Rightarrow> bdf \<Rightarrow> (bdf_range, firm_error) res" where
  "window_between a b = res_map_err (\<lambda>e. FirmBdfRanges (InvalidRange e)) (br_inclusive a b)"

definition ivhd_collect_entry :: "ivhd_entry \<Rightarrow> (unit, firm_error, ivhd_walk) st" where
  "ivhd_collect_entry entry =
     (case entry of
        AllDevices _ \<Rightarrow> st_modify (\<lambda>w. w\<lparr>iw_saw_all := True\<rparr>)
      | Select device_id _ \<Rightarrow> add_range (Ok (br_single device_id))
      | AliasSelect device_id _ _ \<Rightarrow> add_range (Ok (br_single device_id))
      | ExtendedSelect device_id _ _ \<Rightarrow> add_range (Ok (br_single device_id))
      | SpecialDevice device_id _ \<Rightarrow> add_range (Ok (br_single device_id))
      | AcpiNamed device_id _ _ _ _ _ \<Rightarrow> add_range (Ok (br_single device_id))
      | Range start end' _ \<Rightarrow> add_range (window_between start end')
      | AliasRange start end' _ _ \<Rightarrow> add_range (window_between start end')
      | ExtendedRange start end' _ _ \<Rightarrow> add_range (window_between start end')
      | Pad \<Rightarrow> st_ret ())"

definition ivhd_collect :: "ivrs_table \<Rightarrow> addr_range \<Rightarrow> ivrs_block \<Rightarrow> (unit, firm_error, ivhd_walk) st" where
  "ivhd_collect t registers x =
     (case x of
        Ivhd u \<Rightarrow>
          if ivhd_registers u \<noteq> registers then st_ret ()
          else st_then (st_modify (\<lambda>w. w\<lparr>iw_found := True\<rparr>))
            (if ivhd_include_all u then st_modify (\<lambda>w. w\<lparr>iw_saw_all := True\<rparr>)
             else walk_device_entries t (ivhd_block_offset u) (device_entries_offset (ivhd_block_type u))
                    (ivhd_length u) ivhd_collect_entry)
      | _ \<Rightarrow> st_ret ())"

definition ivhd_walk_result :: "ivhd_walk \<Rightarrow> bdf_range_set option" where
  "ivhd_walk_result w =
     (if \<not> iw_found w \<or> iw_saw_all w \<or> rs_is_empty (iw_ranges w) then None else Some (iw_ranges w))"

definition ivhd_bdf_ranges :: "ext_ops \<Rightarrow> ivrs_table \<Rightarrow> addr_range \<Rightarrow> (bdf_range_set option, firm_error) res" where
  "ivhd_bdf_ranges E t registers =
     res_map ivhd_walk_result
       (run_walk (for_each_block E t (ivhd_collect t registers)) ivhd_walk_start)"

end
