(* ===== verification/Ivrs_Facts.thy ===== *)
theory Ivrs_Facts
  imports Ivrs
begin

text \<open>
  What the IVRS parser promises: no bytes make it panic, what its device entries are, and that the
  requesters collected for a unit are those its entries name.
\<close>

section \<open>Device entries\<close>

definition unit_entries :: "ivrs_table \<Rightarrow> ivhd \<Rightarrow> (ivhd_entry option, firm_error) res list" where
  "unit_entries t u =
     entries_from t (ivhd_block_offset u) (ivhd_length u) (device_entries_offset (ivhd_block_type u), None)"

definition entries_of :: "(ivhd_entry option, firm_error) res list \<Rightarrow> ivhd_entry list" where
  "entries_of rs = concat (map (\<lambda>x. case x of Some e \<Rightarrow> [e] | None \<Rightarrow> []) (oks rs))"

lemma entries_of_simps [simp]:
  "entries_of [] = []" "entries_of (Ok (Some e) # rs) = e # entries_of rs"
  "entries_of (Ok None # rs) = entries_of rs"
  by (simp_all add: entries_of_def)

lemma set_entries_of: "set (entries_of rs) = {e. Ok (Some e) \<in> set rs}"
  by (auto simp: entries_of_def set_oks split: option.splits)

text \<open>The requesters an entry names.\<close>

fun entry_requesters :: "ivhd_entry \<Rightarrow> bdf set" where
  "entry_requesters Pad = {}"
| "entry_requesters (AllDevices _) = {}"
| "entry_requesters (Select d _) = {d}"
| "entry_requesters (AliasSelect d _ _) = {d}"
| "entry_requesters (ExtendedSelect d _ _) = {d}"
| "entry_requesters (SpecialDevice d _) = {d}"
| "entry_requesters (AcpiNamed d _ _ _ _ _) = {d}"
| "entry_requesters (Range a b _) = {a..b}"
| "entry_requesters (AliasRange a b _ _) = {a..b}"
| "entry_requesters (ExtendedRange a b _ _) = {a..b}"

fun entry_ordered :: "ivhd_entry \<Rightarrow> bool" where
  "entry_ordered (Range a b _) \<longleftrightarrow> a \<le> b"
| "entry_ordered (AliasRange a b _ _) \<longleftrightarrow> a \<le> b"
| "entry_ordered (ExtendedRange a b _ _) \<longleftrightarrow> a \<le> b"
| "entry_ordered _ \<longleftrightarrow> True"

fun entry_all :: "ivhd_entry \<Rightarrow> bool" where
  "entry_all (AllDevices _) \<longleftrightarrow> True"
| "entry_all _ \<longleftrightarrow> False"

lemma entry_next_decoded:
  assumes "entry_next t bo bl cursor = Some (Ok x, cursor')"
  shows "\<exists>k n d s. read_u8 ivrs_msgs (it_sdt t) (bo + fst cursor) = Ok k \<and>
    entry_size t bo bl (fst cursor) k = Ok (Some n) \<and> fst cursor + n \<le> bl \<and> fst cursor' = fst cursor + n \<and>
    entry_ids t (bo + fst cursor) k = Ok (d, s) \<and>
    entry_decode t (bo + fst cursor) n k d s (snd cursor) = Ok (x, snd cursor')"
  using assms
  by (auto simp: entry_next_def Let_def res_bind_Ok_iff res_map_Ok_iff
      split: if_splits res.splits option.splits prod.splits)

lemma entry_decode_ordered:
  assumes "entry_decode t eo n k d s p = Ok (Some e, q)"
  shows "entry_ordered e"
  using assms
  by (auto simp: entry_decode_def res_bind_Ok_iff not_less split: if_splits option.splits pending_kind.splits)

lemma entries_ordered:
  assumes "Ok (Some e) \<in> set (entries_from t bo bl cursor)"
  shows "entry_ordered e"
proof -
  obtain c c' where "entry_next t bo bl c = Some (Ok (Some e), c')"
    using entries.items_scanned [OF assms] by blast
  from entry_next_decoded [OF this] entry_decode_ordered show ?thesis by blast
qed

lemma entries_no_panic:
  assumes "bo + bl \<le> length (it_sdt t)"
  shows "Panic \<notin> set (entries_from t bo bl cursor)"
proof -
  have size: "entry_size t bo bl o1 k \<noteq> Panic" for o1 k
    by (auto simp: entry_size_def res_map_Panic_iff)
  have ids: "entry_ids t eo k \<noteq> Panic" for eo k
    by (auto simp: entry_ids_def res_bind_Panic_iff)
  have decode: "entry_decode t (bo + o1) n k d s p \<noteq> Panic"
    if "entry_size t bo bl o1 k = Ok (Some n)" "o1 + n \<le> bl" for o1 n k d s p
    using that assms
    by (auto simp: entry_decode_def entry_size_def res_bind_Panic_iff slice_Panic_iff res_map_Ok_iff
        deventry_kinds DEVENTRY_ACPI_NAMED_MIN_LENGTH_def split: if_splits option.splits)
  have "r \<noteq> Panic" if "entry_next t bo bl c = Some (r, c')" for r c c'
    using that size ids decode
    by (auto simp: entry_next_def Let_def res_bind_Panic_iff res_bind_Ok_iff res_map_Ok_iff
        res_map_Panic_iff not_less split: if_splits res.splits option.splits prod.splits)
  then have "\<forall>r \<in> set (entries_from t bo bl cursor). r \<noteq> Panic" by (intro entries.items_all)
  then show ?thesis by blast
qed

text \<open>Where the fields of an entry stand in the table, from the offset of the entry.\<close>

fun entry_fields_at :: "u8 list \<Rightarrow> usize \<Rightarrow> ivhd_entry \<Rightarrow> bool" where
  "entry_fields_at b a Pad \<longleftrightarrow> b ! a = 0"
| "entry_fields_at b a (AllDevices s) \<longleftrightarrow> b ! a = 1 \<and> s = b ! (a + 1)"
| "entry_fields_at b a (Select d s) \<longleftrightarrow> b ! a = 2 \<and> d = Bdf (field_at b (a + 2) 2) \<and> s = b ! (a + 1)"
| "entry_fields_at b a (Range _ d _) \<longleftrightarrow> b ! a = 4 \<and> d = Bdf (field_at b (a + 2) 2)"
| "entry_fields_at b a (AliasRange _ d _ _) \<longleftrightarrow> b ! a = 4 \<and> d = Bdf (field_at b (a + 2) 2)"
| "entry_fields_at b a (ExtendedRange _ d _ _) \<longleftrightarrow> b ! a = 4 \<and> d = Bdf (field_at b (a + 2) 2)"
| "entry_fields_at b a (AliasSelect d r s) \<longleftrightarrow>
     b ! a = 0x42 \<and> d = Bdf (field_at b (a + 2) 2) \<and> s = b ! (a + 1) \<and> r = Bdf (field_at b (a + 6) 2)"
| "entry_fields_at b a (ExtendedSelect d s x) \<longleftrightarrow>
     b ! a = 0x46 \<and> d = Bdf (field_at b (a + 2) 2) \<and> s = b ! (a + 1) \<and> x = field_at b (a + 4) 4"
| "entry_fields_at b a (SpecialDevice d s) \<longleftrightarrow>
     b ! a = 0x48 \<and> d = Bdf (field_at b (a + 6) 2) \<and> s = b ! (a + 1)"
| "entry_fields_at b a (AcpiNamed d s h c f u) \<longleftrightarrow>
     b ! a = 0xf0 \<and> d = Bdf (field_at b (a + 1) 2) \<and> s = b ! (a + 3) \<and> h = field_at b (a + 4) 8 \<and>
     c = field_at b (a + 12) 8 \<and> f = b ! (a + 20) \<and> u = take (unat (b ! (a + 21))) (drop (a + 22) b)"

lemma entry_size_cases:
  assumes "entry_size t bo bl o1 k = Ok (Some n)"
  shows "k \<in> {0, 1, 2, 3, 4} \<and> n = 4 \<or> k \<in> {0x42, 0x43, 0x46, 0x47, 0x48} \<and> n = 8 \<or>
    k = 0xf0 \<and> o1 + 22 \<le> bl \<and> (\<exists>l. read_u8 ivrs_msgs (it_sdt t) (bo + o1 + 21) = Ok l \<and> n = 22 + unat l) \<or>
    k \<notin> {0, 1, 2, 3, 4, 0x42, 0x43, 0x46, 0x47, 0x48, 0xf0} \<and> n = 4"
proof -
  have "k \<in> {0, 1, 2, 3, 4}" if "k \<le> 4" for k :: u8
  proof -
    have "unat k \<in> {0, 1, 2, 3, 4}" using that by (auto simp: word_le_nat_alt)
    then show ?thesis by (auto simp: word_unat_eq_iff)
  qed
  moreover have "k \<le> 4" if "k \<in> {0, 1, 2, 3, 4}" for k :: u8
    using that by (auto simp: word_le_nat_alt)
  ultimately show ?thesis
    using assms by (auto simp: entry_size_def deventry_kinds DEVENTRY_ACPI_NAMED_MIN_LENGTH_def
        res_map_Ok_iff not_less split: if_splits)
qed

lemma entry_fields:
  assumes fit: "length (it_sdt t) < usize_bound" "bo + bl \<le> length (it_sdt t)"
    and e: "entry_next t bo bl cursor = Some (Ok (Some e), cursor')"
  shows "entry_fields_at (it_sdt t) (bo + fst cursor) e"
proof -
  let ?a = "bo + fst cursor" and ?b = "it_sdt t"
  obtain k n d s where k: "read_u8 ivrs_msgs ?b ?a = Ok k" "entry_size t bo bl (fst cursor) k = Ok (Some n)"
      "fst cursor + n \<le> bl" "entry_ids t ?a k = Ok (d, s)"
      "entry_decode t ?a n k d s (snd cursor) = Ok (Some e, snd cursor')"
    using entry_next_decoded [OF e] by blast
  have n: "4 \<le> n" using entry_size_pos [OF k(2)] .
  then have in_table: "?a + n \<le> length ?b" "?a + 3 < length ?b" using k(3) fit(2) by simp_all
  then have b0: "?b ! ?a = k" using k(1) read_Ok(1) [OF fit(1), of ?a] by simp
  show ?thesis
  proof (cases "k = 0xf0")
    case True
    then obtain l where l: "read_u8 ivrs_msgs ?b (?a + 21) = Ok l" "n = 22 + unat l"
      using entry_size_cases [OF k(2)] by auto
    have "l = ?b ! (?a + 21)" using l(1) read_Ok(1) [OF fit(1), of "?a + 21"] in_table l(2) by simp
    then show ?thesis
      using k(4,5) True b0 in_table l(2)
      by (auto simp: entry_ids_def entry_decode_def deventry_kinds DEVENTRY_ACPI_NAMED_MIN_LENGTH_def
          res_bind_Ok_iff read_Ok [OF fit(1)] slice_def)
  next
    case False
    have ds: "d = Bdf (field_at ?b (?a + 2) 2)" "s = ?b ! (?a + 1)"
      using k(4) False in_table by (auto simp: entry_ids_def deventry_kinds read_Ok [OF fit(1)])
    show ?thesis
    proof (cases "k \<in> {0x42, 0x43, 0x46, 0x47, 0x48}")
      case True
      then have "n = 8" using entry_size_cases [OF k(2)] by auto
      then show ?thesis
        using k(5) ds True b0 in_table
        by (auto simp: entry_decode_def deventry_kinds res_bind_Ok_iff read_Ok [OF fit(1)] split: if_splits)
    next
      case other: False
      then show ?thesis
        using k(5) ds False b0 in_table
        by (auto simp: entry_decode_def deventry_kinds res_bind_Ok_iff
            split: if_splits option.splits pending_kind.splits)
    qed
  qed
qed

section \<open>Collecting the requesters of a unit\<close>

lemma window_between_ordered:
  assumes "a \<le> b"
  shows "\<exists>r. window_between a b = Ok r \<and> br_wf r \<and> br_members r = {a..b}"
proof -
  have "\<not> as_u16 b < as_u16 a" using assms by (simp add: less_eq_bdf_def not_less)
  then obtain r where r: "br_inclusive a b = Ok r" by (simp add: br_inclusive_def)
  have "br_members r = {a..b}"
    using br_inclusive_Ok_iff [of a b r] r
    by (auto simp: br_members_def br_contains_iff less_eq_bdf_def word_le_nat_alt)
  then show ?thesis using r br_inclusive_wf [OF r] by (simp add: window_between_def)
qed

lemma add_range_step:
  assumes "rs_inv (iw_ranges w)" and "br_wf r"
  shows "fst (add_range (Ok r) w) \<noteq> Panic \<and>
    (\<forall>w'. add_range (Ok r) w = (Ok (), w') \<longrightarrow> rs_inv (iw_ranges w') \<and>
      rs_members (iw_ranges w') = rs_members (iw_ranges w) \<union> br_members r \<and>
      iw_found w' = iw_found w \<and> iw_saw_all w' = iw_saw_all w)"
proof (cases "firm_insert (iw_ranges w) r")
  case (Ok s)
  have "rs_inv s" "rs_members s = rs_members (iw_ranges w) \<union> br_members r"
    using firm_set.insert_inv [OF assms Ok] firm_set.insert_members [OF assms Ok] by blast+
  then show ?thesis using Ok by (simp add: add_range_def)
qed (use firm_set.insert_no_panic [OF assms] in \<open>simp_all add: add_range_def\<close>)

lemma ivhd_collect_entry_step:
  assumes "rs_inv (iw_ranges w)" and "entry_ordered e"
  shows "fst (ivhd_collect_entry e w) \<noteq> Panic \<and>
    (\<forall>w'. ivhd_collect_entry e w = (Ok (), w') \<longrightarrow> rs_inv (iw_ranges w') \<and>
      rs_members (iw_ranges w') = rs_members (iw_ranges w) \<union> entry_requesters e \<and>
      iw_found w' = iw_found w \<and> (iw_saw_all w' \<longleftrightarrow> iw_saw_all w \<or> entry_all e))"
proof -
  have single: ?thesis
    if "ivhd_collect_entry e = add_range (Ok (br_single d))" "entry_requesters e = {d}" "\<not> entry_all e" for d
    using add_range_step [OF assms(1) br_single_wf, of d] that(3)
    unfolding that(1,2) br_members_single by blast
  have between: ?thesis
    if e: "ivhd_collect_entry e = add_range (window_between a b)" "entry_requesters e = {a..b}" "\<not> entry_all e"
      and ab: "a \<le> b" for a b
  proof -
    obtain r where r: "window_between a b = Ok r" "br_wf r" "br_members r = {a..b}"
      using window_between_ordered [OF ab] by blast
    show ?thesis using add_range_step [OF assms(1) r(2)] e(3)
      unfolding e(1,2) r(1) r(3) [symmetric] by blast
  qed
  show ?thesis
  proof (cases e)
    case (Select d s)
    then show ?thesis using assms(2) by (intro single [of d]) (simp_all add: ivhd_collect_entry_def)
  next
    case (AliasSelect d r s)
    then show ?thesis using assms(2) by (intro single [of d]) (simp_all add: ivhd_collect_entry_def)
  next
    case (ExtendedSelect d s x)
    then show ?thesis using assms(2) by (intro single [of d]) (simp_all add: ivhd_collect_entry_def)
  next
    case (SpecialDevice d s)
    then show ?thesis using assms(2) by (intro single [of d]) (simp_all add: ivhd_collect_entry_def)
  next
    case (AcpiNamed d s h c f u)
    then show ?thesis using assms(2) by (intro single [of d]) (simp_all add: ivhd_collect_entry_def)
  next
    case (Range a b s)
    then show ?thesis using assms(2) by (intro between [of a b]) (simp_all add: ivhd_collect_entry_def)
  next
    case (AliasRange a b r s)
    then show ?thesis using assms(2) by (intro between [of a b]) (simp_all add: ivhd_collect_entry_def)
  next
    case (ExtendedRange a b s x)
    then show ?thesis using assms(2) by (intro between [of a b]) (simp_all add: ivhd_collect_entry_def)
  qed (use assms(1) in \<open>simp_all add: ivhd_collect_entry_def\<close>)
qed

definition ivhds_of :: "addr_range \<Rightarrow> ivrs_block list \<Rightarrow> ivhd list" where
  "ivhds_of registers xs =
     concat (map (\<lambda>x. case x of Ivhd u \<Rightarrow> if ivhd_registers u = registers then [u] else [] | _ \<Rightarrow> []) xs)"

lemma ivhds_of_simps [simp]:
  "ivhds_of registers [] = []" "ivhds_of registers (xs @ ys) = ivhds_of registers xs @ ivhds_of registers ys"
  by (simp_all add: ivhds_of_def)

lemma for_each_collect_entries:
  assumes "for_each (on_entry ivhd_collect_entry) (map Ok xs) w = (Ok (), w')" and "rs_inv (iw_ranges w)"
    and "\<forall>e. Some e \<in> set xs \<longrightarrow> entry_ordered e"
  shows "rs_inv (iw_ranges w') \<and> iw_found w' = iw_found w \<and>
    rs_members (iw_ranges w') = rs_members (iw_ranges w) \<union> (\<Union>e \<in> set (entries_of (map Ok xs)). entry_requesters e) \<and>
    (iw_saw_all w' \<longleftrightarrow> iw_saw_all w \<or> (\<exists>e \<in> set (entries_of (map Ok xs)). entry_all e))"
  using assms
proof (induction xs arbitrary: w)
  case (Cons x xs)
  obtain v where v: "on_entry ivhd_collect_entry x w = (Ok (), v)"
      "for_each (on_entry ivhd_collect_entry) (map Ok xs) v = (Ok (), w')"
    using Cons.prems(1) by (auto simp: st_bind_Ok_iff st_then_def)
  show ?case
  proof (cases x)
    case None
    then have "v = w" using v(1) by (simp add: on_entry_def)
    then show ?thesis using Cons.IH [OF v(2)] Cons.prems(2,3) None by simp
  next
    case (Some e)
    then have e: "entry_ordered e" using Cons.prems(3) by simp
    have "rs_inv (iw_ranges v) \<and>
        rs_members (iw_ranges v) = rs_members (iw_ranges w) \<union> entry_requesters e \<and>
        iw_found v = iw_found w \<and> (iw_saw_all v \<longleftrightarrow> iw_saw_all w \<or> entry_all e)"
      using ivhd_collect_entry_step [OF Cons.prems(2) e] v(1) Some by (simp add: on_entry_def)
    then show ?thesis using Cons.IH [OF v(2)] Cons.prems(3) Some by auto
  qed
qed simp

text \<open>The summary the parser leaves in a block: whether an entry includes all devices.\<close>

lemma note_entries:
  assumes "for_each (on_entry note_entry) (map Ok xs) (a, b) = (Ok (), (a', b'))"
  shows "a' \<longleftrightarrow> a \<or> (\<exists>e \<in> set (entries_of (map Ok xs)). entry_all e)"
  using assms
proof (induction xs arbitrary: a b)
  case (Cons x xs)
  show ?case
  proof (cases x)
    case None
    then show ?thesis using Cons by (auto simp: on_entry_def st_then_def)
  next
    case (Some e)
    then show ?thesis
      using Cons.prems Cons.IH by (cases e) (auto simp: on_entry_def note_entry_def st_then_def)
  qed
qed simp

lemma parse_ivhd_fields:
  assumes "parse_ivhd E t offset len k = Ok u"
  shows "ivhd_block_offset u = offset \<and> ivhd_length u = len \<and> ivhd_block_type u = k \<and>
    (ivhd_include_all u \<longleftrightarrow> (\<exists>e \<in> set (entries_of (unit_entries t u)). entry_all e))"
proof -
  obtain all scopes where w: "(if device_entries_offset k < len
      then run_walk (walk_device_entries t offset (device_entries_offset k) len note_entry) (False, False)
      else Ok (False, False)) = Ok (all, scopes)"
    and u: "ivhd_block_offset u = offset" "ivhd_length u = len" "ivhd_block_type u = k" "ivhd_include_all u = all"
    using assms by (auto simp: parse_ivhd_def res_bind_Ok_iff split: if_splits)
  have un: "unit_entries t u = entries_from t offset len (device_entries_offset k, None)"
    using u by (simp add: unit_entries_def)
  have "all \<longleftrightarrow> (\<exists>e \<in> set (entries_of (unit_entries t u)). entry_all e)"
  proof (cases "device_entries_offset k < len")
    case True
    then have f: "for_each (on_entry note_entry) (unit_entries t u) (False, False) = (Ok (), (all, scopes))"
      using w by (simp add: run_walk_Ok_iff walk_device_entries_def un)
    then obtain xs where xs: "unit_entries t u = map Ok xs" using for_each_Ok [OF f] by blast
    show ?thesis using note_entries [OF f [unfolded xs], folded xs] by simp
  next
    case False
    then show ?thesis
      using w by (simp add: un entries_from.simps [of t offset len "(device_entries_offset k, None)"] entry_next_def)
  qed
  then show ?thesis using u by simp
qed

lemma parse_block_Ivhd:
  assumes "parse_block E t offset len k = Ok (Ivhd u)"
  shows "parse_ivhd E t offset len k = Ok u"
  using assms by (auto simp: parse_block_def res_map_Ok_iff split: if_splits)

lemma blocks_Ivhd:
  assumes "Ok (Ivhd u) \<in> set (blocks E t)"
  shows "ivhd_block_offset u + ivhd_length u \<le> length (it_sdt t)"
    and "ivhd_include_all u \<longleftrightarrow> (\<exists>e \<in> set (entries_of (unit_entries t u)). entry_all e)"
proof -
  obtain o2 o3 where o: "block_next E t o2 = Some (Ok (Ivhd u), o3)"
    using blocks.items_scanned assms unfolding blocks_def by blast
  then obtain k where "parse_ivhd E t o2 (o3 - o2) k = Ok u"
    using block_next_Ok(4) [OF o] parse_block_Ivhd by blast
  note f = parse_ivhd_fields [OF this]
  show "ivhd_block_offset u + ivhd_length u \<le> length (it_sdt t)"
    using f block_next_Ok(1-3) [OF o] by simp
  show "ivhd_include_all u \<longleftrightarrow> (\<exists>e \<in> set (entries_of (unit_entries t u)). entry_all e)"
    using f by blast
qed

text \<open>The entries of the units with the given registers.\<close>

definition ivhd_entries :: "ivrs_table \<Rightarrow> addr_range \<Rightarrow> ivrs_block list \<Rightarrow> ivhd_entry list" where
  "ivhd_entries t registers xs = concat (map (\<lambda>u. entries_of (unit_entries t u)) (ivhds_of registers xs))"

lemma ivhd_entries_simps [simp]:
  "ivhd_entries t registers [] = []"
  "ivhd_entries t registers (xs @ ys) = ivhd_entries t registers xs @ ivhd_entries t registers ys"
  by (simp_all add: ivhd_entries_def)

text \<open>Once a unit includes all devices, the collected set no longer matters.\<close>

definition ivhd_collected :: "ivhd_entry list \<Rightarrow> bool \<Rightarrow> ivhd_walk \<Rightarrow> bool" where
  "ivhd_collected es found w \<longleftrightarrow>
     (iw_found w \<longleftrightarrow> found) \<and> rs_inv (iw_ranges w) \<and>
     (iw_saw_all w \<longleftrightarrow> (\<exists>e \<in> set es. entry_all e)) \<and>
     (iw_saw_all w \<or> rs_members (iw_ranges w) = (\<Union>e \<in> set es. entry_requesters e))"

lemma ivhd_collect_step:
  assumes "ivhd_collected (ivhd_entries t registers ys) (ivhds_of registers ys \<noteq> []) w"
    and "Ok x \<in> set (blocks E t)" and "ivhd_collect t registers x w = (Ok (), w')"
  shows "ivhd_collected (ivhd_entries t registers (ys @ [x])) (ivhds_of registers (ys @ [x]) \<noteq> []) w'"
proof (cases "\<exists>u. x = Ivhd u \<and> ivhd_registers u = registers")
  case True
  then obtain u where u: "x = Ivhd u" "ivhd_registers u = registers" by blast
  let ?w = "w\<lparr>iw_found := True\<rparr>"
  have d: "ivhds_of registers [x] = [u]" "ivhd_entries t registers [x] = entries_of (unit_entries t u)"
    using u by (simp_all add: ivhds_of_def ivhd_entries_def)
  note all = blocks_Ivhd(2) [OF assms(2) [unfolded u(1)]]
  show ?thesis
  proof (cases "ivhd_include_all u")
    case True
    then have "w' = ?w\<lparr>iw_saw_all := True\<rparr>" using assms(3) u by (simp add: ivhd_collect_def st_then_def)
    then show ?thesis using assms(1) d all True by (auto simp: ivhd_collected_def)
  next
    case False
    then have walk: "for_each (on_entry ivhd_collect_entry) (unit_entries t u) ?w = (Ok (), w')"
      using assms(3) u by (simp add: ivhd_collect_def st_then_def walk_device_entries_def unit_entries_def)
    obtain xs where xs: "unit_entries t u = map Ok xs" using for_each_Ok [OF walk] by blast
    have "entry_ordered e" if "Some e \<in> set xs" for e
    proof (rule entries_ordered)
      show "Ok (Some e) \<in> set (entries_from t (ivhd_block_offset u) (ivhd_length u)
          (device_entries_offset (ivhd_block_type u), None))"
        using that xs by (simp flip: unit_entries_def)
    qed
    then have ord: "\<forall>e. Some e \<in> set xs \<longrightarrow> entry_ordered e" by blast
    have inv: "rs_inv (iw_ranges ?w)" using assms(1) by (simp add: ivhd_collected_def)
    note walked = for_each_collect_entries [OF walk [unfolded xs] inv ord, folded xs]
    have "\<not> (\<exists>e \<in> set (entries_of (unit_entries t u)). entry_all e)" using all False by blast
    then show ?thesis using walked assms(1) d by (auto simp: ivhd_collected_def)
  qed
next
  case False
  then have "w' = w" using assms(3) by (auto simp: ivhd_collect_def split: ivrs_block.splits)
  moreover have "ivhds_of registers [x] = []" using False by (auto simp: ivhds_of_def split: ivrs_block.splits)
  ultimately show ?thesis using assms(1) by (simp add: ivhd_entries_def)
qed

lemma ivhd_collect_walk:
  assumes "for_each_block E t (ivhd_collect t registers) ivhd_walk_start = (Ok (), w)"
  defines "xs \<equiv> oks (blocks E t)"
  shows "ivhd_collected (ivhd_entries t registers xs) (ivhds_of registers xs \<noteq> []) w"
proof -
  have xs: "blocks E t = map Ok xs"
    using for_each_Ok assms by (fastforce simp: for_each_block_def)
  then have walk: "for_each (ivhd_collect t registers) (map Ok xs) ivhd_walk_start = (Ok (), w)"
    using assms by (simp add: for_each_block_def)
  let ?P = "\<lambda>ys. ivhd_collected (ivhd_entries t registers ys) (ivhds_of registers ys \<noteq> [])"
  have start: "?P [] ivhd_walk_start"
    by (simp add: ivhd_collected_def ivhd_walk_start_def)
  have step: "?P (ys @ [x]) v'"
    if "?P ys v" "x \<in> set xs" "ivhd_collect t registers x v = (Ok (), v')" for ys x v v'
  proof -
    have "Ok x \<in> set (blocks E t)" using that(2) xs by simp
    from ivhd_collect_step [OF that(1) this that(3)] show ?thesis .
  qed
  show ?thesis using for_each_invariant [where P = ?P, OF walk start step] .
qed

section \<open>No panics\<close>

lemma parse_block_no_panic:
  assumes "offset + len \<le> length (it_sdt t)"
  shows "parse_block E t offset len k \<noteq> Panic"
proof -
  have "fst (note_entry e s) \<noteq> Panic" for e s
    by (cases e) (simp_all add: note_entry_def)
  then have "fst (on_entry note_entry x s) \<noteq> Panic" for x s
    by (cases x) (simp_all add: on_entry_def)
  then have "run_walk (walk_device_entries t offset eo len note_entry) s \<noteq> Panic" for eo s
    unfolding run_walk_Panic_iff walk_device_entries_def
    by (intro for_each_no_panic entries_no_panic [OF assms])
  then show ?thesis
    by (auto simp: parse_block_def parse_ivhd_def parse_ivmd_def phys_range_from_start_size_def
        res_map_Panic_iff res_bind_Panic_iff split: if_splits)
qed

lemma blocks_no_panic: "Panic \<notin> set (blocks E t)"
proof -
  have "r \<noteq> Panic" if "block_next E t o2 = Some (r, o3)" for o2 r o3
    using that parse_block_no_panic [of o2 "o3 - o2" t]
    by (auto simp: block_next_def Let_def split: if_splits res.splits)
  then have "\<forall>r \<in> set (blocks E t). r \<noteq> Panic"
    unfolding blocks_def by (intro blocks.items_all)
  then show ?thesis by blast
qed

lemma ivhd_bdf_ranges_no_panic: "ivhd_bdf_ranges E t registers \<noteq> Panic"
proof -
  let ?I = "\<lambda>w. rs_inv (iw_ranges w)"
  have step: "fst (ivhd_collect t registers x w) \<noteq> Panic \<and>
      (\<forall>w'. ivhd_collect t registers x w = (Ok (), w') \<longrightarrow> ?I w')"
    if x: "Ok x \<in> set (blocks E t)" and w: "?I w" for x w
  proof (cases x)
    case (Ivhd u)
    have safe: "Panic \<notin> set (unit_entries t u)"
      unfolding unit_entries_def using blocks_Ivhd(1) x Ivhd by (intro entries_no_panic) simp
    have "fst (on_entry ivhd_collect_entry y v) \<noteq> Panic \<and>
        (\<forall>v'. on_entry ivhd_collect_entry y v = (Ok (), v') \<longrightarrow> ?I v')"
      if "Ok y \<in> set (unit_entries t u)" "?I v" for y v
    proof (cases y)
      case (Some e)
      with that(1) have "entry_ordered e" unfolding unit_entries_def by (simp add: entries_ordered)
      from ivhd_collect_entry_step [OF that(2) this] show ?thesis using Some by (simp add: on_entry_def)
    qed (use that(2) in \<open>simp add: on_entry_def\<close>)
    then have walk: "fst (for_each (on_entry ivhd_collect_entry) (unit_entries t u) (w\<lparr>iw_found := True\<rparr>)) \<noteq> Panic \<and>
        (\<forall>v'. for_each (on_entry ivhd_collect_entry) (unit_entries t u) (w\<lparr>iw_found := True\<rparr>) = (Ok (), v') \<longrightarrow> ?I v')"
      using w by (intro for_each_safe [where I = ?I, OF safe]) simp_all
    show ?thesis
    proof (cases "ivhd_registers u = registers \<and> \<not> ivhd_include_all u")
      case True
      then have "ivhd_collect t registers x w =
          for_each (on_entry ivhd_collect_entry) (unit_entries t u) (w\<lparr>iw_found := True\<rparr>)"
        using Ivhd by (simp add: ivhd_collect_def st_then_def walk_device_entries_def unit_entries_def)
      with walk show ?thesis by metis
    qed (use Ivhd w in \<open>auto simp: ivhd_collect_def st_then_def\<close>)
  qed (use w in \<open>simp_all add: ivhd_collect_def\<close>)
  have "fst (for_each (ivhd_collect t registers) (blocks E t) ivhd_walk_start) \<noteq> Panic"
    using for_each_safe [where I = ?I, OF blocks_no_panic _ step, of ivhd_walk_start]
    by (simp add: ivhd_walk_start_def)
  then show ?thesis
    by (simp add: ivhd_bdf_ranges_def res_map_Panic_iff run_walk_Panic_iff for_each_block_def)
qed

section \<open>Properties\<close>

text \<open>C6. Collecting the requesters of an AMD-Vi unit (\<open>ivhd_bdf_ranges\<close>): when it answers, every block of
the table parsed; a set is returned exactly when some IVHD block has the given register window, no
entry of these blocks selects all devices, and some entry names a requester. The set satisfies its
invariant and its members are exactly the requesters named by the entries of these blocks: a single
one by the select, alias, extended, special and ACPI-named entries, all those from start to end by the
ranges.\<close>

theorem ivhd_bdf_ranges_exact:
  assumes "ivhd_bdf_ranges E t registers = Ok answer"
  defines "xs \<equiv> oks (blocks E t)"
  shows "blocks E t = map Ok xs \<and>
    (answer \<noteq> None \<longleftrightarrow> ivhds_of registers xs \<noteq> [] \<and>
       (\<forall>e \<in> set (ivhd_entries t registers xs). \<not> entry_all e) \<and>
       (\<exists>e \<in> set (ivhd_entries t registers xs). entry_requesters e \<noteq> {})) \<and>
    (\<forall>s. answer = Some s \<longrightarrow> rs_inv s \<and>
       rs_members s = (\<Union>e \<in> set (ivhd_entries t registers xs). entry_requesters e))"
proof -
  obtain w where w: "for_each_block E t (ivhd_collect t registers) ivhd_walk_start = (Ok (), w)"
      "answer = ivhd_walk_result w"
    using assms(1) by (auto simp: ivhd_bdf_ranges_def res_map_Ok_iff run_walk_Ok_iff)
  note c = ivhd_collect_walk [OF w(1), folded xs_def, unfolded ivhd_collected_def]
  have "blocks E t = map Ok xs"
    using for_each_Ok w(1) by (fastforce simp: for_each_block_def xs_def)
  moreover have "rs_is_empty (iw_ranges w) \<longleftrightarrow> rs_members (iw_ranges w) = {}"
    using c by (simp add: rs_is_empty_iff)
  moreover have "(\<Union>e \<in> set (ivhd_entries t registers xs). entry_requesters e) = {} \<longleftrightarrow>
      \<not> (\<exists>e \<in> set (ivhd_entries t registers xs). entry_requesters e \<noteq> {})" by blast
  ultimately show ?thesis
    using c unfolding w(2) ivhd_walk_result_def by (cases "iw_saw_all w") auto
qed

text \<open>C22. The parser never panics and always ends, whatever the bytes: no block and no device entry of a
block is a panic, there are at most as many of them as bytes, and the query of a unit's requesters
returns an answer or an error.\<close>

theorem ivrs_no_panic:
  "Panic \<notin> set (blocks E t) \<and> length (blocks E t) \<le> length (it_sdt t) - 48 \<and>
   (\<forall>u. Ok (Ivhd u) \<in> set (blocks E t) \<longrightarrow>
      Panic \<notin> set (unit_entries t u) \<and> length (unit_entries t u) \<le> ivhd_length u) \<and>
   ivhd_bdf_ranges E t registers \<noteq> Panic"
proof -
  have "length (unit_entries t u) \<le> ivhd_length u" for u
    unfolding unit_entries_def by (rule order_trans [OF entries.items_bounded]) simp
  then show ?thesis
    using blocks_no_panic blocks.items_bounded [of E t 48] ivhd_bdf_ranges_no_panic
      entries_no_panic [OF blocks_Ivhd(1)]
    by (simp add: blocks_def IVRS_BLOCKS_OFFSET_def unit_entries_def)
qed


section \<open>A concrete table\<close>

text \<open>
  One IVHD block of type 10h with two select entries. The bytes \<open>02 10 02 00\<close>, which by the AMD layout
  select \<open>02:02.0\<close> (identifier \<open>0x0210\<close>), are read as the identifier \<open>0x0002\<close>.
\<close>

definition wit_ivrs :: ivrs_table where
  "wit_ivrs = \<lparr>it_sdt = replicate 48 0 @
     [0x10, 0x20, 32, 0, 0, 1, 0x40, 0, 0, 0, 0xd8, 0xfe, 0, 0, 0, 0, 2, 0, 0x55, 0, 0xa5, 0xa5, 0, 0] @
     [2, 0x10, 2, 0] @ [2, 0, 0x11, 2]\<rparr>"

definition wit_ivhd_registers :: addr_range where
  "wit_ivhd_registers = \<lparr>r_start = 0xfed80000, r_end = 0xfed84000\<rparr>"

definition wit_ivhd :: ivhd where
  "wit_ivhd = \<lparr>ivhd_block_type = 0x10, ivhd_flags = 0x20, ivhd_registers = wit_ivhd_registers,
     ivhd_device = pci_from_segment_bdf 2 (Bdf 0x100), ivhd_capability_offset = 0x40,
     ivhd_iommu_info = 0x55, ivhd_feature_info = Some 0xa5a5, ivhd_efr = None,
     ivhd_include_all = False, ivhd_has_device_scopes = True, ivhd_block_offset = 48, ivhd_length = 32\<rparr>"

lemmas wit_ivrs_reads = read_u8_def read_u16_def read_u32_def read_u64_def read_array_def slice_get_def
  slice_get_range_def checked_add_usize_def usize_bound_def nth_append wit_ivrs_def slice_def

lemma wit_entry_next:
  "entry_next wit_ivrs 48 32 (24, None) = Some (Ok (Some (Select (Bdf 2) 0x10)), (28, None))"
  "entry_next wit_ivrs 48 32 (28, None) = Some (Ok (Some (Select (Bdf 0x211) 0)), (32, None))"
  "entry_next wit_ivrs 48 32 (32, None) = None"
  by (simp_all add: entry_next_def wit_ivrs_reads entry_size_def entry_ids_def entry_decode_def deventry_kinds
      word_le_nat_alt)

lemma wit_entries: "entries_from wit_ivrs 48 32 (24, None) =
    [Ok (Some (Select (Bdf 2) 0x10)), Ok (Some (Select (Bdf 0x211) 0))]"
  by (simp add: entries_from.simps wit_entry_next)

lemma wit_note: "run_walk (walk_device_entries wit_ivrs 48 24 32 note_entry) (False, False) = Ok (False, True)"
  by (simp add: walk_device_entries_def wit_entries run_walk.simps on_entry_def note_entry_def st_then_def)

lemma wit_block_next:
  "block_next std_ext wit_ivrs 48 = Some (Ok (Ivhd wit_ivhd), 80)" "block_next std_ext wit_ivrs 80 = None"
  by (simp_all add: block_next_def wit_ivrs_reads parse_block_def ivrs_kinds parse_ivhd_def ivrs_offsets
      device_entries_offset_def mmio_register_window_def mmio_from_start_size_def std_ext_def
      AMD_VI_REGISTER_WINDOW_SIZE_def wit_ivhd_def wit_ivhd_registers_def usize_try_from_def
      wit_note [unfolded wit_ivrs_def append.simps])

lemma wit_blocks: "blocks std_ext wit_ivrs = [Ok (Ivhd wit_ivhd)]"
  by (simp add: blocks_def blocks_from.simps wit_block_next IVRS_BLOCKS_OFFSET_def)

lemma wit_unit_entries: "unit_entries wit_ivrs wit_ivhd =
    [Ok (Some (Select (Bdf 2) 0x10)), Ok (Some (Select (Bdf 0x211) 0))]"
  by (simp add: unit_entries_def wit_ivhd_def device_entries_offset_def ivrs_kinds ivrs_offsets wit_entries)

lemma wit_two_inserts: "\<exists>s s'. firm_insert (rs_empty 16) (br_single (Bdf 2)) = Ok s \<and>
    firm_insert s (br_single (Bdf 0x211)) = Ok s' \<and> \<not> rs_is_empty s'"
proof -
  have "case firm_insert (rs_empty 16) (br_single (Bdf 2)) of
      Ok s \<Rightarrow> (case firm_insert s (br_single (Bdf 0x211)) of Ok s' \<Rightarrow> \<not> rs_is_empty s' | _ \<Rightarrow> False)
    | _ \<Rightarrow> False"
    by code_simp
  then show ?thesis by (auto split: res.splits)
qed

lemma wit_ivhd_ranges: "\<exists>s. ivhd_bdf_ranges std_ext wit_ivrs wit_ivhd_registers = Ok (Some s)"
proof -
  obtain s s' where s: "firm_insert (rs_empty 16) (br_single (Bdf 2)) = Ok s"
      "firm_insert s (br_single (Bdf 0x211)) = Ok s'" "\<not> rs_is_empty s'"
    using wit_two_inserts by blast
  have "entries_from wit_ivrs 48 32 (device_entries_offset 0x10, None) =
      [Ok (Some (Select (Bdf 2) 0x10)), Ok (Some (Select (Bdf 0x211) 0))]"
    by (simp add: device_entries_offset_def ivrs_kinds ivrs_offsets wit_entries)
  then show ?thesis
    using s by (simp add: ivhd_bdf_ranges_def for_each_block_def wit_blocks ivhd_collect_def
        walk_device_entries_def wit_ivhd_def on_entry_def ivhd_collect_entry_def add_range_def
        ivhd_walk_start_def IVRS_REQUESTER_WINDOW_CAPACITY_def run_walk.simps ivhd_walk_result_def
        st_then_def st_bind_def)
qed

section \<open>Witnesses\<close>

lemma ivhd_bdf_ranges_exact_witness:
  "\<exists>s. ivhd_bdf_ranges std_ext wit_ivrs wit_ivhd_registers = Ok (Some s) \<and> rs_inv s \<and>
     rs_members s = {Bdf 2, Bdf 0x211}"
proof -
  obtain s where s: "ivhd_bdf_ranges std_ext wit_ivrs wit_ivhd_registers = Ok (Some s)"
    using wit_ivhd_ranges by blast
  have "ivhds_of wit_ivhd_registers [Ivhd wit_ivhd] = [wit_ivhd]"
    by (simp add: ivhds_of_def wit_ivhd_def)
  then have "ivhd_entries wit_ivrs wit_ivhd_registers [Ivhd wit_ivhd] =
      [Select (Bdf 2) 0x10, Select (Bdf 0x211) 0]"
    by (simp add: ivhd_entries_def wit_unit_entries)
  with ivhd_bdf_ranges_exact [OF s] show ?thesis using s by (auto simp: wit_blocks)
qed

lemma wit_ivrs_length: "length (it_sdt wit_ivrs) < usize_bound"
  by (simp add: wit_ivrs_def usize_bound_def)


lemma ivrs_no_panic_witness:
  "Panic \<notin> set (unit_entries wit_ivrs wit_ivhd) \<and>
   ivhd_bdf_ranges std_ext wit_ivrs wit_ivhd_registers \<noteq> Panic"
  using ivrs_no_panic [of std_ext wit_ivrs wit_ivhd_registers] by (simp add: wit_blocks)

end
