(* ===== verification/Iort.thy ===== *)
theory Iort
  imports Firm_Table
begin

text \<open>
  \<open>src/arch/aarch64/iort.rs\<close>: the parser of the ACPI IORT table and the walk through its graph of
  identifier mappings. Iterators are step functions on a cursor (an offset and the number of items
  left); the lists of what they yield, up to the first error, are what the loops of the code consume.
\<close>

section \<open>Constants and data\<close>

definition IORT_NODE_COUNT_OFFSET :: usize where "IORT_NODE_COUNT_OFFSET = 36"
definition IORT_NODE_OFFSET_OFFSET :: usize where "IORT_NODE_OFFSET_OFFSET = 40"
definition IORT_TABLE_MIN_LENGTH :: usize where "IORT_TABLE_MIN_LENGTH = 48"
definition IORT_NODE_HEADER_LENGTH :: usize where "IORT_NODE_HEADER_LENGTH = 16"
definition IORT_ID_MAPPING_LENGTH :: usize where "IORT_ID_MAPPING_LENGTH = 20"

definition IORT_NODE_ITS_GROUP :: u8 where "IORT_NODE_ITS_GROUP = 0x00"
definition IORT_NODE_NAMED_COMPONENT :: u8 where "IORT_NODE_NAMED_COMPONENT = 0x01"
definition IORT_NODE_ROOT_COMPLEX :: u8 where "IORT_NODE_ROOT_COMPLEX = 0x02"
definition IORT_NODE_SMMU :: u8 where "IORT_NODE_SMMU = 0x03"
definition IORT_NODE_SMMU_V3 :: u8 where "IORT_NODE_SMMU_V3 = 0x04"
definition IORT_NODE_PMCG :: u8 where "IORT_NODE_PMCG = 0x05"
definition IORT_NODE_RMR :: u8 where "IORT_NODE_RMR = 0x06"

lemmas iort_kinds = IORT_NODE_ITS_GROUP_def IORT_NODE_NAMED_COMPONENT_def IORT_NODE_ROOT_COMPLEX_def
  IORT_NODE_SMMU_def IORT_NODE_SMMU_V3_def IORT_NODE_PMCG_def IORT_NODE_RMR_def

definition ITS_GROUP_MIN_LENGTH :: usize where "ITS_GROUP_MIN_LENGTH = IORT_NODE_HEADER_LENGTH + 4"
definition NAMED_COMPONENT_MIN_LENGTH :: usize where
  "NAMED_COMPONENT_MIN_LENGTH = IORT_NODE_HEADER_LENGTH + 13"
definition ROOT_COMPLEX_MIN_LENGTH :: usize where "ROOT_COMPLEX_MIN_LENGTH = IORT_NODE_HEADER_LENGTH + 19"
definition SMMU_MIN_LENGTH :: usize where "SMMU_MIN_LENGTH = IORT_NODE_HEADER_LENGTH + 44"
definition SMMU_V3_MIN_LENGTH :: usize where "SMMU_V3_MIN_LENGTH = IORT_NODE_HEADER_LENGTH + 52"
definition PMCG_MIN_LENGTH :: usize where "PMCG_MIN_LENGTH = IORT_NODE_HEADER_LENGTH + 24"
definition RMR_MIN_LENGTH :: usize where "RMR_MIN_LENGTH = IORT_NODE_HEADER_LENGTH + 12"
definition RMR_DESCRIPTOR_LENGTH :: usize where "RMR_DESCRIPTOR_LENGTH = 20"
definition IORT_REQUESTER_WINDOW_CAPACITY :: usize where "IORT_REQUESTER_WINDOW_CAPACITY = 16"

lemmas iort_lengths = ITS_GROUP_MIN_LENGTH_def NAMED_COMPONENT_MIN_LENGTH_def ROOT_COMPLEX_MIN_LENGTH_def
  SMMU_MIN_LENGTH_def SMMU_V3_MIN_LENGTH_def PMCG_MIN_LENGTH_def RMR_MIN_LENGTH_def
  RMR_DESCRIPTOR_LENGTH_def IORT_NODE_HEADER_LENGTH_def IORT_ID_MAPPING_LENGTH_def
  IORT_TABLE_MIN_LENGTH_def

definition iort_msgs :: read_msgs where
  "iort_msgs = \<lparr>rm_overflow = ''IORT read offset overflow'',
                rm_bounds = ''IORT table read is out of bounds''\<rparr>"

record iort_table =
  io_sdt :: "u8 list"

datatype iort_kind =
    Kind_ItsGroup | Kind_NamedComponent | Kind_RootComplex | Kind_Smmu | Kind_SmmuV3 | Kind_Pmcg
  | Kind_ReservedMemory | Kind_Unknown u8

record iort_header =
  ih_kind :: iort_kind
  ih_revision :: u8
  ih_identifier :: u32
  ih_mapping_count :: u32
  ih_mapping_offset :: u32
  ih_offset :: usize
  ih_length :: usize

record iort_memory_access =
  ma_cache_coherency :: u32
  ma_hints :: u8
  ma_memory_flags :: u8

record iort_its_group =
  ig_its_count :: u32
  ig_header :: iort_header

record iort_named_component =
  nc_node_flags :: u32
  nc_memory_properties :: iort_memory_access
  nc_memory_address_limit :: u8
  nc_device_name :: "u8 list"
  nc_header :: iort_header

record iort_root_complex =
  rc_memory_properties :: iort_memory_access
  rc_ats_attribute :: u32
  rc_pci_segment_number :: u32
  rc_memory_address_limit :: u8
  rc_pasid_capabilities :: u16
  rc_header :: iort_header

record iort_smmu =
  smmu_registers :: addr_range
  smmu_model :: u32
  smmu_flags :: u32
  smmu_global_interrupt_offset :: u32
  smmu_context_interrupt_count :: u32
  smmu_context_interrupt_offset :: u32
  smmu_pmu_interrupt_count :: u32
  smmu_pmu_interrupt_offset :: u32
  smmu_header :: iort_header

record iort_smmu_v3 =
  v3_base_address :: usize
  v3_flags :: u32
  v3_vatos_address :: "usize option"
  v3_model :: u32
  v3_event_gsiv :: u32
  v3_pri_gsiv :: u32
  v3_gerr_gsiv :: u32
  v3_sync_gsiv :: u32
  v3_pxm :: u32
  v3_id_mapping_index :: u32
  v3_header :: iort_header

record iort_pmcg =
  pm_page0_base_address :: usize
  pm_overflow_gsiv :: u32
  pm_node_reference :: u32
  pm_page1_base_address :: "usize option"
  pm_header :: iort_header

record iort_reserved_memory =
  rmr_flags :: u32
  rmr_descriptor_count :: u32
  rmr_descriptor_offset :: u32
  rmr_header :: iort_header

record iort_unknown_node =
  un_kind :: u8
  un_header :: iort_header

datatype iort_node =
    ItsGroup iort_its_group | NamedComponent iort_named_component | RootComplex iort_root_complex
  | Smmu iort_smmu | SmmuV3 iort_smmu_v3 | Pmcg iort_pmcg | ReservedMemory iort_reserved_memory
  | UnknownNode iort_unknown_node

fun node_header :: "iort_node \<Rightarrow> iort_header" where
  "node_header (ItsGroup n) = ig_header n"
| "node_header (NamedComponent n) = nc_header n"
| "node_header (RootComplex n) = rc_header n"
| "node_header (Smmu n) = smmu_header n"
| "node_header (SmmuV3 n) = v3_header n"
| "node_header (Pmcg n) = pm_header n"
| "node_header (ReservedMemory n) = rmr_header n"
| "node_header (UnknownNode n) = un_header n"

definition end_offset :: "iort_header \<Rightarrow> usize" where
  "end_offset h = ih_offset h + ih_length h"

datatype iort_requester_match = MatchCovered | MatchNotCovered | MatchUnresolved

record iort_id_translation =
  tr_node :: iort_node
  tr_id :: u32

record single_step =
  ss_id :: u32
  ss_output_reference :: u32

record iort_id_mapping =
  im_input_base :: u32
  im_id_count :: u32
  im_output_base :: u32
  im_output_reference :: u32
  im_flags :: u32

record iort_smmu_global_interrupt =
  gi_nsg_irpt :: u32
  gi_nsg_irpt_flags :: u32
  gi_nsg_cfg_irpt :: u32
  gi_nsg_cfg_irpt_flags :: u32

record iort_smmu_interrupt =
  si_gsiv :: u32
  si_flags :: u32

record iort_rmr_descriptor =
  rd_memory :: addr_range
  rd_reserved :: u32

record iort_cursor =
  cur_offset :: usize
  cur_remaining :: u32

definition iort_kind_from_raw :: "u8 \<Rightarrow> iort_kind" where
  "iort_kind_from_raw raw =
     (if raw = IORT_NODE_ITS_GROUP then Kind_ItsGroup
      else if raw = IORT_NODE_NAMED_COMPONENT then Kind_NamedComponent
      else if raw = IORT_NODE_ROOT_COMPLEX then Kind_RootComplex
      else if raw = IORT_NODE_SMMU then Kind_Smmu
      else if raw = IORT_NODE_SMMU_V3 then Kind_SmmuV3
      else if raw = IORT_NODE_PMCG then Kind_Pmcg
      else if raw = IORT_NODE_RMR then Kind_ReservedMemory
      else Kind_Unknown raw)"

fun single_mapping_allowed :: "iort_kind \<Rightarrow> bool" where
  "single_mapping_allowed Kind_NamedComponent = True"
| "single_mapping_allowed Kind_RootComplex = True"
| "single_mapping_allowed Kind_SmmuV3 = True"
| "single_mapping_allowed Kind_Pmcg = True"
| "single_mapping_allowed _ = False"

definition is_coherent :: "iort_memory_access \<Rightarrow> bool" where
  "is_coherent m \<longleftrightarrow> ma_cache_coherency m AND 1 \<noteq> 0"

definition ats_supported :: "iort_root_complex \<Rightarrow> bool" where
  "ats_supported n \<longleftrightarrow> rc_ats_attribute n AND 1 \<noteq> 0"

definition pri_supported :: "iort_root_complex \<Rightarrow> bool" where
  "pri_supported n \<longleftrightarrow> rc_ats_attribute n AND push_bit 1 1 \<noteq> 0"

definition pasid_forward_supported :: "iort_root_complex \<Rightarrow> bool" where
  "pasid_forward_supported n \<longleftrightarrow> rc_ats_attribute n AND push_bit 2 1 \<noteq> 0"

definition max_pasid_width :: "iort_root_complex \<Rightarrow> u8" where
  "max_pasid_width n = ucast (rc_pasid_capabilities n AND 0x1f)"

definition pxm_valid :: "iort_smmu_v3 \<Rightarrow> bool" where
  "pxm_valid n \<longleftrightarrow> v3_flags n AND push_bit 3 1 \<noteq> 0"

definition device_id_valid :: "iort_smmu_v3 \<Rightarrow> bool" where
  "device_id_valid n \<longleftrightarrow> v3_flags n AND push_bit 4 1 \<noteq> 0"

definition remap_permitted :: "iort_reserved_memory \<Rightarrow> bool" where
  "remap_permitted n \<longleftrightarrow> rmr_flags n AND 1 \<noteq> 0"

definition privileged_access :: "iort_reserved_memory \<Rightarrow> bool" where
  "privileged_access n \<longleftrightarrow> rmr_flags n AND push_bit 1 1 \<noteq> 0"

definition access_attributes :: "iort_reserved_memory \<Rightarrow> u8" where
  "access_attributes n = ucast (drop_bit 2 (rmr_flags n) AND 0xff)"

section \<open>Helpers\<close>

definition checked_offset :: "usize \<Rightarrow> usize \<Rightarrow> (usize, firm_error) res" where
  "checked_offset base offset =
     ok_or (checked_add_usize base offset) (FirmMalformed ''IORT offset overflow'')"

definition mmio_address :: "u64 \<Rightarrow> (usize, firm_error) res" where
  "mmio_address base =
     ok_or (usize_try_from base) (FirmMalformed ''IORT MMIO address cannot fit in usize'')"

definition mmio_range_from_start_size :: "ext_ops \<Rightarrow> u64 \<Rightarrow> u64 \<Rightarrow> (addr_range, firm_error) res" where
  "mmio_range_from_start_size E start sz =
     res_bind (mmio_address start) (\<lambda>a.
     res_bind (ok_or (usize_try_from sz) (FirmMalformed ''IORT MMIO range size cannot fit in usize'')) (\<lambda>n.
     if n = 0 then Err (FirmMalformed ''IORT MMIO range is empty'')
     else ok_or (mmio_from_start_size E a n) (FirmMalformed ''IORT MMIO range overflows'')))"

definition iort_phys_range :: "ext_ops \<Rightarrow> u64 \<Rightarrow> u64 \<Rightarrow> (addr_range, firm_error) res" where
  "iort_phys_range E start sz =
     res_bind (ok_or (usize_try_from start) (FirmMalformed ''IORT physical address cannot fit in usize'')) (\<lambda>a.
     res_bind (ok_or (usize_try_from sz) (FirmMalformed ''IORT physical range size cannot fit in usize'')) (\<lambda>n.
     if n = 0 then Err (FirmMalformed ''IORT physical range is empty'')
     else ok_or (range_try_from_start_size E a n) (FirmMalformed ''IORT physical range overflows'')))"

abbreviation iort_u8 :: "iort_table \<Rightarrow> usize \<Rightarrow> (u8, firm_error) res" where
  "iort_u8 t offset \<equiv> read_u8 iort_msgs (io_sdt t) offset"

abbreviation iort_u16 :: "iort_table \<Rightarrow> usize \<Rightarrow> (u16, firm_error) res" where
  "iort_u16 t offset \<equiv> read_u16 iort_msgs (io_sdt t) offset"

abbreviation iort_u32 :: "iort_table \<Rightarrow> usize \<Rightarrow> (u32, firm_error) res" where
  "iort_u32 t offset \<equiv> read_u32 iort_msgs (io_sdt t) offset"

abbreviation iort_u64 :: "iort_table \<Rightarrow> usize \<Rightarrow> (u64, firm_error) res" where
  "iort_u64 t offset \<equiv> read_u64 iort_msgs (io_sdt t) offset"

definition iort_parse :: "ext_ops \<Rightarrow> u8 list \<Rightarrow> (iort_table, firm_error) res" where
  "iort_parse E bytes =
     res_bind (table_bytes E ''IORT'' ''IORT table shorter than SDT header''
                 ''IORT table length is invalid'' bytes) (\<lambda>sdt.
     if length sdt < IORT_TABLE_MIN_LENGTH then Err (FirmMalformed ''IORT table shorter than fixed header'')
     else Ok \<lparr>io_sdt = sdt\<rparr>)"

definition node_count :: "iort_table \<Rightarrow> (u32, firm_error) res" where
  "node_count t = iort_u32 t IORT_NODE_COUNT_OFFSET"

definition node_offset :: "iort_table \<Rightarrow> (u32, firm_error) res" where
  "node_offset t = iort_u32 t IORT_NODE_OFFSET_OFFSET"

definition usize_try_from_u32 :: "u32 \<Rightarrow> usize option" where
  "usize_try_from_u32 v = (if unat v < usize_bound then Some (unat v) else None)"

lemma usize_try_from_u32_Some [simp]: "usize_try_from_u32 v = Some (unat v)"
  by (simp add: usize_try_from_u32_def)

section \<open>Nodes\<close>

definition parse_node_header :: "iort_table \<Rightarrow> usize \<Rightarrow> (iort_header, firm_error) res" where
  "parse_node_header t offset =
     res_bind (checked_offset offset IORT_NODE_HEADER_LENGTH) (\<lambda>header_end.
     if length (io_sdt t) < header_end then Err (FirmMalformed ''IORT node truncated before header'')
     else
       res_bind (iort_u16 t (offset + 1)) (\<lambda>l.
       let len = unat l
       in if len < IORT_NODE_HEADER_LENGTH then Err (FirmMalformed ''IORT node length smaller than header'')
          else
            res_bind (checked_offset offset len) (\<lambda>node_end.
            if length (io_sdt t) < node_end then Err (FirmMalformed ''IORT node extends past table length'')
            else
              res_bind (iort_u8 t offset) (\<lambda>kind.
              res_bind (iort_u8 t (offset + 3)) (\<lambda>revision.
              res_bind (iort_u32 t (offset + 4)) (\<lambda>identifier.
              res_bind (iort_u32 t (offset + 8)) (\<lambda>mapping_count.
              res_bind (iort_u32 t (offset + 12)) (\<lambda>mapping_offset.
              Ok \<lparr>ih_kind = iort_kind_from_raw kind, ih_revision = revision,
                  ih_identifier = identifier, ih_mapping_count = mapping_count,
                  ih_mapping_offset = mapping_offset, ih_offset = offset, ih_length = len\<rparr>))))))))"

definition read_memory_access :: "iort_table \<Rightarrow> usize \<Rightarrow> (iort_memory_access, firm_error) res" where
  "read_memory_access t offset =
     res_bind (iort_u32 t offset) (\<lambda>coherency.
     res_bind (iort_u8 t (offset + 4)) (\<lambda>hints.
     res_bind (iort_u8 t (offset + 7)) (\<lambda>flags.
     Ok \<lparr>ma_cache_coherency = coherency, ma_hints = hints, ma_memory_flags = flags\<rparr>)))"

definition parse_its_group :: "iort_table \<Rightarrow> iort_header \<Rightarrow> (iort_its_group, firm_error) res" where
  "parse_its_group t h =
     (if ih_length h < ITS_GROUP_MIN_LENGTH then Err (FirmMalformed ''IORT ITS group node shorter than minimum'')
      else
        res_bind (iort_u32 t (ih_offset h + 16)) (\<lambda>count.
        Ok \<lparr>ig_its_count = count, ig_header = h\<rparr>))"

definition parse_named_component :: "iort_table \<Rightarrow> iort_header \<Rightarrow> (iort_named_component, firm_error) res" where
  "parse_named_component t h =
     (if ih_length h < NAMED_COMPONENT_MIN_LENGTH
      then Err (FirmMalformed ''IORT named component node shorter than minimum'')
      else
        let name_start = ih_offset h + NAMED_COMPONENT_MIN_LENGTH
        in res_bind (if ih_mapping_count h = 0 then Ok (end_offset h)
                     else checked_offset (ih_offset h) (unat (ih_mapping_offset h))) (\<lambda>name_end.
           if name_end < name_start \<or> end_offset h < name_end
           then Err (FirmMalformed ''IORT named component device name bounds are invalid'')
           else
             res_bind (iort_u32 t (ih_offset h + 16)) (\<lambda>flags.
             res_bind (read_memory_access t (ih_offset h + 20)) (\<lambda>properties.
             res_bind (iort_u8 t (ih_offset h + 28)) (\<lambda>limit.
             res_bind (slice (io_sdt t) name_start name_end) (\<lambda>name.
             Ok \<lparr>nc_node_flags = flags, nc_memory_properties = properties,
                 nc_memory_address_limit = limit, nc_device_name = name, nc_header = h\<rparr>))))))"

definition parse_root_complex :: "iort_table \<Rightarrow> iort_header \<Rightarrow> (iort_root_complex, firm_error) res" where
  "parse_root_complex t h =
     (if ih_length h < ROOT_COMPLEX_MIN_LENGTH
      then Err (FirmMalformed ''IORT root complex node shorter than minimum'')
      else
        res_bind (read_memory_access t (ih_offset h + 16)) (\<lambda>properties.
        res_bind (iort_u32 t (ih_offset h + 24)) (\<lambda>ats.
        res_bind (iort_u32 t (ih_offset h + 28)) (\<lambda>segment.
        res_bind (iort_u8 t (ih_offset h + 32)) (\<lambda>limit.
        res_bind (iort_u16 t (ih_offset h + 33)) (\<lambda>pasid.
        Ok \<lparr>rc_memory_properties = properties, rc_ats_attribute = ats,
            rc_pci_segment_number = segment, rc_memory_address_limit = limit,
            rc_pasid_capabilities = pasid, rc_header = h\<rparr>))))))"

definition parse_smmu :: "ext_ops \<Rightarrow> iort_table \<Rightarrow> iort_header \<Rightarrow> (iort_smmu, firm_error) res" where
  "parse_smmu E t h =
     (if ih_length h < SMMU_MIN_LENGTH then Err (FirmMalformed ''IORT SMMU node shorter than minimum'')
      else
        res_bind (iort_u64 t (ih_offset h + 16)) (\<lambda>base.
        res_bind (iort_u64 t (ih_offset h + 24)) (\<lambda>span.
        res_bind (mmio_range_from_start_size E base span) (\<lambda>registers.
        res_bind (iort_u32 t (ih_offset h + 32)) (\<lambda>model.
        res_bind (iort_u32 t (ih_offset h + 36)) (\<lambda>flags.
        res_bind (iort_u32 t (ih_offset h + 40)) (\<lambda>global.
        res_bind (iort_u32 t (ih_offset h + 44)) (\<lambda>context_count.
        res_bind (iort_u32 t (ih_offset h + 48)) (\<lambda>context_offset.
        res_bind (iort_u32 t (ih_offset h + 52)) (\<lambda>pmu_count.
        res_bind (iort_u32 t (ih_offset h + 56)) (\<lambda>pmu_offset.
        Ok \<lparr>smmu_registers = registers, smmu_model = model, smmu_flags = flags,
            smmu_global_interrupt_offset = global, smmu_context_interrupt_count = context_count,
            smmu_context_interrupt_offset = context_offset, smmu_pmu_interrupt_count = pmu_count,
            smmu_pmu_interrupt_offset = pmu_offset, smmu_header = h\<rparr>)))))))))))"

definition parse_smmu_v3 :: "iort_table \<Rightarrow> iort_header \<Rightarrow> (iort_smmu_v3, firm_error) res" where
  "parse_smmu_v3 t h =
     (if ih_length h < SMMU_V3_MIN_LENGTH then Err (FirmMalformed ''IORT SMMUv3 node shorter than minimum'')
      else
        res_bind (iort_u64 t (ih_offset h + 32)) (\<lambda>vatos.
        res_bind (iort_u64 t (ih_offset h + 16)) (\<lambda>base.
        res_bind (mmio_address base) (\<lambda>base_address.
        res_bind (iort_u32 t (ih_offset h + 24)) (\<lambda>flags.
        res_bind (if vatos = 0 then Ok None else res_map Some (mmio_address vatos)) (\<lambda>vatos_address.
        res_bind (iort_u32 t (ih_offset h + 40)) (\<lambda>model.
        res_bind (iort_u32 t (ih_offset h + 44)) (\<lambda>event.
        res_bind (iort_u32 t (ih_offset h + 48)) (\<lambda>pri.
        res_bind (iort_u32 t (ih_offset h + 52)) (\<lambda>gerr.
        res_bind (iort_u32 t (ih_offset h + 56)) (\<lambda>sync.
        res_bind (iort_u32 t (ih_offset h + 60)) (\<lambda>pxm.
        res_bind (iort_u32 t (ih_offset h + 64)) (\<lambda>index.
        Ok \<lparr>v3_base_address = base_address, v3_flags = flags, v3_vatos_address = vatos_address,
            v3_model = model, v3_event_gsiv = event, v3_pri_gsiv = pri, v3_gerr_gsiv = gerr,
            v3_sync_gsiv = sync, v3_pxm = pxm, v3_id_mapping_index = index, v3_header = h\<rparr>)))))))))))))"

definition parse_pmcg :: "iort_table \<Rightarrow> iort_header \<Rightarrow> (iort_pmcg, firm_error) res" where
  "parse_pmcg t h =
     (if ih_length h < PMCG_MIN_LENGTH then Err (FirmMalformed ''IORT PMCG node shorter than minimum'')
      else
        res_bind (iort_u64 t (ih_offset h + 32)) (\<lambda>page1.
        res_bind (iort_u64 t (ih_offset h + 16)) (\<lambda>page0.
        res_bind (mmio_address page0) (\<lambda>page0_address.
        res_bind (iort_u32 t (ih_offset h + 24)) (\<lambda>overflow.
        res_bind (iort_u32 t (ih_offset h + 28)) (\<lambda>reference.
        res_bind (if page1 = 0 then Ok None else res_map Some (mmio_address page1)) (\<lambda>page1_address.
        Ok \<lparr>pm_page0_base_address = page0_address, pm_overflow_gsiv = overflow,
            pm_node_reference = reference, pm_page1_base_address = page1_address,
            pm_header = h\<rparr>)))))))"

definition parse_reserved_memory :: "iort_table \<Rightarrow> iort_header \<Rightarrow> (iort_reserved_memory, firm_error) res" where
  "parse_reserved_memory t h =
     (if ih_length h < RMR_MIN_LENGTH then Err (FirmMalformed ''IORT RMR node shorter than minimum'')
      else
        res_bind (iort_u32 t (ih_offset h + 16)) (\<lambda>flags.
        res_bind (iort_u32 t (ih_offset h + 20)) (\<lambda>count.
        res_bind (iort_u32 t (ih_offset h + 24)) (\<lambda>offset.
        Ok \<lparr>rmr_flags = flags, rmr_descriptor_count = count, rmr_descriptor_offset = offset,
            rmr_header = h\<rparr>))))"

definition parse_node :: "ext_ops \<Rightarrow> iort_table \<Rightarrow> usize \<Rightarrow> (iort_node, firm_error) res" where
  "parse_node E t offset =
     res_bind (parse_node_header t offset) (\<lambda>h.
     case ih_kind h of
       Kind_ItsGroup \<Rightarrow> res_map ItsGroup (parse_its_group t h)
     | Kind_NamedComponent \<Rightarrow> res_map NamedComponent (parse_named_component t h)
     | Kind_RootComplex \<Rightarrow> res_map RootComplex (parse_root_complex t h)
     | Kind_Smmu \<Rightarrow> res_map Smmu (parse_smmu E t h)
     | Kind_SmmuV3 \<Rightarrow> res_map SmmuV3 (parse_smmu_v3 t h)
     | Kind_Pmcg \<Rightarrow> res_map Pmcg (parse_pmcg t h)
     | Kind_ReservedMemory \<Rightarrow> res_map ReservedMemory (parse_reserved_memory t h)
     | Kind_Unknown kind \<Rightarrow> Ok (UnknownNode \<lparr>un_kind = kind, un_header = h\<rparr>))"

section \<open>Iterators\<close>

text \<open>One call of the node iterator: what it yields, with the cursor it continues at.\<close>

definition node_next :: "ext_ops \<Rightarrow> iort_table \<Rightarrow> iort_cursor \<Rightarrow> ((iort_node, firm_error) res \<times> iort_cursor) option" where
  "node_next E t c =
     (let offset = cur_offset c; stop = c\<lparr>cur_remaining := 0\<rparr>
      in if cur_remaining c = 0 then None
         else if length (io_sdt t) \<le> offset
         then Some (Err (FirmMalformed ''IORT node count exceeds table contents''), stop)
         else case iort_u16 t (offset + 1) of
             Err e \<Rightarrow> Some (Err e, stop)
           | Panic \<Rightarrow> Some (Panic, c)
           | Ok l \<Rightarrow>
               (let len = unat l
                in if len < IORT_NODE_HEADER_LENGTH
                   then Some (Err (FirmMalformed ''IORT node length smaller than header''), stop)
                   else case checked_offset offset len of
                       Ok node_end \<Rightarrow>
                         if length (io_sdt t) < node_end
                         then Some (Err (FirmMalformed ''IORT node extends past table length''), stop)
                         else Some (parse_node E t offset,
                                \<lparr>cur_offset = offset + len, cur_remaining = cur_remaining c - 1\<rparr>)
                     | _ \<Rightarrow> Some (Err (FirmMalformed ''IORT node offset overflows''), stop)))"

text \<open>The iterators over arrays of fixed-size items differ in the item they read.\<close>

definition array_next :: "usize \<Rightarrow> (usize \<Rightarrow> ('a, firm_error) res) \<Rightarrow> iort_cursor \<Rightarrow>
    (('a, firm_error) res \<times> iort_cursor) option" where
  "array_next stride item c =
     (if cur_remaining c = 0 then None
      else Some (item (cur_offset c),
        \<lparr>cur_offset = cur_offset c + stride, cur_remaining = cur_remaining c - 1\<rparr>))"

text \<open>What a loop over an iterator with such a cursor sees, up to the first error.\<close>

definition left :: "iort_cursor \<Rightarrow> nat" where
  "left c = unat (cur_remaining c)"

definition counts_down :: "(iort_cursor \<Rightarrow> (('a, firm_error) res \<times> iort_cursor) option) \<Rightarrow> bool" where
  "counts_down nxt \<longleftrightarrow> (\<forall>c r c'. nxt c = Some (r, c') \<longrightarrow> left c \<noteq> 0 \<and> (is_Ok r \<longrightarrow> Suc (left c') = left c))"

fun drain :: "nat \<Rightarrow> (iort_cursor \<Rightarrow> (('a, firm_error) res \<times> iort_cursor) option) \<Rightarrow> iort_cursor \<Rightarrow>
    ('a, firm_error) res list" where
  "drain 0 nxt c = []"
| "drain (Suc n) nxt c =
     (case nxt c of
        None \<Rightarrow> []
      | Some (r, c') \<Rightarrow> r # (if is_Ok r then drain n nxt c' else []))"

definition cursor_items :: "(iort_cursor \<Rightarrow> (('a, firm_error) res \<times> iort_cursor) option) \<Rightarrow> iort_cursor \<Rightarrow>
    ('a, firm_error) res list" where
  "cursor_items nxt c = drain (left c) nxt c"

lemma left_minus: "cur_remaining c \<noteq> 0 \<Longrightarrow> Suc (unat (cur_remaining c - 1)) = left c"
  by (simp add: left_def unat_minus_one unat_gt_0)

lemma counts_down_node: "counts_down (node_next E t)"
  by (auto simp: counts_down_def node_next_def Let_def left_def unat_eq_zero
      left_minus [unfolded left_def] split: if_splits res.splits)

lemma counts_down_array: "counts_down (array_next stride item)"
  by (auto simp: counts_down_def array_next_def left_def unat_eq_zero left_minus [unfolded left_def]
      split: if_splits)

lemma cursor_items_eq:
  assumes "counts_down nxt"
  shows "cursor_items nxt c =
    (case nxt c of None \<Rightarrow> [] | Some (r, c') \<Rightarrow> r # (if is_Ok r then cursor_items nxt c' else []))"
proof (cases "nxt c")
  case None
  then show ?thesis by (cases "left c") (simp_all add: cursor_items_def)
next
  case (Some p)
  obtain r c' where p: "p = (r, c')" by (rule prod.exhaust)
  have "left c \<noteq> 0" "is_Ok r \<longrightarrow> Suc (left c') = left c"
    using assms Some p by (auto simp: counts_down_def)
  then show ?thesis using Some p by (cases "left c") (auto simp: cursor_items_def)
qed

lemma left_bound: "left c < 2 ^ 32"
  using unsigned_less [of "cur_remaining c"] by (simp add: left_def)

definition cursor_pos :: "iort_cursor \<Rightarrow> nat" where
  "cursor_pos c = 2 ^ 32 - left c"

lemma counted_walk:
  assumes "counts_down nxt"
  shows "bounded_walk nxt (cursor_items nxt) cursor_pos (2 ^ 32)"
proof
  fix c c' :: iort_cursor and r x
  show "cursor_pos c < 2 ^ 32" if "nxt c = Some (r, c')"
  proof -
    have "left c \<noteq> 0" using assms that unfolding counts_down_def by blast
    then show ?thesis by (simp add: cursor_pos_def)
  qed
  show "cursor_pos c < cursor_pos c'" if "nxt c = Some (Ok x, c')"
  proof -
    have "Suc (left c') = left c" using assms that unfolding counts_down_def by fastforce
    then show ?thesis using left_bound [of c] by (simp add: cursor_pos_def)
  qed
qed (rule cursor_items_eq [OF assms])

interpretation node_walk: bounded_walk "node_next E t" "cursor_items (node_next E t)" cursor_pos "2 ^ 32"
  by (rule counted_walk [OF counts_down_node])

interpretation array_walk: bounded_walk "array_next stride item" "cursor_items (array_next stride item)"
  cursor_pos "2 ^ 32"
  by (rule counted_walk [OF counts_down_array])

section \<open>Arrays of a node\<close>

definition nodes :: "iort_table \<Rightarrow> (iort_cursor, firm_error) res" where
  "nodes t =
     res_bind (node_offset t) (\<lambda>raw.
     res_bind (ok_or (usize_try_from_u32 raw) (FirmMalformed ''IORT node offset cannot fit in usize'')) (\<lambda>offset.
     if offset < IORT_TABLE_MIN_LENGTH \<or> length (io_sdt t) < offset
     then Err (FirmMalformed ''IORT node array offset is invalid'')
     else res_bind (node_count t) (\<lambda>n. Ok \<lparr>cur_offset = offset, cur_remaining = n\<rparr>)))"

definition node_items :: "ext_ops \<Rightarrow> iort_table \<Rightarrow> iort_cursor \<Rightarrow> (iort_node, firm_error) res list" where
  "node_items E t c = cursor_items (node_next E t) c"

fun find_node :: "usize \<Rightarrow> (iort_node, firm_error) res list \<Rightarrow> (iort_node option, firm_error) res" where
  "find_node offset [] = Ok None"
| "find_node offset (r # rs) =
     res_bind r (\<lambda>n. if ih_offset (node_header n) = offset then Ok (Some n) else find_node offset rs)"

definition node_by_reference :: "ext_ops \<Rightarrow> iort_table \<Rightarrow> u32 \<Rightarrow> (iort_node option, firm_error) res" where
  "node_by_reference E t reference =
     res_bind (ok_or (usize_try_from_u32 reference) (FirmMalformed ''IORT node reference cannot fit in usize'')) (\<lambda>offset.
     res_bind (node_offset t) (\<lambda>first.
     if offset < unat first \<or> length (io_sdt t) \<le> offset then Ok None
     else res_bind (nodes t) (\<lambda>c. find_node offset (node_items E t c))))"

definition array_bytes :: "u32 \<Rightarrow> usize \<Rightarrow> string \<Rightarrow> (usize, firm_error) res" where
  "array_bytes count stride overflow =
     ok_or (Option.bind (usize_try_from_u32 count) (\<lambda>n. checked_mul_usize n stride)) (FirmMalformed overflow)"

definition read_id_mapping :: "iort_table \<Rightarrow> usize \<Rightarrow> (iort_id_mapping, firm_error) res" where
  "read_id_mapping t offset =
     res_bind (iort_u32 t offset) (\<lambda>base.
     res_bind (iort_u32 t (offset + 4)) (\<lambda>count.
     res_bind (iort_u32 t (offset + 8)) (\<lambda>output.
     res_bind (iort_u32 t (offset + 12)) (\<lambda>reference.
     res_bind (iort_u32 t (offset + 16)) (\<lambda>flags.
     Ok \<lparr>im_input_base = base, im_id_count = count, im_output_base = output,
         im_output_reference = reference, im_flags = flags\<rparr>)))))"

definition id_mappings_for :: "iort_table \<Rightarrow> iort_header \<Rightarrow> (iort_cursor, firm_error) res" where
  "id_mappings_for t h =
     (if ih_mapping_count h = 0 then Ok \<lparr>cur_offset = end_offset h, cur_remaining = 0\<rparr>
      else
        let mapping_offset = unat (ih_mapping_offset h)
        in res_bind (checked_offset (ih_offset h) mapping_offset) (\<lambda>start.
           res_bind (array_bytes (ih_mapping_count h) IORT_ID_MAPPING_LENGTH
                       ''IORT ID mapping array length overflows'') (\<lambda>bytes.
           res_bind (checked_offset start bytes) (\<lambda>end'.
           if mapping_offset < IORT_NODE_HEADER_LENGTH \<or> end_offset h < end'
           then Err (FirmMalformed ''IORT ID mapping array extends past node'')
           else Ok \<lparr>cur_offset = start, cur_remaining = ih_mapping_count h\<rparr>))))"

definition id_mappings :: "iort_table \<Rightarrow> iort_node \<Rightarrow> (iort_cursor, firm_error) res" where
  "id_mappings t node = id_mappings_for t (node_header node)"

definition mapping_items :: "iort_table \<Rightarrow> iort_cursor \<Rightarrow> (iort_id_mapping, firm_error) res list" where
  "mapping_items t c = cursor_items (array_next IORT_ID_MAPPING_LENGTH (read_id_mapping t)) c"

definition its_identifiers :: "iort_table \<Rightarrow> iort_its_group \<Rightarrow> (iort_cursor, firm_error) res" where
  "its_identifiers t g =
     (let start = ih_offset (ig_header g) + ITS_GROUP_MIN_LENGTH
      in res_bind (array_bytes (ig_its_count g) 4 ''IORT ITS identifier array length overflows'') (\<lambda>bytes.
         res_bind (checked_offset start bytes) (\<lambda>end'.
         if end_offset (ig_header g) < end'
         then Err (FirmMalformed ''IORT ITS identifier array extends past node'')
         else Ok \<lparr>cur_offset = start, cur_remaining = ig_its_count g\<rparr>)))"

definition its_items :: "iort_table \<Rightarrow> iort_cursor \<Rightarrow> (u32, firm_error) res list" where
  "its_items t c = cursor_items (array_next 4 (iort_u32 t)) c"

definition read_rmr_descriptor :: "ext_ops \<Rightarrow> iort_table \<Rightarrow> usize \<Rightarrow> (iort_rmr_descriptor, firm_error) res" where
  "read_rmr_descriptor E t offset =
     res_bind (iort_u64 t offset) (\<lambda>base.
     res_bind (iort_u64 t (offset + 8)) (\<lambda>len.
     res_bind (iort_phys_range E base len) (\<lambda>memory.
     res_bind (iort_u32 t (offset + 16)) (\<lambda>reserved.
     Ok \<lparr>rd_memory = memory, rd_reserved = reserved\<rparr>))))"

definition rmr_descriptors :: "iort_table \<Rightarrow> iort_reserved_memory \<Rightarrow> (iort_cursor, firm_error) res" where
  "rmr_descriptors t m =
     res_bind (checked_offset (ih_offset (rmr_header m)) (unat (rmr_descriptor_offset m))) (\<lambda>start.
     res_bind (array_bytes (rmr_descriptor_count m) RMR_DESCRIPTOR_LENGTH
                 ''IORT RMR descriptor array length overflows'') (\<lambda>bytes.
     res_bind (checked_offset start bytes) (\<lambda>end'.
     if unat (rmr_descriptor_offset m) < RMR_MIN_LENGTH \<or> end_offset (rmr_header m) < end'
     then Err (FirmMalformed ''IORT RMR descriptor array extends past node'')
     else Ok \<lparr>cur_offset = start, cur_remaining = rmr_descriptor_count m\<rparr>)))"

definition rmr_items :: "ext_ops \<Rightarrow> iort_table \<Rightarrow> iort_cursor \<Rightarrow> (iort_rmr_descriptor, firm_error) res list" where
  "rmr_items E t c = cursor_items (array_next RMR_DESCRIPTOR_LENGTH (read_rmr_descriptor E t)) c"

definition read_smmu_interrupt :: "iort_table \<Rightarrow> usize \<Rightarrow> (iort_smmu_interrupt, firm_error) res" where
  "read_smmu_interrupt t offset =
     res_bind (iort_u32 t offset) (\<lambda>gsiv.
     res_bind (iort_u32 t (offset + 4)) (\<lambda>flags.
     Ok \<lparr>si_gsiv = gsiv, si_flags = flags\<rparr>))"

definition smmu_interrupts :: "iort_table \<Rightarrow> iort_header \<Rightarrow> u32 \<Rightarrow> u32 \<Rightarrow> (iort_cursor, firm_error) res" where
  "smmu_interrupts t h offset count =
     (if count = 0 then Ok \<lparr>cur_offset = end_offset h, cur_remaining = 0\<rparr>
      else
        res_bind (checked_offset (ih_offset h) (unat offset)) (\<lambda>start.
        res_bind (array_bytes count 8 ''IORT SMMU interrupt array length overflows'') (\<lambda>bytes.
        res_bind (if unat offset < SMMU_MIN_LENGTH then Ok True
                  else res_map (\<lambda>end'. end_offset h < end') (checked_offset start bytes)) (\<lambda>outside.
        if outside then Err (FirmMalformed ''IORT SMMU interrupt array extends past node'')
        else Ok \<lparr>cur_offset = start, cur_remaining = count\<rparr>))))"

definition interrupt_items :: "iort_table \<Rightarrow> iort_cursor \<Rightarrow> (iort_smmu_interrupt, firm_error) res list" where
  "interrupt_items t c = cursor_items (array_next 8 (read_smmu_interrupt t)) c"

definition smmu_context_interrupts :: "iort_table \<Rightarrow> iort_smmu \<Rightarrow> (iort_cursor, firm_error) res" where
  "smmu_context_interrupts t s =
     smmu_interrupts t (smmu_header s) (smmu_context_interrupt_offset s) (smmu_context_interrupt_count s)"

definition smmu_pmu_interrupts :: "iort_table \<Rightarrow> iort_smmu \<Rightarrow> (iort_cursor, firm_error) res" where
  "smmu_pmu_interrupts t s =
     smmu_interrupts t (smmu_header s) (smmu_pmu_interrupt_offset s) (smmu_pmu_interrupt_count s)"

definition smmu_global_interrupt :: "iort_table \<Rightarrow> iort_smmu \<Rightarrow> (iort_smmu_global_interrupt option, firm_error) res" where
  "smmu_global_interrupt t s =
     (if smmu_global_interrupt_offset s = 0 then Ok None
      else
        res_bind (checked_offset (ih_offset (smmu_header s)) (unat (smmu_global_interrupt_offset s))) (\<lambda>offset.
        res_bind (checked_offset offset 16) (\<lambda>end'.
        if end_offset (smmu_header s) < end'
        then Err (FirmMalformed ''IORT SMMU global interrupt extends past node'')
        else
          res_bind (iort_u32 t offset) (\<lambda>a.
          res_bind (iort_u32 t (offset + 4)) (\<lambda>b.
          res_bind (iort_u32 t (offset + 8)) (\<lambda>c.
          res_bind (iort_u32 t (offset + 12)) (\<lambda>d.
          Ok (Some \<lparr>gi_nsg_irpt = a, gi_nsg_irpt_flags = b, gi_nsg_cfg_irpt = c,
                    gi_nsg_cfg_irpt_flags = d\<rparr>))))))))"

section \<open>Identifier mappings\<close>

definition checked_add_u32 :: "u32 \<Rightarrow> u32 \<Rightarrow> u32 option" where
  "checked_add_u32 a b = (if unat a + unat b < 2 ^ 32 then Some (a + b) else None)"

definition saturating_add_u32 :: "u32 \<Rightarrow> u32 \<Rightarrow> u32" where
  "saturating_add_u32 a b = (if unat a + unat b < 2 ^ 32 then a + b else - 1)"

definition is_single_mapping :: "iort_id_mapping \<Rightarrow> bool" where
  "is_single_mapping m \<longleftrightarrow> im_flags m AND 1 \<noteq> 0"

definition input_bdf_range :: "iort_id_mapping \<Rightarrow> (bdf_range option, firm_error) res" where
  "input_bdf_range m =
     (if is_single_mapping m then Ok (res_ok (br_inclusive (Bdf 0) (Bdf (- 1))))
      else case checked_add_u32 (im_input_base m) (im_id_count m) of
          None \<Rightarrow> Ok None
        | Some end' \<Rightarrow>
            if 0xffff < im_input_base m \<or> 0xffff < end' then Ok None
            else res_map_err (\<lambda>_. FirmMalformed ''IORT requester ID range is reversed'')
                   (res_map Some (br_inclusive (Bdf (ucast (im_input_base m))) (Bdf (ucast end')))))"

definition translate_for_node_kind :: "iort_id_mapping \<Rightarrow> iort_kind \<Rightarrow> u32 \<Rightarrow> u32 option" where
  "translate_for_node_kind m kind input_id =
     (if is_single_mapping m then (if single_mapping_allowed kind then Some (im_output_base m) else None)
      else
        Option.bind (checked_add_u32 (im_input_base m) (im_id_count m)) (\<lambda>end'.
        if input_id < im_input_base m \<or> end' < input_id then None
        else checked_add_u32 (im_output_base m) (input_id - im_input_base m)))"

fun translate_among :: "iort_kind \<Rightarrow> u32 \<Rightarrow> (iort_id_mapping, firm_error) res list \<Rightarrow> single_step option \<Rightarrow>
    (single_step option, firm_error) res" where
  "translate_among kind input_id [] fallback = Ok fallback"
| "translate_among kind input_id (r # rs) fallback =
     res_bind r (\<lambda>m.
     case translate_for_node_kind m kind input_id of
       None \<Rightarrow> translate_among kind input_id rs fallback
     | Some output_id \<Rightarrow>
         (let translation = \<lparr>ss_id = output_id, ss_output_reference = im_output_reference m\<rparr>
          in if 0 < im_id_count m \<and> input_id = saturating_add_u32 (im_input_base m) (im_id_count m)
             then translate_among kind input_id rs (Some translation)
             else Ok (Some translation)))"

definition translate_once :: "iort_table \<Rightarrow> iort_node \<Rightarrow> u32 \<Rightarrow> (single_step option, firm_error) res" where
  "translate_once t node input_id =
     res_bind (id_mappings t node) (\<lambda>c.
     translate_among (ih_kind (node_header node)) input_id (mapping_items t c) None)"

text \<open>The loop of \<open>map_id_to_kind\<close>; its counter \<open>remaining\<close> is the argument of the recursion.\<close>

fun map_steps :: "ext_ops \<Rightarrow> iort_table \<Rightarrow> iort_kind \<Rightarrow> nat \<Rightarrow> iort_node \<Rightarrow> u32 \<Rightarrow>
    (iort_id_translation option, firm_error) res" where
  "map_steps E t target 0 current ident = Err (FirmMalformed ''IORT ID mapping graph contains a cycle'')"
| "map_steps E t target (Suc remaining) current ident =
     (if ih_kind (node_header current) = target then Ok (Some \<lparr>tr_node = current, tr_id = ident\<rparr>)
      else
        res_bind (translate_once t current ident) (\<lambda>step.
        case step of
          None \<Rightarrow> Ok None
        | Some translation \<Rightarrow>
            res_bind (node_by_reference E t (ss_output_reference translation)) (\<lambda>found.
            case found of
              None \<Rightarrow> Ok None
            | Some nxt \<Rightarrow> map_steps E t target remaining nxt (ss_id translation))))"

definition map_id_to_kind :: "ext_ops \<Rightarrow> iort_table \<Rightarrow> iort_node \<Rightarrow> u32 \<Rightarrow> iort_kind \<Rightarrow>
    (iort_id_translation option, firm_error) res" where
  "map_id_to_kind E t node input_id target =
     res_bind (node_count t) (\<lambda>n. map_steps E t target (unat n) node input_id)"

section \<open>Loops and queries\<close>

definition for_each_node :: "ext_ops \<Rightarrow> iort_table \<Rightarrow>
    (iort_node \<Rightarrow> (unit, firm_error, 's) st) \<Rightarrow> (unit, firm_error, 's) st" where
  "for_each_node E t f = st_bind (st_lift (nodes t)) (\<lambda>c. for_each f (node_items E t c))"

definition for_each_smmu_v3 :: "ext_ops \<Rightarrow> iort_table \<Rightarrow>
    (iort_smmu_v3 \<Rightarrow> (unit, firm_error, 's) st) \<Rightarrow> (unit, firm_error, 's) st" where
  "for_each_smmu_v3 E t f = for_each_node E t (\<lambda>n. case n of SmmuV3 x \<Rightarrow> f x | _ \<Rightarrow> st_ret ())"

definition for_each_root_complex :: "ext_ops \<Rightarrow> iort_table \<Rightarrow>
    (iort_root_complex \<Rightarrow> (unit, firm_error, 's) st) \<Rightarrow> (unit, firm_error, 's) st" where
  "for_each_root_complex E t f = for_each_node E t (\<lambda>n. case n of RootComplex x \<Rightarrow> f x | _ \<Rightarrow> st_ret ())"

definition for_each_reserved_memory :: "ext_ops \<Rightarrow> iort_table \<Rightarrow>
    (iort_reserved_memory \<Rightarrow> (unit, firm_error, 's) st) \<Rightarrow> (unit, firm_error, 's) st" where
  "for_each_reserved_memory E t f =
     for_each_node E t (\<lambda>n. case n of ReservedMemory x \<Rightarrow> f x | _ \<Rightarrow> st_ret ())"

definition root_complex_for_segment :: "ext_ops \<Rightarrow> iort_table \<Rightarrow> u16 \<Rightarrow> (iort_root_complex option, firm_error) res" where
  "root_complex_for_segment E t segment =
     run_walk (for_each_root_complex E t (\<lambda>root. st_modify (\<lambda>found.
       if rc_pci_segment_number root = ucast segment then Some root else found))) None"

definition add_mapping :: "iort_id_mapping \<Rightarrow> (unit, firm_error, bdf_range_set \<times> bool) st" where
  "add_mapping m s =
     (case res_bind (input_bdf_range m) (\<lambda>r. case r of
             None \<Rightarrow> Ok (fst s, True)
           | Some rng \<Rightarrow> res_map (\<lambda>ranges. (ranges, snd s)) (firm_insert (fst s) rng)) of
        Ok s' \<Rightarrow> (Ok (), s')
      | Err e \<Rightarrow> (Err e, s)
      | Panic \<Rightarrow> (Panic, s))"

text \<open>\<open>root_complex_bdf_ranges\<close> skips the mappings without a requester range, so the flag is dropped.\<close>

definition root_complex_bdf_ranges :: "ext_ops \<Rightarrow> iort_table \<Rightarrow> u16 \<Rightarrow> (bdf_range_set option, firm_error) res" where
  "root_complex_bdf_ranges E t segment =
     res_bind (root_complex_for_segment E t segment) (\<lambda>root.
     case root of
       None \<Rightarrow> Ok None
     | Some root \<Rightarrow>
         res_bind (id_mappings_for t (rc_header root)) (\<lambda>c.
         res_bind (run_walk (for_each add_mapping (mapping_items t c))
                     (rs_empty IORT_REQUESTER_WINDOW_CAPACITY, False)) (\<lambda>(ranges, skipped).
         Ok (if rs_is_empty ranges then None else Some ranges))))"

definition match_mapping :: "pci_device \<Rightarrow> iort_id_mapping \<Rightarrow> (unit, firm_error, bool \<times> bool) st" where
  "match_mapping requester m s =
     (case input_bdf_range m of
        Ok (Some rng) \<Rightarrow> (Ok (), if br_contains rng (pci_bdf requester) then (True, snd s) else s)
      | Ok None \<Rightarrow> (Ok (), (fst s, True))
      | Err e \<Rightarrow> (Err e, s)
      | Panic \<Rightarrow> (Panic, s))"

definition root_complex_requester_match :: "ext_ops \<Rightarrow> iort_table \<Rightarrow> pci_device \<Rightarrow>
    (iort_requester_match option, firm_error) res" where
  "root_complex_requester_match E t requester =
     res_bind (root_complex_for_segment E t (pci_segment requester)) (\<lambda>root.
     case root of
       None \<Rightarrow> Ok None
     | Some root \<Rightarrow>
         res_bind (id_mappings_for t (rc_header root)) (\<lambda>c.
         res_bind (run_walk (for_each (match_mapping requester) (mapping_items t c)) (False, False))
           (\<lambda>(covered, unresolved).
         Ok (Some (if covered then MatchCovered else if unresolved then MatchUnresolved else MatchNotCovered)))))"

definition map_pci_requester_to_kind :: "ext_ops \<Rightarrow> iort_table \<Rightarrow> pci_device \<Rightarrow> iort_kind \<Rightarrow>
    (iort_id_translation option, firm_error) res" where
  "map_pci_requester_to_kind E t requester target =
     res_bind (root_complex_for_segment E t (pci_segment requester)) (\<lambda>root.
     case root of
       None \<Rightarrow> Ok None
     | Some root \<Rightarrow> map_id_to_kind E t (RootComplex root) (as_u32 (pci_bdf requester)) target)"

definition iommu_for_pci_requester :: "ext_ops \<Rightarrow> iort_table \<Rightarrow> pci_device \<Rightarrow>
    (iort_id_translation option, firm_error) res" where
  "iommu_for_pci_requester E t requester =
     res_bind (map_pci_requester_to_kind E t requester Kind_SmmuV3) (\<lambda>v3.
     case v3 of
       Some translation \<Rightarrow> Ok (Some translation)
     | None \<Rightarrow> map_pci_requester_to_kind E t requester Kind_Smmu)"

record rmr_walk =
  rw_ranges :: bdf_range_set
  rw_found :: bool
  rw_unresolved :: bool

definition rmr_collect :: "ext_ops \<Rightarrow> iort_table \<Rightarrow> addr_range \<Rightarrow> iort_reserved_memory \<Rightarrow>
    (unit, firm_error, rmr_walk) st" where
  "rmr_collect E t memory rmr w =
     (case res_bind (rmr_descriptors t rmr) (\<lambda>c.
            run_walk (for_each (\<lambda>d. st_modify (\<lambda>hit. if rd_memory d = memory then True else hit)) (rmr_items E t c)) False) of
        Err e \<Rightarrow> (Err e, w)
      | Panic \<Rightarrow> (Panic, w)
      | Ok False \<Rightarrow> (Ok (), w)
      | Ok True \<Rightarrow>
          (let w' = w\<lparr>rw_found := True\<rparr>
           in case res_bind (id_mappings_for t (rmr_header rmr)) (\<lambda>c.
                  run_walk (for_each add_mapping (mapping_items t c)) (rw_ranges w, rw_unresolved w)) of
                Ok (ranges, unresolved) \<Rightarrow> (Ok (), w'\<lparr>rw_ranges := ranges, rw_unresolved := unresolved\<rparr>)
              | Err e \<Rightarrow> (Err e, w')
              | Panic \<Rightarrow> (Panic, w')))"

definition rmr_bdf_ranges :: "ext_ops \<Rightarrow> iort_table \<Rightarrow> addr_range \<Rightarrow> (bdf_range_set option, firm_error) res" where
  "rmr_bdf_ranges E t memory =
     res_map (\<lambda>w. if \<not> rw_found w \<or> rw_unresolved w \<or> rs_is_empty (rw_ranges w) then None else Some (rw_ranges w))
       (run_walk (for_each_reserved_memory E t (rmr_collect E t memory))
         \<lparr>rw_ranges = rs_empty IORT_REQUESTER_WINDOW_CAPACITY, rw_found = False, rw_unresolved = False\<rparr>)"

end
