(* ===== verification/Iort_Facts.thy ===== *)
theory Iort_Facts
  imports Iort
begin

text \<open>
  What the IORT parser promises: no bytes make it panic, nodes and their arrays lie inside the table,
  the requesters of a root complex are those its mappings name, and the bounded walk through the
  mapping graph agrees with the unbounded one unless the graph repeats a node.
\<close>

section \<open>Nodes of the table\<close>

definition header_in :: "iort_table \<Rightarrow> iort_header \<Rightarrow> bool" where
  "header_in t h \<longleftrightarrow> 16 \<le> ih_length h \<and> ih_offset h + ih_length h \<le> length (io_sdt t)"

lemma checked_offset_Ok [simp]: "checked_offset a b = Ok c \<longleftrightarrow> a + b < usize_bound \<and> c = a + b"
  by (simp add: checked_offset_def ok_or_Ok_iff checked_add_usize_Some)

lemma checked_offset_no_panic [simp]: "checked_offset a b \<noteq> Panic"
  by (simp add: checked_offset_def)

lemma mmio_address_no_panic [simp]: "mmio_address a \<noteq> Panic"
  by (simp add: mmio_address_def)

lemma mmio_range_no_panic [simp]: "mmio_range_from_start_size E a n \<noteq> Panic"
  by (auto simp: mmio_range_from_start_size_def res_bind_Panic_iff)

lemma read_memory_access_no_panic [simp]: "read_memory_access t o1 \<noteq> Panic"
  by (simp add: read_memory_access_def res_bind_Panic_iff)

lemma parse_node_header_Ok:
  assumes "parse_node_header t offset = Ok h"
  shows "header_in t h \<and> ih_offset h = offset"
  using assms
  by (auto simp: parse_node_header_def header_in_def res_bind_Ok_iff Let_def IORT_NODE_HEADER_LENGTH_def
      split: if_splits)

lemma parse_node_header_no_panic [simp]: "parse_node_header t offset \<noteq> Panic"
  by (auto simp: parse_node_header_def res_bind_Panic_iff Let_def split: if_splits)

lemma parsers_keep_header:
  "parse_its_group t h = Ok a \<Longrightarrow> ig_header a = h"
  "parse_named_component t h = Ok b \<Longrightarrow> nc_header b = h"
  "parse_root_complex t h = Ok c \<Longrightarrow> rc_header c = h"
  "parse_smmu E t h = Ok d \<Longrightarrow> smmu_header d = h"
  "parse_smmu_v3 t h = Ok e \<Longrightarrow> v3_header e = h"
  "parse_pmcg t h = Ok f \<Longrightarrow> pm_header f = h"
  "parse_reserved_memory t h = Ok g \<Longrightarrow> rmr_header g = h"
  subgoal by (auto simp: parse_its_group_def res_bind_Ok_iff split: if_splits)
  subgoal by (auto simp: parse_named_component_def res_bind_Ok_iff Let_def split: if_splits)
  subgoal by (auto simp: parse_root_complex_def res_bind_Ok_iff split: if_splits)
  subgoal by (auto simp: parse_smmu_def res_bind_Ok_iff split: if_splits)
  subgoal unfolding parse_smmu_v3_def by (auto simp only: res_bind_Ok_iff iort_smmu_v3.simps res.simps split: if_splits)
  subgoal unfolding parse_pmcg_def by (auto simp only: res_bind_Ok_iff iort_pmcg.simps res.simps split: if_splits)
  subgoal by (auto simp: parse_reserved_memory_def res_bind_Ok_iff split: if_splits)
  done

lemma parsers_no_panic:
  "parse_its_group t h \<noteq> Panic" "header_in t h \<Longrightarrow> parse_named_component t h \<noteq> Panic"
  "parse_root_complex t h \<noteq> Panic" "parse_smmu E t h \<noteq> Panic" "parse_smmu_v3 t h \<noteq> Panic"
  "parse_pmcg t h \<noteq> Panic" "parse_reserved_memory t h \<noteq> Panic"
  subgoal by (simp add: parse_its_group_def res_bind_Panic_iff)
  subgoal by (auto simp: parse_named_component_def res_bind_Panic_iff slice_Panic_iff Let_def header_in_def
        end_offset_def split: if_splits)
  subgoal by (simp add: parse_root_complex_def res_bind_Panic_iff)
  subgoal by (simp add: parse_smmu_def res_bind_Panic_iff)
  subgoal by (simp add: parse_smmu_v3_def res_bind_Panic_iff res_map_Panic_iff)
  subgoal by (simp add: parse_pmcg_def res_bind_Panic_iff res_map_Panic_iff)
  subgoal by (simp add: parse_reserved_memory_def res_bind_Panic_iff)
  done

lemma parse_node_Ok:
  assumes "parse_node E t offset = Ok n"
  shows "header_in t (node_header n)" "ih_offset (node_header n) = offset"
    "ih_kind (node_header n) = Kind_RootComplex \<longleftrightarrow> (\<exists>r. n = RootComplex r)"
proof -
  obtain h where h: "parse_node_header t offset = Ok h"
    using assms by (auto simp: parse_node_def res_bind_Ok_iff)
  have "node_header n = h \<and> (ih_kind h = Kind_RootComplex \<longleftrightarrow> (\<exists>r. n = RootComplex r))"
    using assms h by (cases "ih_kind h") (auto simp: parse_node_def res_map_Ok_iff dest: parsers_keep_header)
  then show "header_in t (node_header n)" "ih_offset (node_header n) = offset"
    "ih_kind (node_header n) = Kind_RootComplex \<longleftrightarrow> (\<exists>r. n = RootComplex r)"
    using parse_node_header_Ok [OF h] by simp_all
qed

lemma parse_node_no_panic [simp]: "parse_node E t offset \<noteq> Panic"
proof
  assume *: "parse_node E t offset = Panic"
  then obtain h where h: "parse_node_header t offset = Ok h"
    by (auto simp: parse_node_def res_bind_Panic_iff)
  then show False
    using * parsers_no_panic parse_node_header_Ok [OF h]
    by (cases "ih_kind h") (simp_all add: parse_node_def res_map_Panic_iff)
qed

lemma node_items_Ok:
  assumes "Ok n \<in> set (node_items E t c)"
  shows "header_in t (node_header n)" "\<exists>offset. parse_node E t offset = Ok n"
proof -
  obtain c1 c2 where "node_next E t c1 = Some (Ok n, c2)"
    using node_walk.items_scanned assms unfolding node_items_def by blast
  then show "\<exists>offset. parse_node E t offset = Ok n"
    by (auto simp: node_next_def Let_def split: if_splits res.splits)
  then show "header_in t (node_header n)" using parse_node_Ok by blast
qed

lemma node_items_no_panic [simp]: "Panic \<notin> set (node_items E t c)"
proof -
  have "r \<noteq> Panic" if "node_next E t c1 = Some (r, c2)" for c1 r c2
    using that by (auto simp: node_next_def Let_def split: if_splits res.splits)
  then have "\<forall>r \<in> set (node_items E t c). r \<noteq> Panic"
    unfolding node_items_def by (intro node_walk.items_all)
  then show ?thesis by blast
qed

lemma node_items_bounded: "length (node_items E t c) \<le> left c"
  using node_walk.items_bounded [of E t c] left_bound [of c] by (simp add: node_items_def cursor_pos_def)

section \<open>Arrays of a node\<close>

text \<open>An array whose items all read is the list of the items at its strides.\<close>

lemma array_items:
  assumes "\<And>i. i < left c \<Longrightarrow> item (cur_offset c + i * stride) = Ok (f i)"
  shows "cursor_items (array_next stride item) c = map (\<lambda>i. Ok (f i)) [0..<left c]"
  using assms
proof (induction "left c" arbitrary: c f)
  case 0
  then show ?case by (simp add: cursor_items_def)
next
  case (Suc n)
  define c' where "c' = \<lparr>cur_offset = cur_offset c + stride, cur_remaining = cur_remaining c - 1\<rparr>"
  have rem: "cur_remaining c \<noteq> 0" using Suc.hyps(2) by (auto simp: left_def)
  then have n: "n = left c'" using left_minus [OF rem] Suc.hyps(2) by (simp add: c'_def left_def)
  have first: "array_next stride item c = Some (Ok (f 0), c')"
    using rem Suc.prems [of 0] Suc.hyps(2) by (simp add: array_next_def c'_def)
  have "cursor_items (array_next stride item) c' = map (\<lambda>i. Ok (f (Suc i))) [0..<left c']"
  proof (rule Suc.hyps(1) [OF n])
    fix i
    assume "i < left c'"
    then show "item (cur_offset c' + i * stride) = Ok (f (Suc i))"
      using Suc.prems [of "Suc i"] Suc.hyps(2) n by (simp add: c'_def add.assoc)
  qed
  then show ?case
    using first n Suc.hyps(2)
    by (subst cursor_items_eq [OF counts_down_array]) (simp add: map_upt_Suc flip: Suc.hyps(2) del: upt_Suc)
qed

definition mapping_at :: "u8 list \<Rightarrow> usize \<Rightarrow> iort_id_mapping" where
  "mapping_at b offset =
     \<lparr>im_input_base = field_at b offset 4, im_id_count = field_at b (offset + 4) 4,
      im_output_base = field_at b (offset + 8) 4, im_output_reference = field_at b (offset + 12) 4,
      im_flags = field_at b (offset + 16) 4\<rparr>"

lemma id_mappings_for_Ok:
  assumes "id_mappings_for t h = Ok c" and "header_in t h"
  shows "left c = unat (ih_mapping_count h)" "cur_offset c + left c * 20 \<le> ih_offset h + ih_length h"
    "left c \<noteq> 0 \<Longrightarrow> cur_offset c = ih_offset h + unat (ih_mapping_offset h) \<and> 16 \<le> unat (ih_mapping_offset h)"
  using assms
  by (auto simp: id_mappings_for_def left_def end_offset_def res_bind_Ok_iff Let_def array_bytes_def
      ok_or_Ok_iff checked_mul_usize_Some iort_lengths split: if_splits)

lemma mapping_items_eq:
  assumes "length (io_sdt t) < usize_bound" and "id_mappings_for t h = Ok c" and "header_in t h"
  shows "mapping_items t c = map (\<lambda>i. Ok (mapping_at (io_sdt t) (cur_offset c + i * 20))) [0..<left c]"
  unfolding mapping_items_def IORT_ID_MAPPING_LENGTH_def
proof (rule array_items)
  fix i
  assume "i < left c"
  then have "i * 20 + 20 \<le> left c * 20" by simp
  then have "cur_offset c + i * 20 + 20 \<le> length (io_sdt t)"
    using id_mappings_for_Ok(2) [OF assms(2,3)] assms(3) by (simp add: header_in_def)
  then show "read_id_mapping t (cur_offset c + i * 20) = Ok (mapping_at (io_sdt t) (cur_offset c + i * 20))"
    by (simp add: read_id_mapping_def mapping_at_def read_Ok [OF assms(1)])
qed

lemma id_mappings_for_no_panic [simp]: "id_mappings_for t h \<noteq> Panic"
  by (auto simp: id_mappings_for_def res_bind_Panic_iff Let_def array_bytes_def split: if_splits)

lemma array_no_panic:
  assumes "\<And>offset. item offset \<noteq> Panic"
  shows "Panic \<notin> set (cursor_items (array_next stride item) c)"
proof -
  have "r \<noteq> Panic" if "array_next stride item c1 = Some (r, c2)" for c1 r c2
    using that assms by (auto simp: array_next_def split: if_splits)
  then have "\<forall>r \<in> set (cursor_items (array_next stride item) c). r \<noteq> Panic"
    by (intro array_walk.items_all)
  then show ?thesis by blast
qed

lemma mapping_items_no_panic [simp]: "Panic \<notin> set (mapping_items t c)"
  unfolding mapping_items_def by (rule array_no_panic) (simp add: read_id_mapping_def res_bind_Panic_iff)

lemma rmr_items_no_panic [simp]: "Panic \<notin> set (rmr_items E t c)"
  unfolding rmr_items_def
  by (rule array_no_panic) (auto simp: read_rmr_descriptor_def iort_phys_range_def res_bind_Panic_iff)

lemma nodes_no_panic [simp]: "nodes t \<noteq> Panic"
  by (auto simp: nodes_def node_offset_def node_count_def res_bind_Panic_iff)

lemma rmr_descriptors_no_panic [simp]: "rmr_descriptors t m \<noteq> Panic"
  by (auto simp: rmr_descriptors_def res_bind_Panic_iff array_bytes_def)

lemma node_by_reference_no_panic [simp]: "node_by_reference E t r \<noteq> Panic"
proof -
  have "find_node offset rs \<noteq> Panic" if "Panic \<notin> set rs" for offset rs
    using that by (induction rs) (auto simp: res_bind_Panic_iff)
  then show ?thesis
    by (auto simp: node_by_reference_def node_offset_def res_bind_Panic_iff)
qed

lemma translate_once_no_panic [simp]: "translate_once t node ident \<noteq> Panic"
proof -
  have "translate_among k i rs fb \<noteq> Panic" if "Panic \<notin> set rs" for k i rs fb
    using that by (induction rs arbitrary: fb) (auto simp: res_bind_Panic_iff Let_def split: option.splits)
  then show ?thesis
    by (auto simp: translate_once_def id_mappings_def res_bind_Panic_iff)
qed

section \<open>The mapping graph\<close>

text \<open>
  The walk through the graph without a bound: from a node and an identifier, either the node is of the
  wanted kind, or one translation step leads to the next node, or the walk ends there.
\<close>

definition next_state :: "ext_ops \<Rightarrow> iort_table \<Rightarrow> iort_node \<Rightarrow> u32 \<Rightarrow> ((iort_node \<times> u32) option, firm_error) res" where
  "next_state E t node ident =
     res_bind (translate_once t node ident) (\<lambda>step.
     case step of
       None \<Rightarrow> Ok None
     | Some s \<Rightarrow> res_map (map_option (\<lambda>n. (n, ss_id s))) (node_by_reference E t (ss_output_reference s)))"

lemma next_state_no_panic [simp]: "next_state E t node ident \<noteq> Panic"
  by (auto simp: next_state_def res_bind_Panic_iff res_map_Panic_iff split: option.splits)

inductive id_walk :: "ext_ops \<Rightarrow> iort_table \<Rightarrow> iort_kind \<Rightarrow> iort_node \<Rightarrow> u32 \<Rightarrow>
    (iort_id_translation option, firm_error) res \<Rightarrow> bool" for E t target where
  hit: "ih_kind (node_header node) = target \<Longrightarrow>
    id_walk E t target node ident (Ok (Some \<lparr>tr_node = node, tr_id = ident\<rparr>))"
| lost: "ih_kind (node_header node) \<noteq> target \<Longrightarrow> next_state E t node ident = Ok None \<Longrightarrow>
    id_walk E t target node ident (Ok None)"
| failed: "ih_kind (node_header node) \<noteq> target \<Longrightarrow> next_state E t node ident = Err e \<Longrightarrow>
    id_walk E t target node ident (Err e)"
| step: "ih_kind (node_header node) \<noteq> target \<Longrightarrow> next_state E t node ident = Ok (Some (n, i)) \<Longrightarrow>
    id_walk E t target n i r \<Longrightarrow> id_walk E t target node ident r"

inductive_cases id_walkE: "id_walk E t target node ident r"

lemma id_walk_unique:
  assumes "id_walk E t target node ident r" and "id_walk E t target node ident r'"
  shows "r = r'"
  using assms
proof (induction arbitrary: r' rule: id_walk.induct)
  case (hit node ident)
  from hit.prems show ?case by (rule id_walkE) (use hit.hyps in simp_all)
next
  case (lost node ident)
  from lost.prems show ?case by (rule id_walkE) (use lost.hyps in simp_all)
next
  case (failed node ident e)
  from failed.prems show ?case by (rule id_walkE) (use failed.hyps in simp_all)
next
  case (step node ident n i r)
  from step.prems have "id_walk E t target n i r'"
    by (rule id_walkE) (use step.hyps(1,2) in simp_all)
  then show ?case by (rule step.IH)
qed

text \<open>The nodes a walk visits in its first steps.\<close>

fun visited :: "ext_ops \<Rightarrow> iort_table \<Rightarrow> iort_kind \<Rightarrow> nat \<Rightarrow> iort_node \<Rightarrow> u32 \<Rightarrow> iort_node list" where
  "visited E t target 0 node ident = [node]"
| "visited E t target (Suc k) node ident =
     node # (if ih_kind (node_header node) = target then []
             else case next_state E t node ident of
                    Ok (Some (n, i)) \<Rightarrow> visited E t target k n i
                  | _ \<Rightarrow> [])"

lemma map_steps_Suc:
  "map_steps E t target (Suc k) node ident =
     (if ih_kind (node_header node) = target then Ok (Some \<lparr>tr_node = node, tr_id = ident\<rparr>)
      else res_bind (next_state E t node ident) (\<lambda>s.
        case s of None \<Rightarrow> Ok None | Some (n, i) \<Rightarrow> map_steps E t target k n i))"
proof (cases "translate_once t node ident")
  case (Ok s)
  show ?thesis
  proof (cases s)
    case (Some y)
    then show ?thesis
      using Ok by (cases "node_by_reference E t (ss_output_reference y)")
        (auto simp: next_state_def split: option.split)
  qed (use Ok in \<open>simp add: next_state_def\<close>)
qed (simp_all add: next_state_def)

lemma node_by_reference_in:
  assumes "node_by_reference E t r = Ok (Some n)" and "nodes t = Ok c"
  shows "Ok n \<in> set (node_items E t c)"
proof -
  have "Ok n \<in> set rs" if "find_node offset rs = Ok (Some n)" for offset rs
    using that by (induction rs) (auto simp: res_bind_Ok_iff split: if_splits)
  then show ?thesis
    using assms by (auto simp: node_by_reference_def res_bind_Ok_iff split: if_splits)
qed

lemma next_state_in:
  assumes "next_state E t node ident = Ok (Some (n, i))" and "nodes t = Ok c"
  shows "Ok n \<in> set (node_items E t c)"
proof -
  obtain r where "node_by_reference E t r = Ok (Some n)"
    using assms(1) by (auto simp: next_state_def res_bind_Ok_iff res_map_Ok_iff split: option.splits
        dest!: sym [of "Some (n, i)"])
  then show ?thesis using node_by_reference_in assms(2) by blast
qed

lemma visited_in:
  assumes "Ok node \<in> set (node_items E t c)" and "nodes t = Ok c"
  shows "\<forall>n \<in> set (visited E t target k node ident). Ok n \<in> set (node_items E t c)"
  using assms(1)
proof (induction k arbitrary: node ident)
  case (Suc k)
  show ?case
  proof (cases "\<exists>n i. next_state E t node ident = Ok (Some (n, i))")
    case True
    then obtain n i where n: "next_state E t node ident = Ok (Some (n, i))" by blast
    then show ?thesis using Suc.IH [OF next_state_in [OF n assms(2)]] Suc.prems by auto
  next
    case False
    then have "visited E t target (Suc k) node ident = [node]"
      by (cases "next_state E t node ident") (auto split: option.split)
    then show ?thesis using Suc.prems by simp
  qed
qed simp

text \<open>Within its counter the code's loop is the walk, or it has visited one node more than it counted.\<close>

lemma map_steps_walk:
  "id_walk E t target node ident (map_steps E t target k node ident) \<or>
   map_steps E t target k node ident = Err (FirmMalformed ''IORT ID mapping graph contains a cycle'') \<and>
   length (visited E t target k node ident) = Suc k"
proof (induction k arbitrary: node ident)
  case (Suc k)
  show ?case
  proof (cases "ih_kind (node_header node) = target")
    case True
    then show ?thesis by (simp add: id_walk.hit)
  next
    case kind: False
    show ?thesis
    proof (cases "next_state E t node ident")
      case (Ok s)
      show ?thesis
      proof (cases s)
        case None
        then show ?thesis using kind Ok by (simp add: map_steps_Suc id_walk.lost del: map_steps.simps)
      next
        case (Some p)
        obtain n i where p: "p = (n, i)" by (rule prod.exhaust)
        have eqs: "map_steps E t target (Suc k) node ident = map_steps E t target k n i"
          "visited E t target (Suc k) node ident = node # visited E t target k n i"
          using kind Ok Some p by (simp_all add: map_steps_Suc del: map_steps.simps)
        show ?thesis
          unfolding eqs using Suc.IH [of n i] id_walk.step [OF kind] Ok Some p by auto
      qed
    next
      case (Err e)
      then show ?thesis using kind by (simp add: map_steps_Suc id_walk.failed del: map_steps.simps)
    next
      case Panic
      then show ?thesis by simp
    qed
  qed
qed simp

lemma nodes_count:
  assumes "nodes t = Ok c"
  shows "node_count t = Ok (cur_remaining c)"
  using assms by (auto simp: nodes_def res_bind_Ok_iff split: if_splits)

lemma visited_repeats:
  assumes "nodes t = Ok c" and "Ok node \<in> set (node_items E t c)"
    and "left c < length (visited E t target k node ident)"
  shows "\<not> distinct (visited E t target k node ident)"
proof
  let ?V = "visited E t target k node ident"
  assume "distinct ?V"
  then have "length ?V = card (Ok ` set ?V :: (iort_node, firm_error) res set)"
    by (simp add: card_image inj_on_def distinct_card)
  also have "\<dots> \<le> card (set (node_items E t c))"
    using visited_in [OF assms(2,1)] by (intro card_mono) auto
  also have "\<dots> \<le> left c"
    using card_length node_items_bounded by (rule order_trans)
  finally show False using assms(3) by simp
qed

lemma map_id_to_kind_outcome:
  assumes "nodes t = Ok c" and "Ok node \<in> set (node_items E t c)"
  shows "id_walk E t target node ident (map_id_to_kind E t node ident target) \<or>
    map_id_to_kind E t node ident target = Err (FirmMalformed ''IORT ID mapping graph contains a cycle'') \<and>
    \<not> distinct (visited E t target (left c) node ident)"
  using map_steps_walk [of E t target node ident "left c"] visited_repeats [OF assms]
  by (auto simp: map_id_to_kind_def nodes_count [OF assms(1)] left_def)

text \<open>A walk that finds something ends at a node of the table of the wanted kind.\<close>

lemma id_walk_found:
  assumes "id_walk E t target node ident r" and "nodes t = Ok c" and "Ok node \<in> set (node_items E t c)"
    and "r = Ok (Some tr)"
  shows "ih_kind (node_header (tr_node tr)) = target \<and> Ok (tr_node tr) \<in> set (node_items E t c)"
  using assms by (induction rule: id_walk.induct) (auto dest: next_state_in)

section \<open>Requesters of a root complex\<close>

text \<open>The requesters a mapping's input window stands for; none when it leaves the 16-bit identifiers.\<close>

definition mapping_window :: "iort_id_mapping \<Rightarrow> bdf set option" where
  "mapping_window m =
     (if is_single_mapping m then Some UNIV
      else if 0xffff < unat (im_input_base m) + unat (im_id_count m) then None
      else Some {b. unat (im_input_base m) \<le> unat (as_u16 b) \<and>
                    unat (as_u16 b) \<le> unat (im_input_base m) + unat (im_id_count m)})"

lemma br_inclusive_members:
  assumes "unat (as_u16 a) \<le> unat (as_u16 b)"
  shows "\<exists>r. br_inclusive a b = Ok r \<and> br_wf r \<and>
    br_members r = {c. unat (as_u16 a) \<le> unat (as_u16 c) \<and> unat (as_u16 c) \<le> unat (as_u16 b)}"
proof -
  have "\<not> as_u16 b < as_u16 a" using assms by (simp add: word_less_nat_alt)
  then obtain r where r: "br_inclusive a b = Ok r" by (simp add: br_inclusive_def)
  then show ?thesis
    using br_inclusive_Ok_iff [of a b r] br_inclusive_wf [OF r] by (auto simp: br_members_def br_contains_iff)
qed

lemma unat_ucast_16: "unat x \<le> 0xffff \<Longrightarrow> unat (ucast (x :: u32) :: u16) = unat x"
  by (simp add: unat_ucast_mod)

lemma input_bdf_range_window:
  "case mapping_window m of
     None \<Rightarrow> input_bdf_range m = Ok None
   | Some W \<Rightarrow> \<exists>r. input_bdf_range m = Ok (Some r) \<and> br_wf r \<and> br_members r = W"
proof (cases "is_single_mapping m")
  case True
  obtain r where "br_inclusive (Bdf 0) (Bdf (- 1)) = Ok r" "br_wf r"
      "br_members r = {c. unat (as_u16 c) \<le> unat (- 1 :: u16)}"
    using br_inclusive_members [of "Bdf 0" "Bdf (- 1)"] by auto
  moreover have "unat (as_u16 c) \<le> unat (- 1 :: u16)" for c
    using word_n1_ge [of "as_u16 c"] by (simp add: word_le_nat_alt)
  ultimately show ?thesis using True by (auto simp: mapping_window_def input_bdf_range_def)
next
  case False
  let ?a = "im_input_base m" and ?n = "im_id_count m"
  show ?thesis
  proof (cases "unat ?a + unat ?n \<le> 0xffff")
    case True
    then have sum: "unat (?a + ?n) = unat ?a + unat ?n" by (simp add: unat_word_ariths)
    then have fit: "\<not> 0xffff < ?a" "\<not> 0xffff < ?a + ?n" using True by (simp_all add: word_less_nat_alt)
    obtain r where "br_inclusive (Bdf (ucast ?a)) (Bdf (ucast (?a + ?n))) = Ok r" "br_wf r"
        "br_members r = {c. unat ?a \<le> unat (as_u16 c) \<and> unat (as_u16 c) \<le> unat ?a + unat ?n}"
      using br_inclusive_members [of "Bdf (ucast ?a)" "Bdf (ucast (?a + ?n))"] True sum
      by (auto simp: unat_ucast_16)
    then show ?thesis
      using False True fit by (simp add: mapping_window_def input_bdf_range_def checked_add_u32_def)
  next
    case wide: False
    have "0xffff < ?a \<or> 0xffff < ?a + ?n" if "unat ?a + unat ?n < 2 ^ 32"
      using that wide by (auto simp: word_less_nat_alt unat_word_ariths)
    then show ?thesis
      using False wide by (auto simp: mapping_window_def input_bdf_range_def checked_add_u32_def)
  qed
qed

text \<open>A requester inside a window is what the mapping translates, unless the output overflows.\<close>

lemma window_translates:
  assumes "mapping_window m = Some W" and "\<not> is_single_mapping m" and "b \<in> W"
  shows "translate_for_node_kind m k (as_u32 b) = checked_add_u32 (im_output_base m) (as_u32 b - im_input_base m)"
proof -
  have "unat (im_input_base m) + unat (im_id_count m) \<le> 0xffff" using assms by (simp add: mapping_window_def split: if_splits)
  then show ?thesis
    using assms
    by (auto simp: translate_for_node_kind_def mapping_window_def checked_add_u32_def word_less_nat_alt
        unat_word_ariths)
qed

text \<open>A window of one identifier too many is no window, though every requester of it translates.\<close>

lemma wide_mapping_unresolved:
  assumes "im_input_base m = 0" and "im_id_count m = 0x10000" and "\<not> is_single_mapping m"
    and "im_output_base m = 0"
  shows "input_bdf_range m = Ok None" "translate_for_node_kind m k (as_u32 b) = Some (as_u32 b)"
proof -
  show "input_bdf_range m = Ok None"
    using input_bdf_range_window [of m] assms by (simp add: mapping_window_def)
  have "unat (as_u32 b) < 0x10000" using unat_as_u16_bound [of b] by simp
  then have "\<not> 0x10000 < as_u32 b" by (simp add: word_less_nat_alt)
  then show "translate_for_node_kind m k (as_u32 b) = Some (as_u32 b)"
    using assms unat_as_u16_bound [of b] by (simp add: translate_for_node_kind_def checked_add_u32_def)
qed

definition windows_of :: "iort_id_mapping list \<Rightarrow> bdf set" where
  "windows_of ms = (\<Union>m \<in> set ms. case mapping_window m of Some W \<Rightarrow> W | None \<Rightarrow> {})"

definition some_unresolved :: "iort_id_mapping list \<Rightarrow> bool" where
  "some_unresolved ms \<longleftrightarrow> (\<exists>m \<in> set ms. mapping_window m = None)"

lemma windows_of_simps [simp]:
  "windows_of [] = {}"
  "windows_of (m # ms) = (case mapping_window m of Some W \<Rightarrow> W | None \<Rightarrow> {}) \<union> windows_of ms"
  "some_unresolved [] = False" "some_unresolved (m # ms) \<longleftrightarrow> mapping_window m = None \<or> some_unresolved ms"
  by (simp_all add: windows_of_def some_unresolved_def)

lemma add_mapping_step:
  assumes "rs_inv R"
  shows "fst (add_mapping m (R, f)) \<noteq> Panic \<and>
    (\<forall>R' f'. add_mapping m (R, f) = (Ok (), (R', f')) \<longrightarrow> rs_inv R' \<and>
       rs_members R' = rs_members R \<union> (case mapping_window m of Some W \<Rightarrow> W | None \<Rightarrow> {}) \<and>
       (f' \<longleftrightarrow> f \<or> mapping_window m = None))"
proof (cases "mapping_window m")
  case None
  then show ?thesis using assms input_bdf_range_window [of m] by (simp add: add_mapping_def)
next
  case (Some W)
  then obtain r where r: "input_bdf_range m = Ok (Some r)" "br_wf r" "br_members r = W"
    using input_bdf_range_window [of m] by auto
  show ?thesis
  proof (cases "firm_insert R r")
    case (Ok R')
    have "rs_inv R'" "rs_members R' = rs_members R \<union> W"
      using firm_set.insert_inv [OF assms r(2) Ok] firm_set.insert_members [OF assms r(2) Ok] r(3) by blast+
    then show ?thesis using r Some Ok by (simp add: add_mapping_def)
  qed (use r firm_set.insert_no_panic [OF assms r(2)] in \<open>simp_all add: add_mapping_def\<close>)
qed

lemma for_each_add_mapping:
  assumes "for_each add_mapping (map Ok ms) (R, f) = (Ok (), (R', f'))" and "rs_inv R"
  shows "rs_inv R' \<and> rs_members R' = rs_members R \<union> windows_of ms \<and> (f' \<longleftrightarrow> f \<or> some_unresolved ms)"
  using assms
proof (induction ms arbitrary: R f)
  case (Cons m ms)
  obtain S g where s: "add_mapping m (R, f) = (Ok (), (S, g))"
      "for_each add_mapping (map Ok ms) (S, g) = (Ok (), (R', f'))"
    using Cons.prems(1) by (auto simp: st_bind_Ok_iff st_then_def)
  have step: "rs_inv S \<and> rs_members S = rs_members R \<union> (case mapping_window m of Some W \<Rightarrow> W | None \<Rightarrow> {}) \<and>
      (g \<longleftrightarrow> f \<or> mapping_window m = None)"
    using conjunct2 [OF add_mapping_step [OF Cons.prems(2), of m f], rule_format, OF s(1)] .
  from Cons.IH [OF s(2)] step show ?case by auto
qed simp

lemma add_mappings_no_panic:
  assumes "rs_inv R"
  shows "fst (for_each add_mapping (mapping_items t c) (R, f)) \<noteq> Panic"
    and "run_walk (for_each add_mapping (mapping_items t c)) (R, f) = Ok (R', f') \<Longrightarrow> rs_inv R'"
proof -
  let ?I = "\<lambda>s. rs_inv (fst s)"
  have "fst (add_mapping m s) \<noteq> Panic \<and> (\<forall>s'. add_mapping m s = (Ok (), s') \<longrightarrow> ?I s')" if "?I s" for m s
  proof -
    obtain R f where s: "s = (R, f)" by (rule prod.exhaust)
    show ?thesis using add_mapping_step [of R m f] that unfolding s by auto
  qed
  then have "fst (for_each add_mapping (mapping_items t c) (R, f)) \<noteq> Panic \<and>
      (\<forall>s'. for_each add_mapping (mapping_items t c) (R, f) = (Ok (), s') \<longrightarrow> ?I s')"
    using assms by (intro for_each_safe) simp_all
  then show "fst (for_each add_mapping (mapping_items t c) (R, f)) \<noteq> Panic"
    and "run_walk (for_each add_mapping (mapping_items t c)) (R, f) = Ok (R', f') \<Longrightarrow> rs_inv R'"
    by (auto simp: run_walk_Ok_iff)
qed

lemma for_each_match_mapping:
  "for_each (match_mapping requester) (map Ok ms) (a, b) =
     (Ok (), (a \<or> pci_bdf requester \<in> windows_of ms, b \<or> some_unresolved ms))"
proof (induction ms arbitrary: a b)
  case (Cons m ms)
  have "match_mapping requester m (a, b) =
      (Ok (), (a \<or> pci_bdf requester \<in> (case mapping_window m of Some W \<Rightarrow> W | None \<Rightarrow> {}),
               b \<or> mapping_window m = None))"
  proof (cases "mapping_window m")
    case (Some W)
    then obtain r where r: "input_bdf_range m = Ok (Some r)" "br_members r = W"
      using input_bdf_range_window [of m] by auto
    then have "br_contains r (pci_bdf requester) \<longleftrightarrow> pci_bdf requester \<in> W" by (auto simp: br_members_def)
    then show ?thesis using r(1) Some by (simp add: match_mapping_def)
  qed (use input_bdf_range_window [of m] in \<open>simp add: match_mapping_def\<close>)
  then show ?case by (simp add: st_then_def st_bind_def Cons.IH)
qed simp

text \<open>The root complex of a segment: the last one the table lists for it.\<close>

definition root_complexes :: "ext_ops \<Rightarrow> iort_table \<Rightarrow> iort_cursor \<Rightarrow> u16 \<Rightarrow> iort_root_complex list" where
  "root_complexes E t c segment =
     concat (map (\<lambda>n. case n of RootComplex r \<Rightarrow>
         if rc_pci_segment_number r = ucast segment then [r] else [] | _ \<Rightarrow> []) (oks (node_items E t c)))"

lemma root_complex_for_segment_Ok:
  assumes "root_complex_for_segment E t segment = Ok root"
  shows "\<exists>c. nodes t = Ok c \<and> (\<forall>r \<in> set (node_items E t c). is_Ok r) \<and>
    root = (case rev (root_complexes E t c segment) of [] \<Rightarrow> None | r # _ \<Rightarrow> Some r)"
proof -
  let ?g = "\<lambda>n found. case n of RootComplex r \<Rightarrow>
      if rc_pci_segment_number r = ucast segment then Some r else found | _ \<Rightarrow> found"
  let ?f = "\<lambda>n. case n of RootComplex r \<Rightarrow> st_modify (\<lambda>found.
      if rc_pci_segment_number r = ucast segment then Some r else found) | _ \<Rightarrow> st_ret ()"
  obtain c where c: "nodes t = Ok c" "for_each ?f (node_items E t c) None = (Ok (), root)"
    using assms by (auto simp: root_complex_for_segment_def for_each_root_complex_def for_each_node_def
        run_walk_Ok_iff st_bind_Ok_iff)
  obtain ns where ns: "node_items E t c = map Ok ns" using for_each_Ok [OF c(2)] by blast
  have walk: "for_each ?f (map Ok ns) None = (Ok (), fold ?g ns None)"
    by (rule for_each_fold) (simp split: iort_node.split)
  have root: "root = fold ?g ns None" using c(2) unfolding ns walk by simp
  have "fold ?g ns None = (case rev (concat (map (\<lambda>n. case n of RootComplex r \<Rightarrow>
         if rc_pci_segment_number r = ucast segment then [r] else [] | _ \<Rightarrow> []) ns)) of
      [] \<Rightarrow> None | r # _ \<Rightarrow> Some r)"
    by (induction ns rule: rev_induct) (auto split: iort_node.split)
  then show ?thesis using c(1) ns unfolding root by (auto simp: root_complexes_def)
qed

lemma root_complex_in_table:
  assumes "root_complex_for_segment E t segment = Ok (Some root)"
  shows "\<exists>c. nodes t = Ok c \<and> Ok (RootComplex root) \<in> set (node_items E t c)"
    and "header_in t (rc_header root)" "rc_pci_segment_number root = ucast segment"
proof -
  obtain c where c: "nodes t = Ok c" "Some root = (case rev (root_complexes E t c segment) of
      [] \<Rightarrow> None | r # _ \<Rightarrow> Some r)"
    using root_complex_for_segment_Ok [OF assms] by blast
  then have "root \<in> set (rev (root_complexes E t c segment))" by (auto split: list.splits)
  then have root: "Ok (RootComplex root) \<in> set (node_items E t c)" "rc_pci_segment_number root = ucast segment"
    by (auto simp: root_complexes_def set_oks split: iort_node.splits if_splits)
  then show "\<exists>c. nodes t = Ok c \<and> Ok (RootComplex root) \<in> set (node_items E t c)"
    "header_in t (rc_header root)" "rc_pci_segment_number root = ucast segment"
    using c node_items_Ok(1) [OF root(1)] by auto
qed

section \<open>No panics\<close>

lemma root_complex_for_segment_no_panic [simp]: "root_complex_for_segment E t segment \<noteq> Panic"
proof -
  have "fst (for_each (\<lambda>n. case n of RootComplex r \<Rightarrow> st_modify (\<lambda>found.
      if rc_pci_segment_number r = ucast segment then Some r else found) | _ \<Rightarrow> st_ret ())
      (node_items E t c) None) \<noteq> Panic" for c
    by (rule for_each_no_panic) (simp_all split: iort_node.split)
  then show ?thesis
    by (cases "nodes t") (simp_all add: root_complex_for_segment_def for_each_root_complex_def
        for_each_node_def run_walk_Panic_iff st_bind_def st_lift_def)
qed

lemma map_steps_no_panic [simp]: "map_steps E t target k node ident \<noteq> Panic"
  by (induction k arbitrary: node ident)
    (auto simp: map_steps_Suc res_bind_Panic_iff simp del: map_steps.simps(2) split: option.splits)

lemma map_pci_no_panic [simp]: "map_pci_requester_to_kind E t requester target \<noteq> Panic"
  by (auto simp: map_pci_requester_to_kind_def map_id_to_kind_def node_count_def res_bind_Panic_iff
      split: option.splits)

lemma run_walk_mappings_no_panic:
  "rs_inv R \<Longrightarrow> run_walk (for_each add_mapping (mapping_items t c)) (R, f) \<noteq> Panic"
  by (simp add: run_walk_Panic_iff add_mappings_no_panic)

lemma rmr_collect_safe:
  assumes "rs_inv (rw_ranges w)"
  shows "fst (rmr_collect E t memory rmr w) \<noteq> Panic \<and>
    (\<forall>w'. rmr_collect E t memory rmr w = (Ok (), w') \<longrightarrow> rs_inv (rw_ranges w'))"
proof -
  define hit where "hit = res_bind (rmr_descriptors t rmr) (\<lambda>c.
      run_walk (for_each (\<lambda>d. st_modify (\<lambda>hit. if rd_memory d = memory then True else hit)) (rmr_items E t c)) False)"
  define add where "add = res_bind (id_mappings_for t (rmr_header rmr)) (\<lambda>c.
      run_walk (for_each add_mapping (mapping_items t c)) (rw_ranges w, rw_unresolved w))"
  have "fst (for_each (\<lambda>d. st_modify (h d)) (rmr_items E t c) s) \<noteq> Panic" for h c and s :: bool
    by (rule for_each_no_panic) simp_all
  then have safe: "hit \<noteq> Panic" "add \<noteq> Panic"
    using run_walk_mappings_no_panic [OF assms]
    by (auto simp: hit_def add_def res_bind_Panic_iff run_walk_Panic_iff)
  have inv: "rs_inv R" if "add = Ok (R, f)" for R f
    using that add_mappings_no_panic(2) [OF assms] by (auto simp: add_def res_bind_Ok_iff)
  have eq: "rmr_collect E t memory rmr w = (case hit of
      Err e \<Rightarrow> (Err e, w) | Panic \<Rightarrow> (Panic, w) | Ok False \<Rightarrow> (Ok (), w)
    | Ok True \<Rightarrow> (let w' = w\<lparr>rw_found := True\<rparr> in case add of
          Ok (ranges, unresolved) \<Rightarrow> (Ok (), w'\<lparr>rw_ranges := ranges, rw_unresolved := unresolved\<rparr>)
        | Err e \<Rightarrow> (Err e, w') | Panic \<Rightarrow> (Panic, w')))"
    unfolding rmr_collect_def hit_def add_def ..
  show ?thesis
    unfolding eq using safe inv assms
    by (cases hit; cases add) (auto simp: Let_def split: bool.splits)
qed

lemma rmr_bdf_ranges_no_panic [simp]: "Iort.rmr_bdf_ranges E t memory \<noteq> Panic"
proof -
  let ?I = "\<lambda>w. rs_inv (rw_ranges w)"
  let ?f = "\<lambda>n. case n of ReservedMemory x \<Rightarrow> rmr_collect E t memory x | _ \<Rightarrow> st_ret ()"
  have "fst (?f n w) \<noteq> Panic \<and> (\<forall>w'. ?f n w = (Ok (), w') \<longrightarrow> ?I w')" if "?I w" for n w
    using rmr_collect_safe [OF that] that by (cases n) simp_all
  then have "fst (for_each ?f (node_items E t c) w) \<noteq> Panic" if "?I w" for c w
    using for_each_safe [where I = ?I, of "node_items E t c" w ?f] that by simp
  then show ?thesis
    by (cases "nodes t") (simp_all add: rmr_bdf_ranges_def for_each_reserved_memory_def for_each_node_def
        res_map_Panic_iff run_walk_Panic_iff st_bind_def st_lift_def)
qed

section \<open>Properties\<close>

text \<open>C7. The walk through the identifier-mapping graph (\<open>map_id_to_kind\<close>) from a node of the table: the
bounded loop returns what the walk without a bound would, namely the first node of the wanted kind
with the identifier translated along the way, nothing when a translation or a reference leads nowhere,
or the error met. It reports a cycle only when the walk visits a node twice; in any case it ends after
as many steps as the table counts nodes.\<close>

theorem map_id_to_kind_walk:
  assumes "nodes t = Ok c" and "Ok node \<in> set (node_items E t c)"
  shows "id_walk E t target node ident (map_id_to_kind E t node ident target) \<or>
    map_id_to_kind E t node ident target = Err (FirmMalformed ''IORT ID mapping graph contains a cycle'') \<and>
    \<not> distinct (visited E t target (left c) node ident)"
  using assms by (rule map_id_to_kind_outcome)

text \<open>C9. The requesters of a root complex: for a segment with a root complex whose mapping array lies in
its node, the classification of a requester is always answered and is \<open>Covered\<close> exactly when the
input window of some mapping contains it, otherwise \<open>Unresolved\<close> when some mapping has no window of
16-bit identifiers. When the collected set is returned, it satisfies its invariant and has exactly the
requesters of the windows; mappings without a window are left out of it silently.\<close>

theorem iort_requesters_exact:
  assumes "length (io_sdt t) < usize_bound"
    and "root_complex_for_segment E t (pci_segment requester) = Ok (Some root)"
    and "id_mappings_for t (rc_header root) = Ok c"
  defines "ms \<equiv> map (\<lambda>i. mapping_at (io_sdt t) (cur_offset c + i * 20)) [0..<unat (ih_mapping_count (rc_header root))]"
  shows "root_complex_requester_match E t requester =
      Ok (Some (if pci_bdf requester \<in> windows_of ms then MatchCovered
                else if some_unresolved ms then MatchUnresolved else MatchNotCovered)) \<and>
    (\<forall>answer. root_complex_bdf_ranges E t (pci_segment requester) = Ok answer \<longrightarrow>
       (answer = None \<longleftrightarrow> windows_of ms = {}) \<and>
       (\<forall>s. answer = Some s \<longrightarrow> rs_inv s \<and> rs_members s = windows_of ms))"
proof -
  have items: "mapping_items t c = map Ok ms"
    using mapping_items_eq [OF assms(1,3)] id_mappings_for_Ok(1) [OF assms(3)]
      root_complex_in_table(2) [OF assms(2)] by (simp add: ms_def)
  have "(answer = None \<longleftrightarrow> windows_of ms = {}) \<and> (\<forall>s. answer = Some s \<longrightarrow> rs_inv s \<and> rs_members s = windows_of ms)"
    if ok: "root_complex_bdf_ranges E t (pci_segment requester) = Ok answer" for answer
  proof -
    obtain R f where walk: "for_each add_mapping (map Ok ms) (rs_empty 16, False) = (Ok (), (R, f))"
      and answer: "answer = (if rs_is_empty R then None else Some R)"
      using ok assms(2,3) by (auto simp: root_complex_bdf_ranges_def res_bind_Ok_iff run_walk_Ok_iff items
          IORT_REQUESTER_WINDOW_CAPACITY_def)
    have "rs_inv R" "rs_members R = windows_of ms" using for_each_add_mapping [OF walk] by simp_all
    then show ?thesis unfolding answer by (simp add: rs_is_empty_iff)
  qed
  moreover have "root_complex_requester_match E t requester =
      Ok (Some (if pci_bdf requester \<in> windows_of ms then MatchCovered
                else if some_unresolved ms then MatchUnresolved else MatchNotCovered))"
    using assms(2,3) by (simp add: root_complex_requester_match_def items for_each_match_mapping run_walk.simps)
  ultimately show ?thesis by blast
qed

text \<open>C8. The IOMMU of a requester. A segment without a root complex has none. Otherwise the walk from the
root complex decides: the SMMUv3 the walk to that kind finds, else, when it leads nowhere, what the
walk to an SMMU finds; the answer is a node of the table of that kind with the identifier translated
along the way, an error is the one a walk met, or the report of a cycle, only when that walk
visits a node twice. An error of the first walk is not made up for by the second.\<close>

theorem iommu_of_requester:
  assumes "root_complex_for_segment E t (pci_segment requester) = Ok root" and "nodes t = Ok c"
  shows "case root of
      None \<Rightarrow> iommu_for_pci_requester E t requester = Ok None
    | Some rc \<Rightarrow>
        (let walk = (\<lambda>kind. id_walk E t kind (RootComplex rc) (as_u32 (pci_bdf requester)));
             cyclic = (\<lambda>kind e. e = FirmMalformed ''IORT ID mapping graph contains a cycle'' \<and>
               \<not> distinct (visited E t kind (left c) (RootComplex rc) (as_u32 (pci_bdf requester))));
             answer = iommu_for_pci_requester E t requester
         in case answer of
              Ok (Some tr) \<Rightarrow> Ok (tr_node tr) \<in> set (node_items E t c) \<and>
                (ih_kind (node_header (tr_node tr)) = Kind_SmmuV3 \<and> walk Kind_SmmuV3 answer \<or>
                 ih_kind (node_header (tr_node tr)) = Kind_Smmu \<and> walk Kind_SmmuV3 (Ok None) \<and> walk Kind_Smmu answer)
            | Ok None \<Rightarrow> walk Kind_SmmuV3 (Ok None) \<and> walk Kind_Smmu (Ok None)
            | Err e \<Rightarrow> walk Kind_SmmuV3 answer \<or> cyclic Kind_SmmuV3 e \<or>
                walk Kind_SmmuV3 (Ok None) \<and> (walk Kind_Smmu answer \<or> cyclic Kind_Smmu e)
            | Panic \<Rightarrow> False)"
proof (cases root)
  case None
  then show ?thesis using assms(1) by (simp add: iommu_for_pci_requester_def map_pci_requester_to_kind_def)
next
  case (Some rc)
  let ?ident = "as_u32 (pci_bdf requester)"
  let ?map = "map_id_to_kind E t (RootComplex rc) ?ident"
  have rc: "Ok (RootComplex rc) \<in> set (node_items E t c)"
    using root_complex_in_table(1) [of E t "pci_segment requester" rc] assms Some by auto
  note outcome = map_id_to_kind_outcome [OF assms(2) rc, of _ ?ident]
  note found = id_walk_found [OF _ assms(2) rc]
  have answer: "iommu_for_pci_requester E t requester =
      res_bind (?map Kind_SmmuV3) (\<lambda>v3. case v3 of Some tr \<Rightarrow> Ok (Some tr) | None \<Rightarrow> ?map Kind_Smmu)"
    using assms(1) Some by (simp add: iommu_for_pci_requester_def map_pci_requester_to_kind_def cong: option.case_cong)
  have no_panic: "?map k \<noteq> Panic" for k by (simp add: map_id_to_kind_def node_count_def res_bind_Panic_iff)
  show ?thesis
  proof (cases "?map Kind_SmmuV3")
    case v3: (Ok o1)
    show ?thesis
    proof (cases o1)
      case None
      then show ?thesis
        using v3 Some outcome [of Kind_SmmuV3] outcome [of Kind_Smmu] found [of Kind_Smmu ?ident "?map Kind_Smmu"] no_panic [of Kind_Smmu]
        by (cases "?map Kind_Smmu") (auto simp: answer Let_def split: option.splits)
    next
      case (Some tr)
      then show ?thesis
        using v3 \<open>root = Some rc\<close> outcome [of Kind_SmmuV3] found [of Kind_SmmuV3 ?ident "?map Kind_SmmuV3" tr]
        by (auto simp: answer Let_def)
    qed
  next
    case (Err e)
    then show ?thesis using Some outcome [of Kind_SmmuV3] by (auto simp: answer Let_def)
  next
    case Panic
    then show ?thesis using no_panic by simp
  qed
qed



section \<open>A concrete table\<close>

text \<open>
  A root complex of segment 3 whose mapping sends the requesters \<open>2a00\<close> to \<open>2aff\<close> to the stream
  identifiers from \<open>0x1000\<close> of the SMMUv3 node that follows it.
\<close>

definition wit_iort :: iort_table where
  "wit_iort = \<lparr>io_sdt = replicate 36 0 @ [2, 0, 0, 0, 48, 0, 0, 0, 0, 0, 0, 0] @
     [2, 56, 0, 0, 0, 0, 0, 0, 1, 0, 0, 0, 36, 0, 0, 0, 1, 0, 0, 0, 0, 0, 0, 0, 0, 0, 0, 0, 3, 0, 0, 0,
      48, 0, 0, 0] @ [0, 0x2a, 0, 0, 0xff, 0, 0, 0, 0, 0x10, 0, 0, 104, 0, 0, 0, 0, 0, 0, 0] @
     [4, 68, 0, 0, 1, 0, 0, 0] @ replicate 8 0 @ [0, 0, 5, 9] @ replicate 48 0\<rparr>"

definition wit_root_header :: iort_header where
  "wit_root_header = \<lparr>ih_kind = Kind_RootComplex, ih_revision = 0, ih_identifier = 0,
     ih_mapping_count = 1, ih_mapping_offset = 36, ih_offset = 48, ih_length = 56\<rparr>"

definition wit_root :: iort_root_complex where
  "wit_root = \<lparr>rc_memory_properties = \<lparr>ma_cache_coherency = 1, ma_hints = 0, ma_memory_flags = 0\<rparr>,
     rc_ats_attribute = 0, rc_pci_segment_number = 3, rc_memory_address_limit = 48,
     rc_pasid_capabilities = 0, rc_header = wit_root_header\<rparr>"

definition wit_smmu_v3 :: iort_smmu_v3 where
  "wit_smmu_v3 = \<lparr>v3_base_address = 0x9050000, v3_flags = 0, v3_vatos_address = None, v3_model = 0,
     v3_event_gsiv = 0, v3_pri_gsiv = 0, v3_gerr_gsiv = 0, v3_sync_gsiv = 0, v3_pxm = 0,
     v3_id_mapping_index = 0,
     v3_header = \<lparr>ih_kind = Kind_SmmuV3, ih_revision = 0, ih_identifier = 1, ih_mapping_count = 0,
       ih_mapping_offset = 0, ih_offset = 104, ih_length = 68\<rparr>\<rparr>"

definition wit_cursor :: "usize \<Rightarrow> u32 \<Rightarrow> iort_cursor" where
  "wit_cursor offset n = \<lparr>cur_offset = offset, cur_remaining = n\<rparr>"

lemmas wit_iort_reads = read_u8_def read_u16_def read_u32_def read_u64_def read_array_def slice_get_def
  slice_get_range_def checked_add_usize_def usize_bound_def nth_append wit_iort_def checked_offset_def

lemma word_of_le_zeros [simp]: "word_of_le (replicate n 0) = 0"
  by (induction n) simp_all

lemma wit_iort_length: "length (io_sdt wit_iort) = 172"
  by (simp add: wit_iort_def)

lemma wit_nodes: "nodes wit_iort = Ok (wit_cursor 48 2)"
  by (simp add: nodes_def node_offset_def node_count_def IORT_NODE_OFFSET_OFFSET_def IORT_NODE_COUNT_OFFSET_def
      wit_iort_reads iort_lengths wit_cursor_def)

lemma wit_headers:
  "parse_node_header wit_iort 48 = Ok wit_root_header"
  "parse_node_header wit_iort 104 = Ok (v3_header wit_smmu_v3)"
  by (simp_all add: parse_node_header_def wit_iort_reads iort_lengths iort_kind_from_raw_def iort_kinds
      wit_root_header_def wit_smmu_v3_def)

lemma wit_parse_nodes:
  "parse_node E wit_iort 48 = Ok (RootComplex wit_root)"
  "parse_node E wit_iort 104 = Ok (SmmuV3 wit_smmu_v3)"
proof -
  have kinds: "ih_kind wit_root_header = Kind_RootComplex" "ih_kind (v3_header wit_smmu_v3) = Kind_SmmuV3"
    by (simp_all add: wit_root_header_def wit_smmu_v3_def)
  show "parse_node E wit_iort 48 = Ok (RootComplex wit_root)"
    by (simp add: parse_node_def wit_headers kinds parse_root_complex_def)
      (simp add: wit_root_header_def read_memory_access_def wit_iort_reads iort_lengths wit_root_def)
  show "parse_node E wit_iort 104 = Ok (SmmuV3 wit_smmu_v3)"
    by (simp add: parse_node_def wit_headers kinds parse_smmu_v3_def)
      (simp add: wit_smmu_v3_def mmio_address_def usize_try_from_def wit_iort_reads iort_lengths)
qed

lemma wit_node_next:
  "node_next E wit_iort (wit_cursor 48 2) = Some (Ok (RootComplex wit_root), wit_cursor 104 1)"
  "node_next E wit_iort (wit_cursor 104 1) = Some (Ok (SmmuV3 wit_smmu_v3), wit_cursor 172 0)"
  "node_next E wit_iort (wit_cursor 172 0) = None"
proof -
  have reads: "iort_u16 wit_iort 49 = Ok 56" "iort_u16 wit_iort 105 = Ok 68"
    by (simp_all add: wit_iort_reads)
  show "node_next E wit_iort (wit_cursor 48 2) = Some (Ok (RootComplex wit_root), wit_cursor 104 1)"
    "node_next E wit_iort (wit_cursor 104 1) = Some (Ok (SmmuV3 wit_smmu_v3), wit_cursor 172 0)"
    "node_next E wit_iort (wit_cursor 172 0) = None"
    by (simp_all add: node_next_def wit_cursor_def reads wit_iort_length checked_offset_def
        checked_add_usize_def usize_bound_def wit_parse_nodes iort_lengths)
qed

lemma wit_node_items:
  "node_items E wit_iort (wit_cursor 48 2) = [Ok (RootComplex wit_root), Ok (SmmuV3 wit_smmu_v3)]"
  unfolding node_items_def
  by (simp add: cursor_items_eq [OF counts_down_node, of E wit_iort "wit_cursor 48 2"]
      cursor_items_eq [OF counts_down_node, of E wit_iort "wit_cursor 104 1"]
      cursor_items_eq [OF counts_down_node, of E wit_iort "wit_cursor 172 0"] wit_node_next)

definition wit_mapping :: iort_id_mapping where
  "wit_mapping = \<lparr>im_input_base = 0x2a00, im_id_count = 0xff, im_output_base = 0x1000,
     im_output_reference = 104, im_flags = 0\<rparr>"

lemma wit_id_mappings: "id_mappings_for wit_iort wit_root_header = Ok (wit_cursor 84 1)"
  by (simp add: id_mappings_for_def wit_root_header_def end_offset_def checked_offset_def checked_add_usize_def
      usize_bound_def array_bytes_def checked_mul_usize_def iort_lengths wit_cursor_def)

lemma wit_mapping_items: "mapping_items wit_iort (wit_cursor 84 1) = [Ok wit_mapping]"
proof -
  have "read_id_mapping wit_iort 84 = Ok wit_mapping"
    by (simp add: read_id_mapping_def wit_iort_reads wit_mapping_def)
  then show ?thesis
    by (simp add: mapping_items_def cursor_items_def left_def wit_cursor_def array_next_def)
qed

lemma wit_root_complex: "root_complex_for_segment E wit_iort 3 = Ok (Some wit_root)"
  by (simp add: root_complex_for_segment_def for_each_root_complex_def for_each_node_def wit_nodes
      wit_node_items run_walk.simps st_then_def st_bind_def) (simp add: wit_root_def)

lemma wit_next_state:
  "next_state E wit_iort (RootComplex wit_root) 0x2a29 = Ok (Some (SmmuV3 wit_smmu_v3, 0x1029))"
proof -
  have "id_mappings wit_iort (RootComplex wit_root) = Ok (wit_cursor 84 1)"
    using wit_id_mappings by (simp add: id_mappings_def wit_root_def)
  moreover have "translate_for_node_kind wit_mapping k 0x2a29 = Some 0x1029" for k
    by (simp add: translate_for_node_kind_def wit_mapping_def is_single_mapping_def checked_add_u32_def
        word_less_nat_alt)
  ultimately have step: "translate_once wit_iort (RootComplex wit_root) 0x2a29 =
      Ok (Some \<lparr>ss_id = 0x1029, ss_output_reference = 104\<rparr>)"
    by (simp add: translate_once_def wit_mapping_items)
      (simp add: wit_mapping_def saturating_add_u32_def)
  have first: "iort_u32 wit_iort 40 = Ok 48" by (simp add: wit_iort_reads)
  have "ih_offset (rc_header wit_root) = 48" "ih_offset (v3_header wit_smmu_v3) = 104"
    by (simp_all add: wit_root_def wit_root_header_def wit_smmu_v3_def)
  then have "node_by_reference E wit_iort 104 = Ok (Some (SmmuV3 wit_smmu_v3))"
    by (simp add: node_by_reference_def node_offset_def IORT_NODE_OFFSET_OFFSET_def first wit_nodes
        wit_node_items wit_iort_length usize_try_from_u32_def)
  then show ?thesis using step by (simp add: next_state_def)
qed

section \<open>Witnesses\<close>

lemma wit_iort_walk:
  "id_walk E wit_iort Kind_SmmuV3 (RootComplex wit_root) 0x2a29 (Ok (Some \<lparr>tr_node = SmmuV3 wit_smmu_v3, tr_id = 0x1029\<rparr>))"
  "distinct (visited E wit_iort Kind_SmmuV3 (left (wit_cursor 48 2)) (RootComplex wit_root) 0x2a29)"
proof -
  have kinds: "ih_kind (node_header (RootComplex wit_root)) \<noteq> Kind_SmmuV3"
    "ih_kind (node_header (SmmuV3 wit_smmu_v3)) = Kind_SmmuV3"
    by (simp_all add: wit_root_def wit_root_header_def wit_smmu_v3_def)
  have left: "left (wit_cursor 48 2) = Suc (Suc 0)" by (simp add: left_def wit_cursor_def)
  show "id_walk E wit_iort Kind_SmmuV3 (RootComplex wit_root) 0x2a29
      (Ok (Some \<lparr>tr_node = SmmuV3 wit_smmu_v3, tr_id = 0x1029\<rparr>))"
    by (rule id_walk.step [OF kinds(1) wit_next_state]) (rule id_walk.hit [OF kinds(2)])
  show "distinct (visited E wit_iort Kind_SmmuV3 (left (wit_cursor 48 2)) (RootComplex wit_root) 0x2a29)"
    using kinds unfolding left by (simp add: wit_next_state)
qed

lemma map_id_to_kind_walk_witness:
  "map_id_to_kind std_ext wit_iort (RootComplex wit_root) 0x2a29 Kind_SmmuV3 =
     Ok (Some \<lparr>tr_node = SmmuV3 wit_smmu_v3, tr_id = 0x1029\<rparr>)"
proof -
  have "Ok (RootComplex wit_root) \<in> set (node_items std_ext wit_iort (wit_cursor 48 2))"
    by (simp add: wit_node_items)
  from map_id_to_kind_walk [OF wit_nodes this, of Kind_SmmuV3 "0x2a29"]
  have "id_walk std_ext wit_iort Kind_SmmuV3 (RootComplex wit_root) 0x2a29
      (map_id_to_kind std_ext wit_iort (RootComplex wit_root) 0x2a29 Kind_SmmuV3)"
    using wit_iort_walk(2) by (elim disjE conjE) simp_all
  from id_walk_unique [OF this wit_iort_walk(1)] show ?thesis .
qed

lemma iommu_of_requester_witness:
  "iommu_for_pci_requester std_ext wit_iort (pci_from_segment_bdf 3 (Bdf 0x2a29)) =
     Ok (Some \<lparr>tr_node = SmmuV3 wit_smmu_v3, tr_id = 0x1029\<rparr>)"
proof -
  let ?answer = "iommu_for_pci_requester std_ext wit_iort (pci_from_segment_bdf 3 (Bdf 0x2a29))"
  have root: "root_complex_for_segment std_ext wit_iort (pci_segment (pci_from_segment_bdf 3 (Bdf 0x2a29))) = Ok (Some wit_root)"
    using wit_root_complex by simp
  have ident: "as_u32 (Bdf 0x2a29) = 0x2a29" by (simp add: as_u32_def)
  have lost: "\<not> id_walk std_ext wit_iort Kind_SmmuV3 (RootComplex wit_root) 0x2a29 (Ok None)"
    using id_walk_unique [OF wit_iort_walk(1)] by blast
  have "id_walk std_ext wit_iort Kind_SmmuV3 (RootComplex wit_root) 0x2a29 ?answer"
    using iommu_of_requester [OF root wit_nodes] lost wit_iort_walk(2)
    by (cases ?answer) (auto simp: Let_def ident split: option.splits)
  from id_walk_unique [OF this wit_iort_walk(1)] show ?thesis .
qed

lemma wit_iort_bound: "length (io_sdt wit_iort) < usize_bound"
  by (simp add: wit_iort_length usize_bound_def)

lemma iort_requesters_exact_witness:
  "root_complex_requester_match std_ext wit_iort (pci_from_segment_bdf 3 (Bdf 0x2a29)) = Ok (Some MatchCovered) \<and>
   root_complex_requester_match std_ext wit_iort (pci_from_segment_bdf 3 (Bdf 0x2b00)) = Ok (Some MatchNotCovered)"
proof -
  have root: "root_complex_for_segment std_ext wit_iort (pci_segment (pci_from_segment_bdf 3 b)) = Ok (Some wit_root)" for b
    using wit_root_complex by simp
  have maps: "id_mappings_for wit_iort (rc_header wit_root) = Ok (wit_cursor 84 1)"
    using wit_id_mappings by (simp add: wit_root_def)
  have "map Ok (map (\<lambda>i. mapping_at (io_sdt wit_iort) (cur_offset (wit_cursor 84 1) + i * 20))
      [0..<unat (ih_mapping_count (rc_header wit_root))]) = [Ok wit_mapping :: (iort_id_mapping, firm_error) res]"
    using mapping_items_eq [OF wit_iort_bound maps root_complex_in_table(2) [OF root]]
      id_mappings_for_Ok(1) [OF maps root_complex_in_table(2) [OF root]]
    by (simp add: wit_mapping_items)
  then have ms: "map (\<lambda>i. mapping_at (io_sdt wit_iort) (cur_offset (wit_cursor 84 1) + i * 20))
      [0..<unat (ih_mapping_count (rc_header wit_root))] = [wit_mapping]"
    by (simp add: map_eq_Cons_conv)
  have "windows_of [wit_mapping] = {b. 0x2a00 \<le> unat (as_u16 b) \<and> unat (as_u16 b) \<le> 0x2aff}"
    "\<not> some_unresolved [wit_mapping]"
    by (simp_all add: mapping_window_def wit_mapping_def is_single_mapping_def)
  then show ?thesis
    using iort_requesters_exact [OF wit_iort_bound root maps, unfolded ms, of "Bdf 0x2a29"]
      iort_requesters_exact [OF wit_iort_bound root maps, unfolded ms, of "Bdf 0x2b00"]
    by simp
qed


end
