(* ===== verification/Spec2Isabelle.thy ===== *)
theory Spec2Isabelle
  imports Errors Addr Caps_Info Queue_Concurrent X86_Interrupt Vtd_Remap Vtd_Window Dmar_Encode Ivrs_Facts
    Iort_Facts
begin

text \<open>
  A model of the crate \<open>iommu\<close> (\<open>src/src\<close>), a \<open>no_std\<close> Rust library for IOMMU drivers. It finds out
  from the firmware tables which IOMMU serves which PCI requester, and drives an Intel VT-d unit:
  its tables in memory, its registers, its invalidation queue. The theories follow the files.

  \<^bold>\<open>Conventions.\<close> \<open>Prelude\<close>: a fallible function returns \<open>('a, 'e) res\<close>, that is \<open>Ok\<close>, \<open>Err\<close> or
  \<open>Panic\<close>, where \<open>Panic\<close> is a Rust panic (index, slice, arithmetic in debug builds, \<open>unwrap\<close>); a
  stateful one is in the state monad \<open>('a, 'e, 's) st\<close>. \<open>u8\<close> to \<open>u64\<close> are words, \<open>usize\<close> is a natural
  number below \<open>usize_bound = 2 ^ 64\<close> with each checked, wrapping or saturating operation written out.
  \<open>External\<close>: the crates \<open>memory_addr\<close>, \<open>kore_memory\<close>, \<open>acpi\<close> and \<open>x86_64\<close> are arguments (\<open>ext_ops\<close>,
  \<open>access_ops\<close>); \<open>ext_ok\<close> says what their documentation promises and \<open>std_ext\<close> shows that it can hold.

  \<^bold>\<open>Parts and theories.\<close>
  \<^item> PCI requesters, \<open>firm/pcie.rs\<close>: \<open>Pcie\<close> (\<open>Bdf\<close>, \<open>PciDevice\<close>), \<open>Bdf_Range\<close> (half-open windows),
    \<open>Bdf_Range_Set\<close> (the sorted array of windows with insertion and merging). The set is the provider
    of the locale \<open>requester_set\<close> of \<open>Interfaces\<close>, on which the table parsers rely.
  \<^item> Addresses, errors, vocabulary: \<open>Addr\<close> (\<open>addr.rs\<close>), \<open>Errors\<close> (\<open>error.rs\<close> and the parsers' errors, of
    one shape), \<open>Caps_Info\<close> (\<open>caps.rs\<close>, \<open>info.rs\<close>).
  \<^item> Command queue, \<open>ctrl.rs\<close>: \<open>Backing\<close> (the memory of rings and tables, providers of the locale
    \<open>slot_table\<close>), \<open>Command_Queue\<close> (one caller, every access in order) and \<open>Queue_Concurrent\<close> (any number
    of callers and the hardware, one step per atomic access, sequentially consistent).
  \<^item> x86 interrupts, \<open>arch/x86_64/interrupt.rs\<close>: \<open>X86_Interrupt\<close>.
  \<^item> Page-table entries, \<open>intel/paging.rs\<close>, \<open>amd/paging.rs\<close>, \<open>riscv/paging.rs\<close>, \<open>smmu3/mod.rs\<close>: \<open>Paging\<close>,
    with the contract \<open>pte_format\<close> that the external walker relies on.
  \<^item> Intel VT-d, \<open>arch/x86_64/intel\<close>: \<open>Vtd_Caps\<close> (\<open>caps.rs\<close>, \<open>info.rs\<close>, \<open>error.rs\<close>), and of \<open>ctrl.rs\<close>
    \<open>Vtd_Descriptors\<close> (tables' entries, invalidation descriptors, fault records), \<open>Range_Plan\<close>, \<open>Memory\<close>
    (bytes, 128-bit entries), \<open>Vtd_Registers\<close> (the window and its programming sequences),
    \<open>Vtd_Window\<close> (the rest of its interface), \<open>Vtd_Unit\<close> (\<open>VtdUnit\<close> and its operations).
    \<open>Vtd_Trace\<close> records the register accesses of a unit whose device answers arbitrarily; \<open>Vtd_Attach\<close> and \<open>Vtd_Range\<close> hold the proofs about attaching and range
    invalidation; \<open>Vtd_Controller\<close> has the invalidation hooks of \<open>src/ctrl.rs\<close> with their VT-d
    implementation and the controller of a domain. \<open>Vtd_Lookup\<close> has the lookup that the hardware does
    from the root table (\<open>hw_entry\<close>), the invariant of the tables in memory and the map of requesters
    that they refine. \<open>Vtd_Remap\<close> has the selection of an interrupt-remapping entry by a message.
  \<^item> Firmware tables: \<open>Firm_Table\<close> (what the three parsers share, with the locale \<open>bounded_walk\<close> of
    iterators that move forward in a table), \<open>Dmar\<close> and \<open>Dmar_Facts\<close> (\<open>intel/dmar.rs\<close>), \<open>Ivrs\<close> and
    \<open>Ivrs_Facts\<close> (\<open>amd/ivrs.rs\<close>), \<open>Iort\<close> and \<open>Iort_Facts\<close> (\<open>arch/aarch64/iort.rs\<close>). An iterator is a
    function from a cursor to the item and the next cursor, as \<open>Iterator::next\<close> is; a loop consumes the
    list of items up to the first error. \<open>Dmar_Encode\<close> is a reference encoder.

  \<^bold>\<open>What is shown.\<close>
  \<^item> Requester sets: insertion keeps the invariant (sorted, disjoint, not touching, within capacity),
    adds exactly the inserted requesters and depends on the requesters only, not on the order of
    insertion; it fails exactly when the result does not fit.
  \<^item> Queue: what a submission writes and when it returns; a failure after publication disables the
    slot for good; with many callers the ring slot being written is exclusive and commands are
    published in ticket order; a command can be reported done before the hardware has read it.
  \<^item> VT-d: fields of every descriptor, decoding of faults, the order of register writes of enabling
    translation, the effect of attaching and detaching on the context table, the pages a range plan
    and an accepted invalidation request cover, what the hooks hide. After any requests to install
    tables, attach and detach, the hardware finds in memory exactly the entries that the map of
    requesters specifies, and none for a requester that nobody attached. This is about the tables; what
    a device may still have cached is a matter of the invalidations. A composed interrupt finds its entry
    exactly when its sub-handle is 0; with another it finds what was at the sum of index and sub-handle.
  \<^item> Tables: the parsers never panic and end, for all bytes; what they yield lies inside the table; the
    requesters reported are exactly those of reference definitions; the walk through the IORT mapping
    graph agrees with the unbounded walk, and the IOMMU answered for a requester is the one that walk
    finds; the DMAR parser reads back what the encoder writes.

  \<^bold>\<open>Bounds.\<close> The poll limits are the source's 1000000 rounds, as a counter of structural recursion; no
  proof unfolds it. \<open>map_id_to_kind\<close> has the source's counter, the number of nodes: enough, because a
  walk of distinct nodes is shorter (\<open>map_id_to_kind_walk\<close>). All other loops recurse on a decreasing
  measure: bytes left, pages left, items left. The iterators of \<open>Iort\<close> use the count of their cursor as
  fuel, which \<open>cursor_items_eq\<close> removes.

  \<^bold>\<open>Not modelled.\<close> The \<open>from_mapping\<close> functions that make a slice of a raw pointer; \<open>Display\<close> and
  \<open>Debug\<close>; the declarations of the traits \<open>Controller\<close> and \<open>MmioRange\<close> (their implementations are); the
  page-table walker and the register mapping of \<open>kore_memory\<close>, which are arguments; weak memory
  (the atomic accesses are sequentially consistent here, the source uses acquire and release); the
  modules \<open>firm/fdt.rs\<close>, \<open>riscv64/rimt.rs\<close> and \<open>smmu2\<close>, which have no operations; the tests.
\<close>

end
